(* ===== verification/Vlt_Prelude.thy ===== *)
theory Vlt_Prelude
  imports Main "HOL-Library.Word" "HOL-Library.Code_Target_Nat"
begin

unbundle bit_operations_syntax

text \<open>
  The shared vocabulary of the development: the widths of the machine integers, byte strings,
  Rust's \<open>Result\<close> as a sum type with the early return of the \<open>?\<close> operator
  (\<open>and_then\<close>), the same for operations that also thread a mutable state
  (\<open>then_do\<close>), checked conversions and additions, big-endian byte encodings
  (\<open>to_be_bytes\<close>, \<open>from_be_bytes\<close>), \<open>slice::chunks\<close>, and the facts on them
  that the component theories use.
\<close>

named_theorems result_simps \<open>unfolding a Result-valued operation into its branches\<close>
named_theorems codec_simps \<open>what a decoder returns on encoded input\<close>

type_synonym u8 = "8 word"
type_synonym u16 = "16 word"
type_synonym u32 = "32 word"
type_synonym u64 = "64 word"
type_synonym bytes = "u8 list"

section \<open>Results\<close>

definition and_then :: "'e + 'a \<Rightarrow> ('a \<Rightarrow> 'e + 'b) \<Rightarrow> 'e + 'b" where
  "and_then r f = (case r of Inl e \<Rightarrow> Inl e | Inr x \<Rightarrow> f x)"

definition ok_or :: "'e \<Rightarrow> 'a option \<Rightarrow> 'e + 'a" where
  "ok_or e x = (case x of None \<Rightarrow> Inl e | Some v \<Rightarrow> Inr v)"

definition then_do :: "('s \<Rightarrow> 's \<times> ('e + 'a)) \<Rightarrow> ('a \<Rightarrow> 's \<Rightarrow> 's \<times> ('e + 'b)) \<Rightarrow> 's \<Rightarrow> 's \<times> ('e + 'b)" where
  "then_do m f s = (case m s of (s', Inl e) \<Rightarrow> (s', Inl e) | (s', Inr x) \<Rightarrow> f x s')"

lemma and_then_simps [simp]:
  "and_then (Inl e) f = Inl e"
  "and_then (Inr x) f = f x"
  by (simp_all add: and_then_def)

lemma and_then_eq_Inr [result_simps]:
  "and_then r f = Inr y \<longleftrightarrow> (\<exists>x. r = Inr x \<and> f x = Inr y)"
  by (cases r) auto

lemma and_then_eq_Inl [result_simps]:
  "and_then r f = Inl e \<longleftrightarrow> r = Inl e \<or> (\<exists>x. r = Inr x \<and> f x = Inl e)"
  by (cases r) auto

lemma and_then_cong [fundef_cong]:
  "r = r' \<Longrightarrow> (\<And>x. r' = Inr x \<Longrightarrow> f x = g x) \<Longrightarrow> and_then r f = and_then r' g"
  by (cases r') auto

lemma ok_or_simps [simp]:
  "ok_or e None = Inl e"
  "ok_or e (Some x) = Inr x"
  by (simp_all add: ok_or_def)

lemma ok_or_eq_Inr [result_simps]: "ok_or e x = Inr y \<longleftrightarrow> x = Some y"
  by (cases x) auto

lemma ok_or_eq_Inl [result_simps]: "ok_or e x = Inl e' \<longleftrightarrow> x = None \<and> e' = e"
  by (cases x) auto

lemma then_do_Inl [simp]: "m s = (s', Inl e) \<Longrightarrow> then_do m f s = (s', Inl e)"
  by (simp add: then_do_def)

lemma then_do_Inr [simp]: "m s = (s', Inr x) \<Longrightarrow> then_do m f s = f x s'"
  by (simp add: then_do_def)

lemma then_do_eq_Inr [result_simps]:
  "then_do m f s = (t, Inr y) \<longleftrightarrow> (\<exists>s' x. m s = (s', Inr x) \<and> f x s' = (t, Inr y))"
  by (auto simp: then_do_def split: prod.splits sum.splits)

lemma then_do_eq_Inl [result_simps]:
  "then_do m f s = (t, Inl e) \<longleftrightarrow>
     m s = (t, Inl e) \<or> (\<exists>s' x. m s = (s', Inr x) \<and> f x s' = (t, Inl e))"
  by (auto simp: then_do_def split: prod.splits sum.splits)

lemma then_do_cases:
  obtains (err) s' e where "m s = (s', Inl e)" "then_do m f s = (s', Inl e)"
  | (ok) s' x where "m s = (s', Inr x)" "then_do m f s = f x s'"
  by (cases "m s"; cases "snd (m s)") auto

text \<open>
  \<open>evolves R m\<close>: whatever \<open>m\<close> returns, the state it leaves is related to the state it found.
  For a transitive relation the fact passes through sequences of operations; it carries the frame and
  monotonicity properties of the components.
\<close>

definition evolves :: "('s \<Rightarrow> 's \<Rightarrow> bool) \<Rightarrow> ('s \<Rightarrow> 's \<times> 'a) \<Rightarrow> bool" where
  "evolves R m \<longleftrightarrow> (\<forall>s. R s (fst (m s)))"

lemma evolvesI: "(\<And>s s' r. m s = (s', r) \<Longrightarrow> R s s') \<Longrightarrow> evolves R m"
  by (simp add: evolves_def) (metis prod.collapse)

lemma evolvesD: "evolves R m \<Longrightarrow> m s = (s', r) \<Longrightarrow> R s s'"
  unfolding evolves_def by (metis fst_conv)

lemma evolves_then_do:
  assumes R: "\<And>a b c. R a b \<Longrightarrow> R b c \<Longrightarrow> R a c"
    and m: "evolves R m" and f: "\<And>x. evolves R (f x)"
  shows "evolves R (then_do m f)"
proof (rule evolvesI)
  fix s s' r assume eq: "then_do m f s = (s', r)"
  show "R s s'"
  proof (cases rule: then_do_cases [of m s f])
    case (err t e)
    with eq m show ?thesis by (auto dest: evolvesD)
  next
    case (ok t x)
    with eq have "f x t = (s', r)" by simp
    with evolvesD [OF m ok(1)] evolvesD [OF f] R show ?thesis by blast
  qed
qed

section \<open>Checked conversions and additions\<close>

text \<open>
  A \<open>usize\<close> is 64 bits wide on the supported Linux targets. Lengths and offsets are natural
  numbers and the bound is written out where the code checks it.
\<close>

definition checked_add_usize :: "nat \<Rightarrow> nat \<Rightarrow> nat option" where
  "checked_add_usize a b = (if a + b < 2 ^ 64 then Some (a + b) else None)"

definition checked_add :: "'w::len word \<Rightarrow> 'w word \<Rightarrow> 'w word option" where
  "checked_add a b = (if unat a + unat b < 2 ^ LENGTH('w) then Some (a + b) else None)"

definition checked_sub :: "'w::len word \<Rightarrow> 'w word \<Rightarrow> 'w word option" where
  "checked_sub a b = (if b \<le> a then Some (a - b) else None)"

definition try_from_nat :: "nat \<Rightarrow> 'w::len word option" where
  "try_from_nat n = (if n < 2 ^ LENGTH('w) then Some (word_of_nat n) else None)"

definition u32_try_from_u64 :: "u64 \<Rightarrow> u32 option" where
  "u32_try_from_u64 v = (if v \<le> 0xffffffff then Some (ucast v) else None)"

lemma checked_add_eq_Some [result_simps]:
  "checked_add a b = Some c \<longleftrightarrow> unat a + unat b < 2 ^ LENGTH('w) \<and> c = a + b"
  for a b c :: "'w::len word"
  by (auto simp: checked_add_def)

lemma unat_checked_add: "checked_add a b = Some c \<Longrightarrow> unat c = unat a + unat b"
  by (auto simp: checked_add_def unat_word_ariths split: if_splits)

lemma unat_checked_sub: "checked_sub a b = Some c \<Longrightarrow> unat c = unat a - unat b"
  by (auto simp: checked_sub_def unat_sub split: if_splits)

lemma unat_try_from_nat: "try_from_nat n = Some w \<Longrightarrow> unat w = n"
  by (auto simp: try_from_nat_def unat_of_nat split: if_splits)

lemma try_from_nat_unat [simp]: "try_from_nat (unat w) = Some w"
  by (simp add: try_from_nat_def)

lemma unat_ucast_u32_u64 [simp]: "unat (ucast (w :: u32) :: u64) = unat w"
proof -
  have "unat w < 2 ^ 32" using unsigned_less [of w, where 'a = nat] by simp
  then show ?thesis by (simp add: unsigned_ucast_eq take_bit_nat_eq_self)
qed

lemma unat_ucast_u64_u32: "unat v < 2 ^ 32 \<Longrightarrow> unat (ucast (v :: u64) :: u32) = unat v"
  by (simp add: unsigned_ucast_eq take_bit_nat_eq_self)

lemma u32_try_from_u64_eq_Some [result_simps]: "u32_try_from_u64 v = Some w \<longleftrightarrow> v = ucast w"
proof
  assume "u32_try_from_u64 v = Some w"
  then have le: "v \<le> 0xffffffff" and w: "w = ucast v"
    by (auto simp: u32_try_from_u64_def split: if_splits)
  from le have "unat v < 2 ^ 32" by (simp add: word_le_nat_alt)
  with w show "v = ucast w" by (simp add: word_unat_eq_iff unat_ucast_u64_u32)
next
  assume v: "v = ucast w"
  have "unat w < 2 ^ 32" using unsigned_less [of w, where 'a = nat] by simp
  with v have "v \<le> 0xffffffff" by (simp add: word_le_nat_alt)
  moreover have "ucast v = w"
    using v \<open>unat w < 2 ^ 32\<close> by (simp add: word_unat_eq_iff unat_ucast_u64_u32)
  ultimately show "u32_try_from_u64 v = Some w" by (simp add: u32_try_from_u64_def)
qed

section \<open>Big-endian bytes\<close>

primrec be_bytes :: "nat \<Rightarrow> nat \<Rightarrow> bytes" where
  "be_bytes 0 x = []"
| "be_bytes (Suc n) x = be_bytes n (x div 256) @ [word_of_nat x]"

definition be_nat :: "bytes \<Rightarrow> nat" where
  "be_nat bs = foldl (\<lambda>a b. 256 * a + unat b) 0 bs"

definition u16_to_be_bytes :: "u16 \<Rightarrow> bytes" where
  "u16_to_be_bytes v = be_bytes 2 (unat v)"

definition u32_to_be_bytes :: "u32 \<Rightarrow> bytes" where
  "u32_to_be_bytes v = be_bytes 4 (unat v)"

definition u64_to_be_bytes :: "u64 \<Rightarrow> bytes" where
  "u64_to_be_bytes v = be_bytes 8 (unat v)"

definition from_be_bytes :: "bytes \<Rightarrow> 'w::len word" where
  "from_be_bytes bs = word_of_nat (be_nat bs)"

lemma be_nat_snoc [simp]: "be_nat (bs @ [b]) = 256 * be_nat bs + unat b"
  by (simp add: be_nat_def)

lemma be_nat_Nil [simp]: "be_nat [] = 0"
  by (simp add: be_nat_def)

lemma length_be_bytes [simp]: "length (be_bytes n x) = n"
  by (induction n arbitrary: x) auto

lemma be_nat_be_bytes: "be_nat (be_bytes n x) = x mod 256 ^ n"
proof (induction n arbitrary: x)
  case (Suc n)
  have "be_nat (be_bytes (Suc n) x) = 256 * (x div 256 mod 256 ^ n) + x mod 256"
    by (simp add: Suc.IH unat_of_nat)
  also have "\<dots> = x mod 256 ^ Suc n"
    by (simp add: mod_mult2_eq)
  finally show ?case .
qed simp

lemma be_bytes_be_nat: "be_bytes (length bs) (be_nat bs) = bs"
proof (induction bs rule: rev_induct)
  case (snoc b bs)
  have b: "unat b < 256" using unsigned_less [of b, where 'a = nat] by simp
  then have "(256 * be_nat bs + unat b) div 256 = be_nat bs" by simp
  moreover have "word_of_nat (256 * be_nat bs + unat b) = b"
  proof -
    have "(256 :: u8) = 0" by simp
    then show ?thesis by (simp only: of_nat_add of_nat_mult of_nat_numeral) simp
  qed
  ultimately show ?case by (simp add: snoc.IH)
qed simp

lemma be_nat_less: "be_nat bs < 256 ^ length bs"
  using be_nat_be_bytes [of "length bs" "be_nat bs"] by (metis be_bytes_be_nat mod_less_divisor zero_less_numeral zero_less_power)

lemma be_bytes_inject: "x < 256 ^ n \<Longrightarrow> y < 256 ^ n \<Longrightarrow> be_bytes n x = be_bytes n y \<longleftrightarrow> x = y"
  by (metis be_nat_be_bytes mod_less)

lemma length_to_be_bytes [simp]:
  "length (u16_to_be_bytes a) = 2" "length (u32_to_be_bytes b) = 4" "length (u64_to_be_bytes c) = 8"
  by (simp_all add: u16_to_be_bytes_def u32_to_be_bytes_def u64_to_be_bytes_def)

lemma from_be_bytes_to_be_bytes [simp]:
  "from_be_bytes (u16_to_be_bytes a) = a"
  "from_be_bytes (u32_to_be_bytes b) = b"
  "from_be_bytes (u64_to_be_bytes c) = c"
  using unsigned_less [of a, where 'a = nat] unsigned_less [of b, where 'a = nat]
    unsigned_less [of c, where 'a = nat]
  by (simp_all add: from_be_bytes_def u16_to_be_bytes_def u32_to_be_bytes_def u64_to_be_bytes_def
      be_nat_be_bytes)

lemma u16_to_be_bytes_from: "length bs = 2 \<Longrightarrow> u16_to_be_bytes (from_be_bytes bs) = bs"
  using be_nat_less [of bs] be_bytes_be_nat [of bs]
  by (simp add: u16_to_be_bytes_def from_be_bytes_def unat_of_nat)

lemma u32_to_be_bytes_from: "length bs = 4 \<Longrightarrow> u32_to_be_bytes (from_be_bytes bs) = bs"
  using be_nat_less [of bs] be_bytes_be_nat [of bs]
  by (simp add: u32_to_be_bytes_def from_be_bytes_def unat_of_nat)

lemma u64_to_be_bytes_from: "length bs = 8 \<Longrightarrow> u64_to_be_bytes (from_be_bytes bs) = bs"
  using be_nat_less [of bs] be_bytes_be_nat [of bs]
  by (simp add: u64_to_be_bytes_def from_be_bytes_def unat_of_nat)

lemmas to_be_bytes_from = u16_to_be_bytes_from u32_to_be_bytes_from u64_to_be_bytes_from

lemma to_be_bytes_inject [simp]:
  "u32_to_be_bytes a = u32_to_be_bytes b \<longleftrightarrow> a = b"
  "u64_to_be_bytes c = u64_to_be_bytes d \<longleftrightarrow> c = d"
  by (metis from_be_bytes_to_be_bytes(2), metis from_be_bytes_to_be_bytes(3))

section \<open>Chunks of a slice\<close>

function chunks :: "nat \<Rightarrow> 'a list \<Rightarrow> 'a list list" where
  "chunks n xs = (if n = 0 \<or> xs = [] then [] else take n xs # chunks n (drop n xs))"
  by pat_completeness auto
termination
  by (relation "measure (\<lambda>(n, xs). length xs)") auto

declare chunks.simps [simp del]

lemma chunks_Nil [simp]: "chunks n [] = []"
  by (simp add: chunks.simps)

lemma chunks_step: "0 < n \<Longrightarrow> xs \<noteq> [] \<Longrightarrow> chunks n xs = take n xs # chunks n (drop n xs)"
  by (simp add: chunks.simps)

lemma concat_chunks: "0 < n \<Longrightarrow> concat (chunks n xs) = xs"
proof (induction n xs rule: chunks.induct)
  case (1 n xs)
  then show ?case by (cases "xs = []") (simp_all add: chunks_step)
qed

lemma chunks_nonempty: "0 < n \<Longrightarrow> c \<in> set (chunks n xs) \<Longrightarrow> c \<noteq> [] \<and> length c \<le> n"
proof (induction n xs rule: chunks.induct)
  case (1 n xs)
  then show ?case by (cases "xs = []") (auto simp: chunks_step)
qed

text \<open>\<open>usize::div_ceil\<close>.\<close>

definition div_ceil :: "nat \<Rightarrow> nat \<Rightarrow> nat" where
  "div_ceil a b = (if a mod b = 0 then a div b else a div b + 1)"

lemma length_chunks: "0 < n \<Longrightarrow> length (chunks n xs) = div_ceil (length xs) n"
proof (induction n xs rule: chunks.induct)
  case (1 n xs)
  show ?case
  proof (cases "xs = []")
    case False
    then have IH: "length (chunks n (drop n xs)) = div_ceil (length xs - n) n"
      using 1 by simp
    show ?thesis
    proof (cases "n \<le> length xs")
      case True
      with False 1(2) IH show ?thesis
        by (simp add: chunks_step div_ceil_def le_div_geq le_mod_geq)
    next
      case short: False
      with False 1(2) show ?thesis
        by (simp add: chunks_step div_ceil_def)
    qed
  qed (simp add: div_ceil_def)
qed

text \<open>Every chunk but the last is full, and the last holds what the full ones leave.\<close>

lemma nth_chunks: "0 < n \<Longrightarrow> i < length (chunks n xs) \<Longrightarrow> chunks n xs ! i = take n (drop (i * n) xs)"
proof (induction n xs arbitrary: i rule: chunks.induct)
  case (1 n xs)
  show ?case
  proof (cases "xs = []")
    case False
    then show ?thesis
      using 1 by (cases i) (auto simp: chunks_step add.commute)
  qed (use 1 in simp)
qed

section \<open>Concatenations of prefix-free encodings\<close>

lemma concat_map_inj:
  assumes ne: "\<And>x. x \<in> A \<Longrightarrow> enc x \<noteq> []"
    and free: "\<And>x y r s. x \<in> A \<Longrightarrow> y \<in> A \<Longrightarrow> enc x @ r = enc y @ s \<Longrightarrow> x = y"
  shows "set xs \<subseteq> A \<Longrightarrow> set ys \<subseteq> A \<Longrightarrow> concat (map enc xs) = concat (map enc ys) \<Longrightarrow> xs = ys"
proof (induction xs arbitrary: ys)
  case Nil
  then show ?case using ne by (cases ys) auto
next
  case (Cons x xs)
  then obtain y ys' where ys: "ys = y # ys'" using ne by (cases ys) auto
  with Cons.prems have "x = y" using free [of x y] by auto
  with ys Cons show ?case by auto
qed

section \<open>Searching lists\<close>

lemma find_in_set: "find P xs = Some x \<Longrightarrow> x \<in> set xs \<and> P x"
  by (induction xs) (auto split: if_splits)

lemma find_snoc: "find P (xs @ [y]) = (case find P xs of None \<Rightarrow> if P y then Some y else None | Some x \<Rightarrow> Some x)"
  by (induction xs) auto

end
