(* ===== verification/Vlt_Format.thy ===== *)
theory Vlt_Format
  imports Vlt_Prelude
begin

text \<open>
  The error type and the record types of the core crate: \<open>crates/vlt1-core/src/error.rs\<close>
  and \<open>crates/vlt1-core/src/format.rs\<close>. Fixed-size arrays are byte lists; the predicates
  \<open>id_ok\<close>, \<open>sealed_ok\<close> and \<open>manifest_ok\<close> state the lengths that Rust's array types
  carry. The operating system's random source is the infinite stream of the bytes it will
  deliver, threaded through every operation that draws from it.
\<close>

section \<open>Errors\<close>

datatype vault_error =
    Locked
  | UnlockFailed
  | Authentication
  | InvalidFormat string
  | Invariant string
  | NotFound
  | Storage
  | InvalidInput string
  | WitnessUnavailable
  | WitnessConflict

type_synonym 'a result = "vault_error + 'a"

fun requires_lock :: "vault_error \<Rightarrow> bool" where
  "requires_lock Authentication = True"
| "requires_lock (InvalidFormat _) = True"
| "requires_lock (Invariant _) = True"
| "requires_lock Storage = True"
| "requires_lock WitnessUnavailable = True"
| "requires_lock WitnessConflict = True"
| "requires_lock _ = False"

definition invalid_format :: "string \<Rightarrow> vault_error" where
  [simp]: "invalid_format message = InvalidFormat message"

section \<open>Randomness\<close>

type_synonym rng = "nat \<Rightarrow> u8"

definition fill_bytes :: "nat \<Rightarrow> rng \<Rightarrow> bytes \<times> rng" where
  "fill_bytes n g = (map g [0..<n], \<lambda>i. g (n + i))"

lemma length_fill_bytes [simp]: "length (fst (fill_bytes n g)) = n"
  by (simp add: fill_bytes_def)

lemma fill_bytes_length: "fill_bytes n g = (bs, g') \<Longrightarrow> length bs = n"
  by (auto simp: fill_bytes_def)

section \<open>Identifiers\<close>

type_synonym vault_id = bytes
type_synonym object_id = bytes
type_synonym version_id = bytes

definition FORMAT_VERSION :: u32 where
  "FORMAT_VERSION = 1"

definition id_ok :: "bytes \<Rightarrow> bool" where
  "id_ok i \<longleftrightarrow> length i = 16"

definition random_id :: "rng \<Rightarrow> bytes \<times> rng" where
  "random_id g = fill_bytes 16 g"

definition from_slice :: "bytes \<Rightarrow> bytes result" where
  "from_slice bs =
     (if length bs = 16 then Inr bs else Inl (invalid_format ''invalid identifier length''))"

definition hex_digit :: "u8 \<Rightarrow> char" where
  "hex_digit n = ''0123456789abcdef'' ! unat n"

definition to_hex :: "bytes \<Rightarrow> string" where
  "to_hex i = concat (map (\<lambda>byte. [hex_digit (drop_bit 4 byte), hex_digit (byte AND 0x0f)]) i)"

lemma from_slice_eq_Inr [result_simps]: "from_slice bs = Inr i \<longleftrightarrow> id_ok bs \<and> i = bs"
  by (auto simp: from_slice_def id_ok_def)

lemma from_slice_ok [simp]: "id_ok bs \<Longrightarrow> from_slice bs = Inr bs"
  by (simp add: from_slice_def id_ok_def)

lemma id_ok_random: "random_id g = (i, g') \<Longrightarrow> id_ok i"
  by (auto simp: random_id_def id_ok_def dest: fill_bytes_length)

section \<open>Records\<close>

record sealed_record =
  nonce :: bytes
  ciphertext :: bytes

definition sealed_ok :: "sealed_record \<Rightarrow> bool" where
  "sealed_ok r \<longleftrightarrow> length (nonce r) = 12"

record manifest =
  mf_format_version :: u32
  mf_object_id :: object_id
  mf_version_id :: version_id
  mf_plaintext_len :: u64
  mf_chunk_size :: u32
  mf_chunk_count :: u32
  mf_chunk_digest :: bytes

definition manifest_ok :: "manifest \<Rightarrow> bool" where
  "manifest_ok m \<longleftrightarrow> id_ok (mf_object_id m) \<and> id_ok (mf_version_id m) \<and> length (mf_chunk_digest m) = 32"

record encrypted_chunk =
  ck_index :: u32
  ck_record :: sealed_record

end
