(* ===== verification/Vlt_Cde.thy ===== *)
theory Vlt_Cde
  imports Vlt_Format
begin

text \<open>
  The deterministic CBOR encoder and decoder for Manifests,
  \<open>crates/vlt1-core/src/cde.rs\<close>. The decoder is a cursor over the input, as in the code; every
  reading operation returns the value and the advanced cursor or the format error. The central
  fact is \<open>decode_manifest_iff\<close>: the decoder accepts exactly the encodings of manifests.
\<close>

section \<open>Encoder\<close>

definition MAP_FIELDS :: u8 where
  "MAP_FIELDS = 8"

definition put_major_uint :: "u8 \<Rightarrow> u64 \<Rightarrow> bytes" where
  "put_major_uint major value =
     (let bytes = u64_to_be_bytes value in
      if value \<le> 0x17 then [push_bit 5 major OR bytes ! 7]
      else if value \<le> 0xff then [push_bit 5 major OR 0x18, bytes ! 7]
      else if value \<le> 0xffff then (push_bit 5 major OR 0x19) # drop 6 bytes
      else if value \<le> 0xffffffff then (push_bit 5 major OR 0x1a) # drop 4 bytes
      else (push_bit 5 major OR 0x1b) # bytes)"

definition put_uint :: "u8 \<Rightarrow> u64 \<Rightarrow> bytes" where
  "put_uint key value = key # put_major_uint 0 value"

definition put_bytes :: "u8 \<Rightarrow> bytes \<Rightarrow> bytes" where
  "put_bytes key bs = key # put_major_uint 2 (word_of_nat (length bs)) @ bs"

definition encode_manifest :: "manifest \<Rightarrow> bytes" where
  "encode_manifest m =
     [0xa0 OR MAP_FIELDS]
     @ put_uint 1 (ucast (mf_format_version m))
     @ put_bytes 2 (mf_object_id m)
     @ put_bytes 3 (mf_version_id m)
     @ put_uint 4 (mf_plaintext_len m)
     @ put_uint 5 (ucast (mf_chunk_size m))
     @ put_uint 6 (ucast (mf_chunk_count m))
     @ put_bytes 7 (mf_chunk_digest m)
     @ put_uint 8 1"

section \<open>Decoder\<close>

record decoder =
  input :: bytes
  offset :: nat

definition decoder_new :: "bytes \<Rightarrow> decoder" where
  "decoder_new bs = \<lparr>input = bs, offset = 0\<rparr>"

definition dec_take :: "decoder \<Rightarrow> (u8 \<times> decoder) result" where
  "dec_take d =
     (if offset d < length (input d) then Inr (input d ! offset d, d\<lparr>offset := offset d + 1\<rparr>)
      else Inl (invalid_format ''truncated manifest''))"

text \<open>\<open>input.get(offset..end)\<close>: the slice when it lies inside the input.\<close>

definition get_range :: "bytes \<Rightarrow> nat \<Rightarrow> nat \<Rightarrow> bytes option" where
  "get_range bs i j = (if i \<le> j \<and> j \<le> length bs then Some (take (j - i) (drop i bs)) else None)"

definition read_fixed :: "nat \<Rightarrow> decoder \<Rightarrow> (bytes \<times> decoder) result" where
  "read_fixed n d =
     and_then (ok_or (invalid_format ''fixed read overflow'') (checked_add_usize (offset d) n)) (\<lambda>e.
     and_then (ok_or (invalid_format ''truncated integer'') (get_range (input d) (offset d) e)) (\<lambda>bs.
     if length bs \<noteq> n then Inl (invalid_format ''invalid fixed integer'')
     else Inr (bs, d\<lparr>offset := e\<rparr>)))"

definition canonical_additional :: "u64 \<Rightarrow> u8" where
  "canonical_additional value =
     (if value \<le> 0x17 then u64_to_be_bytes value ! 7
      else if value \<le> 0xff then 0x18
      else if value \<le> 0xffff then 0x19
      else if value \<le> 0xffffffff then 0x1a
      else 0x1b)"

definition read_additional :: "u8 \<Rightarrow> decoder \<Rightarrow> (u64 \<times> decoder) result" where
  "read_additional additional d =
     (if additional \<le> 23 then Inr (ucast additional, d)
      else if additional = 24 then
        and_then (dec_take d) (\<lambda>(b, d). Inr (ucast b, d))
      else if additional = 25 then
        and_then (read_fixed 2 d) (\<lambda>(bs, d). Inr (ucast (from_be_bytes bs :: u16), d))
      else if additional = 26 then
        and_then (read_fixed 4 d) (\<lambda>(bs, d). Inr (ucast (from_be_bytes bs :: u32), d))
      else if additional = 27 then
        and_then (read_fixed 8 d) (\<lambda>(bs, d). Inr (from_be_bytes bs, d))
      else Inl (invalid_format ''indefinite or reserved CBOR length''))"

definition read_major_uint :: "u8 \<Rightarrow> decoder \<Rightarrow> (u64 \<times> decoder) result" where
  "read_major_uint expected_major d =
     and_then (dec_take d) (\<lambda>(initial, d).
     if drop_bit 5 initial \<noteq> expected_major
     then Inl (invalid_format ''unexpected CBOR major type'')
     else let additional = initial AND 0x1f in
     and_then (read_additional additional d) (\<lambda>(value, d).
     if canonical_additional value \<noteq> additional
     then Inl (invalid_format ''non-canonical integer encoding'')
     else Inr (value, d)))"

definition read_uint :: "decoder \<Rightarrow> (u64 \<times> decoder) result" where
  "read_uint d = read_major_uint 0 d"

definition read_bytes_exact :: "nat \<Rightarrow> decoder \<Rightarrow> (bytes \<times> decoder) result" where
  "read_bytes_exact expected_len d =
     and_then (read_major_uint 2 d) (\<lambda>(len, d).
     if unat len \<noteq> expected_len then Inl (invalid_format ''unexpected byte string length'')
     else
     and_then (ok_or (invalid_format ''byte string length overflow'')
       (checked_add_usize (offset d) (unat len))) (\<lambda>e.
     and_then (ok_or (invalid_format ''truncated byte string'') (get_range (input d) (offset d) e)) (\<lambda>bs.
     Inr (bs, d\<lparr>offset := e\<rparr>))))"

definition finished :: "decoder \<Rightarrow> bool" where
  "finished d \<longleftrightarrow> offset d = length (input d)"

text \<open>The seven \<open>Option\<close> variables that the decoding loop fills.\<close>

record manifest_fields =
  o_format_version :: "u32 option"
  o_object_id :: "object_id option"
  o_version_id :: "version_id option"
  o_plaintext_len :: "u64 option"
  o_chunk_size :: "u32 option"
  o_chunk_count :: "u32 option"
  o_chunk_digest :: "bytes option"

definition no_fields :: manifest_fields where
  "no_fields = \<lparr>o_format_version = None, o_object_id = None, o_version_id = None,
     o_plaintext_len = None, o_chunk_size = None, o_chunk_count = None, o_chunk_digest = None\<rparr>"

text \<open>The body of the \<open>match key\<close>; the unreachable arm is an error of its own.\<close>

definition decode_value :: "u64 \<Rightarrow> manifest_fields \<Rightarrow> decoder \<Rightarrow> (manifest_fields \<times> decoder) result" where
  "decode_value key f d =
     (if key = 1 then
        and_then (read_uint d) (\<lambda>(value, d).
        and_then (ok_or (invalid_format ''format version exceeds u32'') (u32_try_from_u64 value)) (\<lambda>v.
        Inr (f\<lparr>o_format_version := Some v\<rparr>, d)))
      else if key = 2 then
        and_then (read_bytes_exact 16 d) (\<lambda>(bs, d).
        and_then (from_slice bs) (\<lambda>i. Inr (f\<lparr>o_object_id := Some i\<rparr>, d)))
      else if key = 3 then
        and_then (read_bytes_exact 16 d) (\<lambda>(bs, d).
        and_then (from_slice bs) (\<lambda>i. Inr (f\<lparr>o_version_id := Some i\<rparr>, d)))
      else if key = 4 then
        and_then (read_uint d) (\<lambda>(value, d). Inr (f\<lparr>o_plaintext_len := Some value\<rparr>, d))
      else if key = 5 then
        and_then (read_uint d) (\<lambda>(value, d).
        and_then (ok_or (invalid_format ''chunk size exceeds u32'') (u32_try_from_u64 value)) (\<lambda>v.
        Inr (f\<lparr>o_chunk_size := Some v\<rparr>, d)))
      else if key = 6 then
        and_then (read_uint d) (\<lambda>(value, d).
        and_then (ok_or (invalid_format ''chunk count exceeds u32'') (u32_try_from_u64 value)) (\<lambda>v.
        Inr (f\<lparr>o_chunk_count := Some v\<rparr>, d)))
      else if key = 7 then
        and_then (read_bytes_exact 32 d) (\<lambda>(bs, d). Inr (f\<lparr>o_chunk_digest := Some bs\<rparr>, d))
      else if key = 8 then
        and_then (read_uint d) (\<lambda>(value, d).
        if value \<noteq> 1 then Inl (invalid_format ''manifest profile marker is invalid'')
        else Inr (f, d))
      else Inl (Invariant ''unreachable: keys are bounded by MAP_FIELDS''))"

text \<open>The loop \<open>for expected_key in 1..=MAP_FIELDS\<close>.\<close>

fun decode_fields :: "u64 list \<Rightarrow> manifest_fields \<Rightarrow> decoder \<Rightarrow> (manifest_fields \<times> decoder) result" where
  "decode_fields [] f d = Inr (f, d)"
| "decode_fields (expected_key # keys) f d =
     and_then (read_uint d) (\<lambda>(key, d).
     if key \<noteq> expected_key then Inl (invalid_format ''manifest keys must be ordered and unique'')
     else and_then (decode_value key f d) (\<lambda>(f, d). decode_fields keys f d))"

definition decode_manifest :: "bytes \<Rightarrow> manifest result" where
  "decode_manifest bs =
     and_then (dec_take (decoder_new bs)) (\<lambda>(initial, d).
     if initial \<noteq> 0xa0 OR MAP_FIELDS
     then Inl (invalid_format ''manifest must be an eight-field map'')
     else
     and_then (decode_fields [1, 2, 3, 4, 5, 6, 7, 8] no_fields d) (\<lambda>(f, d).
     if \<not> finished d then Inl (invalid_format ''trailing manifest bytes'')
     else
     and_then (ok_or (invalid_format ''missing format version'') (o_format_version f)) (\<lambda>fv.
     and_then (ok_or (invalid_format ''missing object ID'') (o_object_id f)) (\<lambda>oi.
     and_then (ok_or (invalid_format ''missing version ID'') (o_version_id f)) (\<lambda>vi.
     and_then (ok_or (invalid_format ''missing plaintext length'') (o_plaintext_len f)) (\<lambda>pl.
     and_then (ok_or (invalid_format ''missing chunk size'') (o_chunk_size f)) (\<lambda>cs.
     and_then (ok_or (invalid_format ''missing chunk count'') (o_chunk_count f)) (\<lambda>cc.
     and_then (ok_or (invalid_format ''missing chunk digest'') (o_chunk_digest f)) (\<lambda>cd.
     Inr \<lparr>mf_format_version = fv, mf_object_id = oi, mf_version_id = vi, mf_plaintext_len = pl,
          mf_chunk_size = cs, mf_chunk_count = cc, mf_chunk_digest = cd\<rparr>)))))))))"

subsection \<open>The cursor as a relation on the bytes it consumes\<close>

section \<open>What the reading operations accept\<close>

definition wf_decoder :: "decoder \<Rightarrow> bool" where
  "wf_decoder d \<longleftrightarrow> offset d \<le> length (input d) \<and> length (input d) < 2 ^ 64"

definition remaining :: "decoder \<Rightarrow> bytes" where
  "remaining d = drop (offset d) (input d)"

text \<open>\<open>reads d bs d'\<close>: the cursor moves from \<open>d\<close> to \<open>d'\<close> over exactly the bytes \<open>bs\<close>.\<close>

definition reads :: "decoder \<Rightarrow> bytes \<Rightarrow> decoder \<Rightarrow> bool" where
  "reads d bs d' \<longleftrightarrow> (\<exists>r. remaining d = bs @ r) \<and> d' = d\<lparr>offset := offset d + length bs\<rparr>"

lemma reads_remaining: "reads d bs d' \<Longrightarrow> remaining d = bs @ remaining d'"
  by (auto simp: reads_def remaining_def) (metis add.commute append_eq_conv_conj drop_drop)

lemma reads_Nil [simp]: "reads d [] d' \<longleftrightarrow> d' = d"
  by (auto simp: reads_def)

lemma reads_append: "reads d (as @ bs) d' \<longleftrightarrow> (\<exists>d1. reads d as d1 \<and> reads d1 bs d')"
proof
  assume r: "reads d (as @ bs) d'"
  then have "reads d as (d\<lparr>offset := offset d + length as\<rparr>)"
    by (auto simp: reads_def)
  moreover from this have "reads (d\<lparr>offset := offset d + length as\<rparr>) bs d'"
    using r reads_remaining [of d as] by (auto simp: reads_def)
  ultimately show "\<exists>d1. reads d as d1 \<and> reads d1 bs d'" by blast
next
  assume "\<exists>d1. reads d as d1 \<and> reads d1 bs d'"
  then obtain d1 where 1: "reads d as d1" and 2: "reads d1 bs d'" by blast
  from reads_remaining [OF 1] reads_remaining [OF 2] have "remaining d = (as @ bs) @ remaining d'"
    by simp
  with 1 2 show "reads d (as @ bs) d'"
    by (auto simp: reads_def)
qed

lemma reads_Cons: "reads d (b # bs) d' \<longleftrightarrow> (\<exists>d1. reads d [b] d1 \<and> reads d1 bs d')"
  using reads_append [of d "[b]" bs d'] by simp

lemma dec_take_iff: "dec_take d = Inr (b, d') \<longleftrightarrow> reads d [b] d'"
proof (cases "offset d < length (input d)")
  case True
  then have "remaining d = input d ! offset d # drop (Suc (offset d)) (input d)"
    by (simp add: remaining_def Cons_nth_drop_Suc)
  with True show ?thesis by (auto simp: dec_take_def reads_def)
qed (auto simp: dec_take_def reads_def remaining_def)

lemma ex_append_iff: "(\<exists>r. ys = xs @ r) \<longleftrightarrow> take (length xs) ys = xs"
  by (metis append_eq_conv_conj append_take_drop_id)

lemma get_range_iff:
  "wf_decoder d \<Longrightarrow> get_range (input d) (offset d) (offset d + n) = Some bs \<longleftrightarrow>
    length bs = n \<and> (\<exists>r. remaining d = bs @ r)"
  by (auto simp: get_range_def remaining_def ex_append_iff wf_decoder_def)

lemma reads_length: "wf_decoder d \<Longrightarrow> remaining d = bs @ r \<Longrightarrow> offset d + length bs \<le> length (input d)"
proof -
  assume wf: "wf_decoder d" and "remaining d = bs @ r"
  then have "length (input d) - offset d = length bs + length r"
    by (metis length_append length_drop remaining_def)
  moreover from wf have "offset d \<le> length (input d)" by (simp add: wf_decoder_def)
  ultimately show ?thesis by linarith
qed

lemma reads_wf: "reads d bs d' \<Longrightarrow> wf_decoder d \<Longrightarrow> wf_decoder d'"
  using reads_length by (auto simp: reads_def wf_decoder_def)

lemma checked_offset:
  "wf_decoder d \<Longrightarrow> remaining d = bs @ r \<Longrightarrow>
    checked_add_usize (offset d) (length bs) = Some (offset d + length bs)"
  using reads_length [of d bs r] by (simp add: checked_add_usize_def wf_decoder_def)

lemma read_fixed_iff:
  assumes "wf_decoder d"
  shows "read_fixed n d = Inr (bs, d') \<longleftrightarrow> length bs = n \<and> reads d bs d'"
proof
  assume "read_fixed n d = Inr (bs, d')"
  then show "length bs = n \<and> reads d bs d'"
    using get_range_iff [OF assms, of n bs]
    by (auto simp: read_fixed_def result_simps checked_add_usize_def reads_def split: if_splits)
next
  assume r: "length bs = n \<and> reads d bs d'"
  then show "read_fixed n d = Inr (bs, d')"
    using get_range_iff [OF assms, of n bs] checked_offset [OF assms]
    by (auto simp: read_fixed_def reads_def)
qed

lemma dec_take_wf: "wf_decoder d \<Longrightarrow> dec_take d = Inr (b, d') \<Longrightarrow> wf_decoder d'"
  by (auto simp: dec_take_iff intro: reads_wf)

section \<open>Unsigned integers\<close>

definition additional_bytes :: "u64 \<Rightarrow> bytes" where
  "additional_bytes v =
     (if v \<le> 0x17 then [] else if v \<le> 0xff then [ucast v]
      else if v \<le> 0xffff then be_bytes 2 (unat v)
      else if v \<le> 0xffffffff then be_bytes 4 (unat v) else be_bytes 8 (unat v))"

lemma drop_be_bytes: "drop n (be_bytes (n + k) x) = be_bytes k x"
  by (induction k arbitrary: x) auto

lemma drop_u64_be_bytes:
  "drop 6 (u64_to_be_bytes v) = be_bytes 2 (unat v)"
  "drop 4 (u64_to_be_bytes v) = be_bytes 4 (unat v)"
  using drop_be_bytes [of 6 2] drop_be_bytes [of 4 4] by (simp_all add: u64_to_be_bytes_def)

lemma u64_to_be_bytes_low [simp]: "u64_to_be_bytes v ! 7 = ucast v"
proof -
  have "u64_to_be_bytes v = be_bytes (Suc 7) (unat v)"
    by (simp only: u64_to_be_bytes_def Suc_numeral) simp
  then have "u64_to_be_bytes v = be_bytes 7 (unat v div 256) @ [word_of_nat (unat v)]"
    by (simp only: be_bytes.simps)
  then show ?thesis by (simp add: nth_append)
qed

lemma put_major_uint_eq:
  "put_major_uint m v = (push_bit 5 m OR canonical_additional v) # additional_bytes v"
  by (simp add: put_major_uint_def canonical_additional_def additional_bytes_def Let_def
      drop_u64_be_bytes) (simp add: u64_to_be_bytes_def)

lemma low_mask: "(0x1f :: u8) = mask 5"
  by (simp add: mask_eq_exp_minus_1)

lemma initial_byte_split: "push_bit 5 (drop_bit 5 w) OR (w AND 0x1f) = (w :: u8)"
  unfolding low_mask by (rule bit_word_eqI) (auto simp: bit_simps)

lemma initial_byte_join:
  assumes "m < 8" "a \<le> 0x1f"
  shows "drop_bit 5 (push_bit 5 m OR a) = m" "(push_bit 5 m OR a) AND 0x1f = (a :: u8)"
proof -
  have a: "take_bit 5 a = a"
    using assms(2) by (simp add: word_unat_eq_iff unsigned_take_bit_eq take_bit_nat_eq_self word_le_nat_alt)
  have m: "take_bit 3 m = m"
    using assms(1) by (simp add: word_unat_eq_iff unsigned_take_bit_eq take_bit_nat_eq_self word_less_nat_alt)
  have "drop_bit 5 (push_bit 5 (take_bit 3 m) OR take_bit 5 a) = take_bit 3 m"
    by (rule bit_word_eqI) (auto simp: bit_simps)
  then show "drop_bit 5 (push_bit 5 m OR a) = m" by (simp add: a m)
  have "(push_bit 5 m OR take_bit 5 a) AND mask 5 = take_bit 5 a"
    by (rule bit_word_eqI) (auto simp: bit_simps)
  then show "(push_bit 5 m OR a) AND 0x1f = a" by (simp only: a low_mask)
qed


lemma unat_be_value:
  "length bs = 2 \<Longrightarrow> unat (ucast (from_be_bytes bs :: u16) :: u64) = be_nat bs"
  "length bs = 4 \<Longrightarrow> unat (ucast (from_be_bytes bs :: u32) :: u64) = be_nat bs"
  "length bs = 4 \<Longrightarrow> unat (from_be_bytes bs :: u32) = be_nat bs"
  "length bs = 8 \<Longrightarrow> unat (from_be_bytes bs :: u64) = be_nat bs"
  using be_nat_less [of bs]
  by (auto simp: from_be_bytes_def unsigned_ucast_eq unat_of_nat take_bit_nat_eq_self)

lemma unat_ucast_u8 [simp]: "unat (ucast (b :: u8) :: u64) = unat b"
proof -
  have "unat b < 2 ^ 8" using unsigned_less [of b, where 'a = nat] by simp
  then show ?thesis by (simp add: unsigned_ucast_eq take_bit_nat_eq_self)
qed

lemma ucast_u8_u64_u8 [simp]: "(ucast (ucast (b :: u8) :: u64) :: u8) = b"
  by (rule bit_word_eqI) (simp add: bit_simps)

lemma ucast_u64_u8_u64: "v \<le> 0xff \<Longrightarrow> ucast (ucast (v :: u64) :: u8) = v"
  by (simp add: word_unat_eq_iff word_le_nat_alt)
    (simp add: unsigned_ucast_eq take_bit_nat_eq_self)

lemma ucast_u64_u8_le: "v \<le> 0x17 \<Longrightarrow> (ucast (v :: u64) :: u8) \<le> 23"
  by (simp add: word_le_nat_alt unsigned_ucast_eq take_bit_nat_eq_self)

lemma ucast_u8_u64_le: "(a :: u8) \<le> 23 \<Longrightarrow> (ucast a :: u64) \<le> 0x17"
  by (simp add: word_le_nat_alt)

lemma ucast_u8_u64_le_ff: "(ucast (a :: u8) :: u64) \<le> 0xff"
  using unsigned_less [of a, where 'a = nat] by (simp add: word_le_nat_alt)

lemma canonical_additional_le: "canonical_additional v \<le> 0x1f"
  using ucast_u64_u8_le [of v] by (auto simp: canonical_additional_def intro: order_trans)

lemma canonical_additional_cases:
  "canonical_additional v \<le> 23 \<longleftrightarrow> v \<le> 0x17"
  "canonical_additional v = 24 \<longleftrightarrow> \<not> v \<le> 0x17 \<and> v \<le> 0xff"
  "canonical_additional v = 25 \<longleftrightarrow> \<not> v \<le> 0xff \<and> v \<le> 0xffff"
  "canonical_additional v = 26 \<longleftrightarrow> \<not> v \<le> 0xffff \<and> v \<le> 0xffffffff"
  "canonical_additional v = 27 \<longleftrightarrow> \<not> v \<le> 0xffffffff"
proof -
  have small: "v \<le> 0x17 \<Longrightarrow> (ucast v :: u8) \<noteq> 24 \<and> (ucast v :: u8) \<noteq> 25 \<and> (ucast v :: u8) \<noteq> 26 \<and> (ucast v :: u8) \<noteq> 27"
    using ucast_u64_u8_le [of v] by auto
  show "canonical_additional v \<le> 23 \<longleftrightarrow> v \<le> 0x17"
    using ucast_u64_u8_le [of v] by (auto simp: canonical_additional_def)
  show "canonical_additional v = 24 \<longleftrightarrow> \<not> v \<le> 0x17 \<and> v \<le> 0xff"
    using small by (auto simp: canonical_additional_def)
  show "canonical_additional v = 25 \<longleftrightarrow> \<not> v \<le> 0xff \<and> v \<le> 0xffff"
    using small by (auto simp: canonical_additional_def intro: order_trans)
  show "canonical_additional v = 26 \<longleftrightarrow> \<not> v \<le> 0xffff \<and> v \<le> 0xffffffff"
    using small by (auto simp: canonical_additional_def intro: order_trans)
  show "canonical_additional v = 27 \<longleftrightarrow> \<not> v \<le> 0xffffffff"
    using small by (auto simp: canonical_additional_def intro: order_trans)
qed

lemma be_bytes_be_nat_length: "length bs = n \<Longrightarrow> be_bytes n (be_nat bs) = bs"
  using be_bytes_be_nat [of bs] by simp

lemma be_nat_be_bytes_u64:
  "v \<le> 0xffff \<Longrightarrow> be_nat (be_bytes 2 (unat v)) = unat (v :: u64)"
  "v \<le> 0xffffffff \<Longrightarrow> be_nat (be_bytes 4 (unat v)) = unat v"
  "be_nat (be_bytes 8 (unat v)) = unat v"
  using unsigned_less [of v, where 'a = nat] by (simp_all add: be_nat_be_bytes word_le_nat_alt)

lemma read_additional_iff:
  assumes wf: "wf_decoder d"
  shows "read_additional (canonical_additional v) d = Inr (v, d') \<longleftrightarrow> reads d (additional_bytes v) d'"
proof
  note simps = read_additional_def additional_bytes_def result_simps dec_take_iff
    canonical_additional_cases read_fixed_iff [OF wf] unat_be_value be_bytes_be_nat_length
  assume "read_additional (canonical_additional v) d = Inr (v, d')"
  then show "reads d (additional_bytes v) d'"
    by (auto simp: simps split: if_splits)
next
  note simps = read_additional_def additional_bytes_def result_simps dec_take_iff
    canonical_additional_cases read_fixed_iff [OF wf]
  assume r: "reads d (additional_bytes v) d'"
  consider "v \<le> 0x17" | "\<not> v \<le> 0x17" "v \<le> 0xff" | "\<not> v \<le> 0xff" "v \<le> 0xffff"
    | "\<not> v \<le> 0xffff" "v \<le> 0xffffffff" | "\<not> v \<le> 0xffffffff"
    by blast
  then show "read_additional (canonical_additional v) d = Inr (v, d')"
  proof cases
    case 1
    moreover from this have "v \<le> 0xff" by (auto intro: order_trans)
    moreover have "canonical_additional v = ucast v" using 1 by (simp add: canonical_additional_def)
    ultimately show ?thesis
      using r ucast_u64_u8_le [of v] ucast_u64_u8_u64 [of v]
      by (simp add: read_additional_def additional_bytes_def)
  next
    case 2
    with r show ?thesis by (auto simp: simps ucast_u64_u8_u64)
  next
    case 3
    then have "\<not> v \<le> 0x17" by (auto intro: order_trans)
    moreover have "v = ucast (from_be_bytes (be_bytes 2 (unat v)) :: u16)"
      using 3 by (simp add: word_unat_eq_iff unat_be_value be_nat_be_bytes_u64)
    ultimately show ?thesis
      using 3 r by (auto simp: simps intro!: exI [of _ "be_bytes 2 (unat v)"])
  next
    case 4
    then have "\<not> v \<le> 0x17" "\<not> v \<le> 0xff" by (auto intro: order_trans)
    moreover have "v = ucast (from_be_bytes (be_bytes 4 (unat v)) :: u32)"
      using 4 by (simp add: word_unat_eq_iff unat_be_value be_nat_be_bytes_u64)
    ultimately show ?thesis
      using 4 r by (auto simp: simps intro!: exI [of _ "be_bytes 4 (unat v)"])
  next
    case 5
    then have "\<not> v \<le> 0x17" "\<not> v \<le> 0xff" "\<not> v \<le> 0xffff" by (auto intro: order_trans)
    moreover have "v = from_be_bytes (be_bytes 8 (unat v))"
      by (simp add: word_unat_eq_iff unat_be_value be_nat_be_bytes_u64)
    ultimately show ?thesis
      using 5 r by (auto simp: simps intro!: exI [of _ "be_bytes 8 (unat v)"])
  qed
qed

lemma read_major_uint_iff:
  assumes wf: "wf_decoder d" and m: "m < 8"
  shows "read_major_uint m d = Inr (v, d') \<longleftrightarrow> reads d (put_major_uint m v) d'"
proof
  assume "read_major_uint m d = Inr (v, d')"
  then obtain initial d1 where t: "reads d [initial] d1" and i: "drop_bit 5 initial = m"
    and v: "read_additional (initial AND 0x1f) d1 = Inr (v, d')"
      "canonical_additional v = initial AND 0x1f"
    by (auto simp: read_major_uint_def Let_def result_simps dec_take_iff split: if_splits)
  have "reads d1 (additional_bytes v) d'"
    using read_additional_iff [OF reads_wf [OF t wf], of v d'] v by simp
  moreover have "initial = push_bit 5 m OR canonical_additional v"
    using initial_byte_split [of initial] i v(2) by simp
  ultimately show "reads d (put_major_uint m v) d'"
    using t by (auto simp: put_major_uint_eq reads_Cons [of d _ "additional_bytes v"])
next
  let ?i = "push_bit 5 m OR canonical_additional v"
  assume "reads d (put_major_uint m v) d'"
  then obtain d1 where t: "reads d [?i] d1" and r: "reads d1 (additional_bytes v) d'"
    by (auto simp: put_major_uint_eq reads_Cons [of d _ "additional_bytes v"])
  note join = initial_byte_join [OF m canonical_additional_le [of v]]
  have "read_additional (canonical_additional v) d1 = Inr (v, d')"
    using r read_additional_iff [OF reads_wf [OF t wf], of v d'] by simp
  with t show "read_major_uint m d = Inr (v, d')"
    by (simp add: read_major_uint_def Let_def dec_take_iff [symmetric] join del: drop_bit_or)
qed


section \<open>The contract of a reading operation\<close>

text \<open>
  A reader accepts exactly the encodings of the well-formed values and stops right behind them.
  Everything the manifest decoder needs of its parts follows from that: what was encoded is read
  back, what was read was encoded, and no encoding is a prefix of another one.
\<close>

locale reader =
  fixes enc :: "'a \<Rightarrow> bytes"
    and ok :: "'a \<Rightarrow> bool"
    and rd :: "decoder \<Rightarrow> ('a \<times> decoder) result"
  assumes rd_iff: "wf_decoder d \<Longrightarrow> rd d = Inr (v, d') \<longleftrightarrow> ok v \<and> reads d (enc v) d'"
begin

lemma rd_enc: "length (enc v @ rest) < 2 ^ 64 \<Longrightarrow> ok v \<Longrightarrow>
    rd (decoder_new (enc v @ rest)) = Inr (v, \<lparr>input = enc v @ rest, offset = length (enc v)\<rparr>)"
  by (subst rd_iff) (auto simp: wf_decoder_def decoder_new_def reads_def remaining_def)

lemma enc_prefix_free:
  assumes "ok v" "ok w" "enc v @ r = enc w @ q" "length (enc v @ r) < 2 ^ 64"
  shows "v = w \<and> r = q"
proof -
  have "Inr (v, \<lparr>input = enc v @ r, offset = length (enc v)\<rparr>) =
      (Inr (w, \<lparr>input = enc w @ q, offset = length (enc w)\<rparr>) :: ('a \<times> decoder) result)"
    using rd_enc [of v r] rd_enc [of w q] assms by simp
  then have "v = w" by simp
  with assms(3) show ?thesis by simp
qed

lemma rd_wf: "wf_decoder d \<Longrightarrow> rd d = Inr (v, d') \<Longrightarrow> wf_decoder d'"
  by (auto simp: rd_iff intro: reads_wf)

end

interpretation uint: reader "put_major_uint 0" "\<lambda>_. True" read_uint
  by unfold_locales (simp add: read_uint_def read_major_uint_iff)

definition put_byte_string :: "bytes \<Rightarrow> bytes" where
  "put_byte_string bs = put_major_uint 2 (word_of_nat (length bs)) @ bs"

lemma read_bytes_exact_iff:
  assumes wf: "wf_decoder d" and n: "n < 2 ^ 64"
  shows "read_bytes_exact n d = Inr (bs, d') \<longleftrightarrow> length bs = n \<and> reads d (put_byte_string bs) d'"
proof
  assume "read_bytes_exact n d = Inr (bs, d')"
  then obtain len d1 e where l: "read_major_uint 2 d = Inr (len, d1)" and n': "unat len = n"
    and e: "checked_add_usize (offset d1) n = Some e" "get_range (input d1) (offset d1) e = Some bs"
    and d': "d' = d1\<lparr>offset := e\<rparr>"
    by (auto simp: read_bytes_exact_def result_simps split: if_splits)
  from l have r: "reads d (put_major_uint 2 len) d1" by (simp add: read_major_uint_iff [OF wf])
  from e(1) have "e = offset d1 + n" by (auto simp: checked_add_usize_def split: if_splits)
  with e(2) d' have "length bs = n \<and> reads d1 bs d'"
    using get_range_iff [OF reads_wf [OF r wf], of n bs] by (auto simp: reads_def)
  moreover from n' have "len = word_of_nat n" by auto
  ultimately show "length bs = n \<and> reads d (put_byte_string bs) d'"
    using r by (auto simp: put_byte_string_def reads_append)
next
  assume a: "length bs = n \<and> reads d (put_byte_string bs) d'"
  then obtain d1 where r: "reads d (put_major_uint 2 (word_of_nat n)) d1" "reads d1 bs d'"
    by (auto simp: put_byte_string_def reads_append)
  from r(1) have "read_major_uint 2 d = Inr (word_of_nat n, d1)" by (simp add: read_major_uint_iff [OF wf])
  moreover have "unat (word_of_nat n :: u64) = n" using n by (simp add: unat_of_nat)
  ultimately show "read_bytes_exact n d = Inr (bs, d')"
    using a r(2) get_range_iff [OF reads_wf [OF r(1) wf], of n bs] checked_offset [OF reads_wf [OF r(1) wf]]
    by (auto simp: read_bytes_exact_def reads_def)
qed

interpretation id_string: reader put_byte_string "\<lambda>bs. length bs = 16" "read_bytes_exact 16"
  by unfold_locales (simp add: read_bytes_exact_iff)

interpretation digest_string: reader put_byte_string "\<lambda>bs. length bs = 32" "read_bytes_exact 32"
  by unfold_locales (simp add: read_bytes_exact_iff)

section \<open>Manifests\<close>

text \<open>What one iteration and the whole loop accept, without the cursor.\<close>

definition field_value :: "u64 \<Rightarrow> manifest_fields \<Rightarrow> bytes \<Rightarrow> manifest_fields \<Rightarrow> bool" where
  "field_value k f bs f' \<longleftrightarrow>
     k = 1 \<and> (\<exists>v. bs = put_major_uint 0 (ucast v) \<and> f' = f\<lparr>o_format_version := Some v\<rparr>)
   \<or> k = 2 \<and> (\<exists>i. id_ok i \<and> bs = put_byte_string i \<and> f' = f\<lparr>o_object_id := Some i\<rparr>)
   \<or> k = 3 \<and> (\<exists>i. id_ok i \<and> bs = put_byte_string i \<and> f' = f\<lparr>o_version_id := Some i\<rparr>)
   \<or> k = 4 \<and> (\<exists>v. bs = put_major_uint 0 v \<and> f' = f\<lparr>o_plaintext_len := Some v\<rparr>)
   \<or> k = 5 \<and> (\<exists>v. bs = put_major_uint 0 (ucast v) \<and> f' = f\<lparr>o_chunk_size := Some v\<rparr>)
   \<or> k = 6 \<and> (\<exists>v. bs = put_major_uint 0 (ucast v) \<and> f' = f\<lparr>o_chunk_count := Some v\<rparr>)
   \<or> k = 7 \<and> (\<exists>i. length i = 32 \<and> bs = put_byte_string i \<and> f' = f\<lparr>o_chunk_digest := Some i\<rparr>)
   \<or> k = 8 \<and> bs = put_major_uint 0 1 \<and> f' = f"

fun fields_value :: "u64 list \<Rightarrow> manifest_fields \<Rightarrow> bytes \<Rightarrow> manifest_fields \<Rightarrow> bool" where
  "fields_value [] f bs f' \<longleftrightarrow> bs = [] \<and> f' = f"
| "fields_value (k # ks) f bs f' \<longleftrightarrow>
     (\<exists>b1 f1 b2. field_value k f b1 f1 \<and> fields_value ks f1 b2 f' \<and> bs = put_major_uint 0 k @ b1 @ b2)"

lemma decode_value_iff:
  assumes "wf_decoder d"
  shows "decode_value k f d = Inr (f', d') \<longleftrightarrow> (\<exists>bs. field_value k f bs f' \<and> reads d bs d')"
  using assms
  by (auto simp: decode_value_def field_value_def result_simps uint.rd_iff id_string.rd_iff
      digest_string.rd_iff id_ok_def split: if_splits)

lemma decode_fields_iff:
  "wf_decoder d \<Longrightarrow>
     decode_fields ks f d = Inr (f', d') \<longleftrightarrow> (\<exists>bs. fields_value ks f bs f' \<and> reads d bs d')"
proof (induction ks arbitrary: f d)
  case (Cons k ks)
  have step: "decode_fields (k # ks) f d = Inr (f', d') \<longleftrightarrow>
      (\<exists>d1. reads d (put_major_uint 0 k) d1 \<and>
        (\<exists>f1 d2. decode_value k f d1 = Inr (f1, d2) \<and> decode_fields ks f1 d2 = Inr (f', d')))"
    using Cons.prems by (auto simp: result_simps uint.rd_iff split: if_splits)
  have rest: "(\<exists>f1 d2. decode_value k f d1 = Inr (f1, d2) \<and> decode_fields ks f1 d2 = Inr (f', d')) \<longleftrightarrow>
      (\<exists>f1 b1 b2. field_value k f b1 f1 \<and> fields_value ks f1 b2 f' \<and> reads d1 (b1 @ b2) d')"
    if "reads d (put_major_uint 0 k) d1" for d1
  proof -
    have wf: "wf_decoder d1" using that Cons.prems by (rule reads_wf)
    have "decode_fields ks f1 d2 = Inr (f', d') \<longleftrightarrow> (\<exists>b2. fields_value ks f1 b2 f' \<and> reads d2 b2 d')"
      if "reads d1 b1 d2" for f1 b1 d2
      using Cons.IH reads_wf [OF that wf] by blast
    then show ?thesis
      unfolding decode_value_iff [OF wf] reads_append by blast
  qed
  have split: "(\<exists>bs. fields_value (k # ks) f bs f' \<and> reads d bs d') \<longleftrightarrow>
      (\<exists>d1. reads d (put_major_uint 0 k) d1 \<and>
        (\<exists>f1 b1 b2. field_value k f b1 f1 \<and> fields_value ks f1 b2 f' \<and> reads d1 (b1 @ b2) d'))"
    unfolding fields_value.simps reads_append [of d "put_major_uint 0 k", symmetric]
    using reads_append [of d "put_major_uint 0 k"] by blast
  show ?case
    unfolding step split by (simp only: rest cong: conj_cong)
qed auto

definition manifest_body :: "manifest \<Rightarrow> bytes" where
  "manifest_body m =
     put_major_uint 0 1 @ put_major_uint 0 (ucast (mf_format_version m))
     @ put_major_uint 0 2 @ put_byte_string (mf_object_id m)
     @ put_major_uint 0 3 @ put_byte_string (mf_version_id m)
     @ put_major_uint 0 4 @ put_major_uint 0 (mf_plaintext_len m)
     @ put_major_uint 0 5 @ put_major_uint 0 (ucast (mf_chunk_size m))
     @ put_major_uint 0 6 @ put_major_uint 0 (ucast (mf_chunk_count m))
     @ put_major_uint 0 7 @ put_byte_string (mf_chunk_digest m)
     @ put_major_uint 0 8 @ put_major_uint 0 1"

definition all_fields :: "manifest \<Rightarrow> manifest_fields" where
  "all_fields m = \<lparr>o_format_version = Some (mf_format_version m), o_object_id = Some (mf_object_id m),
     o_version_id = Some (mf_version_id m), o_plaintext_len = Some (mf_plaintext_len m),
     o_chunk_size = Some (mf_chunk_size m), o_chunk_count = Some (mf_chunk_count m),
     o_chunk_digest = Some (mf_chunk_digest m)\<rparr>"

lemma encode_manifest_body: "encode_manifest m = (0xa0 OR MAP_FIELDS) # manifest_body m"
proof -
  have small: "put_major_uint 0 k = [ucast k]" if "k \<le> 0x17" for k
    using that by (simp add: put_major_uint_eq canonical_additional_def additional_bytes_def)
  show ?thesis
    by (simp add: encode_manifest_def manifest_body_def put_uint_def put_bytes_def
        put_byte_string_def small)
qed

lemma field_valueI:
  "field_value 1 f (put_major_uint 0 (ucast v)) (f\<lparr>o_format_version := Some v\<rparr>)"
  "id_ok i \<Longrightarrow> field_value 2 f (put_byte_string i) (f\<lparr>o_object_id := Some i\<rparr>)"
  "id_ok i \<Longrightarrow> field_value 3 f (put_byte_string i) (f\<lparr>o_version_id := Some i\<rparr>)"
  "field_value 4 f (put_major_uint 0 n) (f\<lparr>o_plaintext_len := Some n\<rparr>)"
  "field_value 5 f (put_major_uint 0 (ucast v)) (f\<lparr>o_chunk_size := Some v\<rparr>)"
  "field_value 6 f (put_major_uint 0 (ucast v)) (f\<lparr>o_chunk_count := Some v\<rparr>)"
  "length i = 32 \<Longrightarrow> field_value 7 f (put_byte_string i) (f\<lparr>o_chunk_digest := Some i\<rparr>)"
  "field_value 8 f (put_major_uint 0 1) f"
  unfolding field_value_def by simp_all blast+

lemma fields_valueI:
  "field_value k f b f' \<Longrightarrow> fields_value [k] f (put_major_uint 0 k @ b) f'"
  "field_value k f b1 f1 \<Longrightarrow> fields_value ks f1 b2 f' \<Longrightarrow>
     fields_value (k # ks) f (put_major_uint 0 k @ b1 @ b2) f'"
  by auto

lemma fields_value_all:
  "fields_value [1, 2, 3, 4, 5, 6, 7, 8] no_fields bs f \<longleftrightarrow>
     (\<exists>m. manifest_ok m \<and> bs = manifest_body m \<and> f = all_fields m)"
proof
  assume "fields_value [1, 2, 3, 4, 5, 6, 7, 8] no_fields bs f"
  then obtain fv oi vi pl cs cc cd where
    "id_ok oi" "id_ok vi" "length cd = 32"
    "f = all_fields \<lparr>mf_format_version = fv, mf_object_id = oi, mf_version_id = vi,
       mf_plaintext_len = pl, mf_chunk_size = cs, mf_chunk_count = cc, mf_chunk_digest = cd\<rparr>"
    "bs = manifest_body \<lparr>mf_format_version = fv, mf_object_id = oi, mf_version_id = vi,
       mf_plaintext_len = pl, mf_chunk_size = cs, mf_chunk_count = cc, mf_chunk_digest = cd\<rparr>"
    by (auto simp: field_value_def no_fields_def all_fields_def manifest_body_def)
  then show "\<exists>m. manifest_ok m \<and> bs = manifest_body m \<and> f = all_fields m"
    by (intro exI [of _ "\<lparr>mf_format_version = fv, mf_object_id = oi, mf_version_id = vi,
       mf_plaintext_len = pl, mf_chunk_size = cs, mf_chunk_count = cc, mf_chunk_digest = cd\<rparr>"])
      (simp add: manifest_ok_def)
next
  have "fields_value [1, 2, 3, 4, 5, 6, 7, 8] no_fields (manifest_body m) (all_fields m)"
    if "manifest_ok m" for m
  proof -
    from that have "id_ok (mf_object_id m)" "id_ok (mf_version_id m)" "length (mf_chunk_digest m) = 32"
      by (simp_all add: manifest_ok_def)
    note fields_valueI(2) [OF field_valueI(1) fields_valueI(2) [OF field_valueI(2) [OF this(1)]
      fields_valueI(2) [OF field_valueI(3) [OF this(2)] fields_valueI(2) [OF field_valueI(4)
      fields_valueI(2) [OF field_valueI(5) fields_valueI(2) [OF field_valueI(6)
      fields_valueI(2) [OF field_valueI(7) [OF this(3)] fields_valueI(1) [OF field_valueI(8)]]]]]]]]
    from this [of no_fields "mf_format_version m" "mf_plaintext_len m" "mf_chunk_size m" "mf_chunk_count m"]
    show ?thesis
      by (simp add: manifest_body_def all_fields_def no_fields_def)
  qed
  moreover assume "\<exists>m. manifest_ok m \<and> bs = manifest_body m \<and> f = all_fields m"
  ultimately show "fields_value [1, 2, 3, 4, 5, 6, 7, 8] no_fields bs f"
    by blast
qed

lemma all_fields_inject: "all_fields m = all_fields m' \<longleftrightarrow> m = m'"
  by (auto simp: all_fields_def)

lemma reads_to_end:
  assumes "length bs < 2 ^ 64"
  shows "(\<exists>d. reads (decoder_new bs) b d \<and> finished d) \<longleftrightarrow> bs = b"
proof -
  have wf: "wf_decoder (decoder_new bs)"
    using assms by (simp add: wf_decoder_def decoder_new_def)
  have "finished d \<longleftrightarrow> remaining d = []" if "reads (decoder_new bs) b d" for d
    using reads_wf [OF that wf] by (auto simp: finished_def remaining_def wf_decoder_def)
  moreover have "remaining (decoder_new bs) = bs"
    by (simp add: remaining_def decoder_new_def)
  ultimately show ?thesis
    using reads_remaining [of "decoder_new bs" b] by (auto simp: reads_def)
qed

lemma decode_manifest_step:
  "decode_manifest bs = Inr m \<longleftrightarrow>
     (\<exists>d d'. reads (decoder_new bs) [0xa0 OR MAP_FIELDS] d \<and>
       decode_fields [1, 2, 3, 4, 5, 6, 7, 8] no_fields d = Inr (all_fields m, d') \<and> finished d')"
proof -
  have eq: "f = all_fields m \<longleftrightarrow> o_format_version f = Some (mf_format_version m)
      \<and> o_object_id f = Some (mf_object_id m) \<and> o_version_id f = Some (mf_version_id m)
      \<and> o_plaintext_len f = Some (mf_plaintext_len m) \<and> o_chunk_size f = Some (mf_chunk_size m)
      \<and> o_chunk_count f = Some (mf_chunk_count m) \<and> o_chunk_digest f = Some (mf_chunk_digest m)" for f
    by (cases f) (auto simp: all_fields_def)
  have "decode_manifest bs = Inr m"
    if "reads (decoder_new bs) [0xa0 OR MAP_FIELDS] d" "finished d'"
      "decode_fields [1, 2, 3, 4, 5, 6, 7, 8] no_fields d = Inr (all_fields m, d')" for d d'
    using that [folded dec_take_iff]
    by (simp add: decode_manifest_def all_fields_def result_simps del: decode_fields.simps)
  moreover have "\<exists>d f d'. reads (decoder_new bs) [0xa0 OR MAP_FIELDS] d \<and>
      decode_fields [1, 2, 3, 4, 5, 6, 7, 8] no_fields d = Inr (f, d') \<and> finished d' \<and> f = all_fields m"
    if "decode_manifest bs = Inr m"
    using that unfolding decode_manifest_def eq
    by (auto simp: result_simps dec_take_iff split: if_splits simp del: decode_fields.simps)
  ultimately show ?thesis by blast
qed

lemma decode_manifest_iff:
  assumes len: "length bs < 2 ^ 64"
  shows "decode_manifest bs = Inr m \<longleftrightarrow> manifest_ok m \<and> bs = encode_manifest m"
proof -
  have wf: "wf_decoder (decoder_new bs)"
    using len by (simp add: wf_decoder_def decoder_new_def)
  have fields: "decode_fields [1, 2, 3, 4, 5, 6, 7, 8] no_fields d = Inr (all_fields m, d') \<longleftrightarrow>
      manifest_ok m \<and> reads d (manifest_body m) d'"
    if "reads (decoder_new bs) b d" for b d d'
    unfolding decode_fields_iff [OF reads_wf [OF that wf]] fields_value_all all_fields_inject by auto
  have "decode_manifest bs = Inr m \<longleftrightarrow> manifest_ok m \<and>
      (\<exists>d'. reads (decoder_new bs) ([0xa0 OR MAP_FIELDS] @ manifest_body m) d' \<and> finished d')"
    unfolding decode_manifest_step reads_append using fields by meson
  then show ?thesis
    unfolding reads_to_end [OF len] by (simp add: encode_manifest_body)
qed

subsection \<open>Round trip, canonicity, errors\<close>

lemma length_put_major_uint: "length (put_major_uint j v) \<le> 9"
  by (simp add: put_major_uint_eq additional_bytes_def)

lemma length_encode_manifest:
  assumes "manifest_ok m"
  shows "length (encode_manifest m) \<le> 209"
proof -
  note b = length_put_major_uint [of 0 "ucast (mf_format_version m)"] length_put_major_uint [of 0 1]
    length_put_major_uint [of 0 2] length_put_major_uint [of 0 3] length_put_major_uint [of 0 4]
    length_put_major_uint [of 0 5] length_put_major_uint [of 0 6] length_put_major_uint [of 0 7]
    length_put_major_uint [of 0 8] length_put_major_uint [of 0 "mf_plaintext_len m"]
    length_put_major_uint [of 0 "ucast (mf_chunk_size m)"]
    length_put_major_uint [of 0 "ucast (mf_chunk_count m)"]
    length_put_major_uint [of 2 "of_nat (length (mf_object_id m))"]
    length_put_major_uint [of 2 "of_nat (length (mf_version_id m))"]
    length_put_major_uint [of 2 "of_nat (length (mf_chunk_digest m))"]
  show ?thesis
    using assms b
    by (simp add: encode_manifest_body manifest_body_def put_byte_string_def manifest_ok_def id_ok_def)
qed

text \<open>Every error of a decoding step is an \<open>InvalidFormat\<close>.\<close>

definition format_errors :: "'a result \<Rightarrow> bool" where
  "format_errors r \<longleftrightarrow> (\<forall>e. r = Inl e \<longrightarrow> (\<exists>msg. e = InvalidFormat msg))"


lemma format_errors_simps [simp]:
  "format_errors (Inr x)" "format_errors (Inl (InvalidFormat s))"
  "format_errors (ok_or (InvalidFormat s) opt)"
  by (simp_all add: format_errors_def ok_or_def split: option.splits)

lemma format_errors_and_then [intro!]:
  "format_errors r \<Longrightarrow> (\<And>x. format_errors (k x)) \<Longrightarrow> format_errors (and_then r k)"
  by (cases r) (auto simp: format_errors_def and_then_def)

lemma format_errors_take [intro]: "format_errors (dec_take d)"
  by (simp add: dec_take_def)

lemma format_errors_fixed [intro]: "format_errors (read_fixed n d)"
  unfolding read_fixed_def by (intro format_errors_and_then) simp_all

lemma format_errors_additional [intro]: "format_errors (read_additional a d)"
  unfolding read_additional_def by (auto split: prod.splits)

lemma format_errors_major_uint [intro]: "format_errors (read_major_uint j d)"
  unfolding read_major_uint_def Let_def by (auto split: prod.splits)

lemma format_errors_uint [intro]: "format_errors (read_uint d)"
  by (auto simp: read_uint_def)

lemma format_errors_bytes_exact [intro]: "format_errors (read_bytes_exact n d)"
  unfolding read_bytes_exact_def by (auto split: prod.splits)

lemma format_errors_value: "k \<in> {1, 2, 3, 4, 5, 6, 7, 8} \<Longrightarrow> format_errors (decode_value k f d)"
  unfolding decode_value_def by (auto simp: from_slice_def split: prod.splits)

lemma format_errors_fields:
  "set ks \<subseteq> {1, 2, 3, 4, 5, 6, 7, 8} \<Longrightarrow> format_errors (decode_fields ks f d)"
proof (induction ks arbitrary: f d)
  case (Cons k ks)
  then have "format_errors (decode_value k f d)" "format_errors (decode_fields ks f d)" for f d
    using format_errors_value by simp_all
  then show ?case
    by (auto split: prod.splits)
qed simp

text \<open>C28. Decoding what \<open>encode_manifest\<close> wrote gives the manifest back, for every manifest that
  has the widths the types of the source enforce.\<close>

theorem decode_encode_manifest:
  assumes "manifest_ok m"
  shows "decode_manifest (encode_manifest m) = Inr m"
  using assms length_encode_manifest [OF assms] by (subst decode_manifest_iff) simp_all

definition sample_manifest :: manifest where
  "sample_manifest = \<lparr>mf_format_version = 1, mf_object_id = replicate 16 1,
     mf_version_id = replicate 16 2, mf_plaintext_len = 0x12345, mf_chunk_size = 0x400000,
     mf_chunk_count = 1, mf_chunk_digest = replicate 32 0xab\<rparr>"

lemma sample_manifest_ok: "manifest_ok sample_manifest"
  by (simp add: manifest_ok_def id_ok_def sample_manifest_def)

theorem decode_encode_manifest_witness:
  "manifest_ok sample_manifest \<and>
     decode_manifest (encode_manifest sample_manifest) = Inr sample_manifest"
  using decode_encode_manifest [OF sample_manifest_ok] sample_manifest_ok by simp

text \<open>C29. The decoder is canonical: whatever byte string it accepts is exactly the encoding of the
  manifest it returns, so no manifest has two accepted encodings and nothing trails it.  The bound
  on the length is that of a slice in memory.\<close>

theorem decode_manifest_canonical:
  assumes "length bs < 2 ^ 64" and "decode_manifest bs = Inr m"
  shows "bs = encode_manifest m \<and> manifest_ok m"
  using assms decode_manifest_iff by blast

theorem decode_manifest_canonical_witness:
  "length (encode_manifest sample_manifest) < 2 ^ 64
   \<and> decode_manifest (encode_manifest sample_manifest) = Inr sample_manifest
   \<and> manifest_ok sample_manifest"
proof -
  have len: "length (encode_manifest sample_manifest) < 2 ^ 64"
    using length_encode_manifest [OF sample_manifest_ok] by simp
  then have dec: "decode_manifest (encode_manifest sample_manifest) = Inr sample_manifest"
    by (simp add: decode_manifest_iff sample_manifest_ok)
  show ?thesis
    using decode_manifest_canonical [OF len dec] len dec by simp
qed

text \<open>On every input the decoder either returns a well-formed manifest or fails with
  \<open>InvalidFormat\<close>; no other error leaves it.\<close>

theorem decode_manifest_errors:
  "(\<exists>msg. decode_manifest bs = Inl (InvalidFormat msg)) \<or> (\<exists>m. decode_manifest bs = Inr m)"
proof -
  have "format_errors (decode_manifest bs)"
    unfolding decode_manifest_def
    by (auto split: prod.splits intro!: format_errors_fields simp del: decode_fields.simps)
  then show ?thesis
    by (cases "decode_manifest bs") (auto simp: format_errors_def)
qed

end
