(* ===== verification/Vlt_Crypto.thy ===== *)
theory Vlt_Crypto
  imports Vlt_Format
begin

text \<open>
  Key hierarchy and authenticated encryption, \<open>crates/vlt1-core/src/crypto.rs\<close>. The primitives the
  module composes (AES-256-GCM-SIV, Argon2id, HKDF, SHA-256, Ed25519) are crates outside the
  repository: they are the fields of the record \<open>crypto\<close>, an argument of every operation that
  calls one. What the proofs rely on is stated by the predicates \<open>aead_correct\<close>,
  \<open>aead_tidy\<close>, \<open>kdf_widths\<close> and \<open>hash_width\<close>. The theory shows the seal/open and envelope
  round trips, the KDF resource policy, and that the associated-data and digest transcripts
  determine the values they bind.
\<close>

section \<open>The primitives\<close>

record crypto =
  aes_new :: "bytes \<Rightarrow> bool"
  aes_encrypt :: "bytes \<Rightarrow> bytes \<Rightarrow> bytes \<Rightarrow> bytes \<Rightarrow> bytes option"
  aes_decrypt :: "bytes \<Rightarrow> bytes \<Rightarrow> bytes \<Rightarrow> bytes \<Rightarrow> bytes option"
  argon2_params :: "u32 \<Rightarrow> u32 \<Rightarrow> u32 \<Rightarrow> bool"
  argon2id :: "u32 \<Rightarrow> u32 \<Rightarrow> u32 \<Rightarrow> string \<Rightarrow> bytes \<Rightarrow> bytes option"
  hkdf_expand :: "bytes \<Rightarrow> bytes \<Rightarrow> bytes \<Rightarrow> bytes option"
  sha256 :: "bytes \<Rightarrow> bytes"
  ed25519_public :: "bytes \<Rightarrow> bytes"
  ed25519_sign :: "bytes \<Rightarrow> bytes \<Rightarrow> bytes"
  ed25519_key_ok :: "bytes \<Rightarrow> bool"
  ed25519_verify :: "bytes \<Rightarrow> bytes \<Rightarrow> bytes \<Rightarrow> bool"

text \<open>
  The documented behaviour of the primitives. Arguments of the AEAD are key, nonce, associated
  data and message. \<open>aead_tidy\<close>: RFC 8452 decryption recomputes the tag from the decrypted
  message, so it accepts only what encryption of that message produces.
\<close>

definition aead_correct :: "crypto \<Rightarrow> bool" where
  "aead_correct C \<longleftrightarrow>
     (\<forall>k. length k = 32 \<longrightarrow> aes_new C k) \<and>
     (\<forall>k n a m c. aes_encrypt C k n a m = Some c \<longrightarrow> aes_decrypt C k n a c = Some m)"

definition aead_tidy :: "crypto \<Rightarrow> bool" where
  "aead_tidy C \<longleftrightarrow> (\<forall>k n a m c. aes_decrypt C k n a c = Some m \<longrightarrow> aes_encrypt C k n a m = Some c)"

definition aead_expands :: "crypto \<Rightarrow> bool" where
  "aead_expands C \<longleftrightarrow> (\<forall>k n a m c. aes_encrypt C k n a m = Some c \<longrightarrow> length c = length m + 16)"

definition kdf_widths :: "crypto \<Rightarrow> bool" where
  "kdf_widths C \<longleftrightarrow>
     (\<forall>mk it ln pw salt k. argon2id C mk it ln pw salt = Some k \<longrightarrow> length k = 32) \<and>
     (\<forall>salt ikm info k. hkdf_expand C salt ikm info = Some k \<longrightarrow> length k = 32)"

definition hash_width :: "crypto \<Rightarrow> bool" where
  "hash_width C \<longleftrightarrow> (\<forall>bs. length (sha256 C bs) = 32)"

section \<open>KDF parameters\<close>

definition DEFAULT_ARGON2_MEMORY_KIB :: u32 where "DEFAULT_ARGON2_MEMORY_KIB = 65536"
definition DEFAULT_ARGON2_ITERATIONS :: u32 where "DEFAULT_ARGON2_ITERATIONS = 3"
definition DEFAULT_ARGON2_LANES :: u32 where "DEFAULT_ARGON2_LANES = 4"
definition MAX_ARGON2_MEMORY_KIB :: u32 where "MAX_ARGON2_MEMORY_KIB = 256 * 1024"
definition MAX_ARGON2_ITERATIONS :: u32 where "MAX_ARGON2_ITERATIONS = 10"
definition MAX_ARGON2_LANES :: u32 where "MAX_ARGON2_LANES = 8"

record kdf_params =
  memory_kib :: u32
  iterations :: u32
  lanes :: u32

definition interactive :: kdf_params where
  "interactive = \<lparr>memory_kib = DEFAULT_ARGON2_MEMORY_KIB, iterations = DEFAULT_ARGON2_ITERATIONS,
     lanes = DEFAULT_ARGON2_LANES\<rparr>"

definition within_resource_policy :: "kdf_params \<Rightarrow> bool" where
  "within_resource_policy p \<longleftrightarrow> memory_kib p \<le> MAX_ARGON2_MEMORY_KIB
     \<and> iterations p \<le> MAX_ARGON2_ITERATIONS \<and> lanes p \<le> MAX_ARGON2_LANES"

definition validate_for_creation :: "crypto \<Rightarrow> kdf_params \<Rightarrow> unit result" where
  "validate_for_creation C p =
     (if \<not> within_resource_policy p then Inl (InvalidInput ''Argon2id KDF parameter policy'')
      else if \<not> argon2_params C (memory_kib p) (iterations p) (lanes p)
      then Inl (InvalidInput ''invalid Argon2id parameters'')
      else Inr ())"

definition validate_persisted :: "crypto \<Rightarrow> kdf_params \<Rightarrow> unit result" where
  "validate_persisted C p =
     (if \<not> within_resource_policy p then Inl (invalid_format ''Argon2id KDF parameter policy'')
      else if \<not> argon2_params C (memory_kib p) (iterations p) (lanes p)
      then Inl (invalid_format ''invalid Argon2id parameters'')
      else Inr ())"

section \<open>Sealing and opening\<close>

text \<open>A byte-string literal \<open>b"..."\<close>.\<close>

definition lit :: "string \<Rightarrow> bytes" where
  "lit s = map of_char s"

definition seal :: "crypto \<Rightarrow> bytes \<Rightarrow> bytes \<Rightarrow> bytes \<Rightarrow> rng \<Rightarrow> rng \<times> sealed_record result" where
  "seal C key aad plaintext g =
     (if length key \<noteq> 32 then (g, Inl (Invariant ''AES-256 key length''))
      else if \<not> aes_new C key then (g, Inl (Invariant ''AES-GCM-SIV construction''))
      else let (n, g') = fill_bytes 12 g in
        (case aes_encrypt C key n aad plaintext of
           None \<Rightarrow> (g', Inl Authentication)
         | Some c \<Rightarrow> (g', Inr \<lparr>nonce = n, ciphertext = c\<rparr>)))"

definition open_record :: "crypto \<Rightarrow> bytes \<Rightarrow> bytes \<Rightarrow> sealed_record \<Rightarrow> bytes result" where
  "open_record C key aad r =
     (if length key \<noteq> 32 then Inl (Invariant ''AES-256 key length'')
      else if \<not> aes_new C key then Inl (Invariant ''AES-GCM-SIV construction'')
      else ok_or Authentication (aes_decrypt C key (nonce r) aad (ciphertext r)))"

section \<open>Associated data\<close>

definition chunk_aad :: "vault_id \<Rightarrow> object_id \<Rightarrow> version_id \<Rightarrow> u32 \<Rightarrow> u32 \<Rightarrow> bytes" where
  "chunk_aad vid oid ver chunk_index plaintext_len =
     lit ''VLT1/CHUNK'' @ [0] @ vid @ oid @ ver @ u32_to_be_bytes chunk_index @ u32_to_be_bytes plaintext_len"

definition manifest_aad :: "vault_id \<Rightarrow> object_id \<Rightarrow> version_id \<Rightarrow> bytes" where
  "manifest_aad vid oid ver = lit ''VLT1/MANIFEST'' @ [0] @ vid @ oid @ ver"

definition wrapped_dek_aad :: "vault_id \<Rightarrow> object_id \<Rightarrow> version_id \<Rightarrow> bytes" where
  "wrapped_dek_aad vid oid ver = lit ''VLT1/WRAPPED-DEK'' @ [0] @ vid @ oid @ ver"

definition root_aad :: "vault_id \<Rightarrow> bytes" where
  "root_aad vid = lit ''VLT1/ROOT'' @ [0] @ vid"

section \<open>Chunk digest\<close>

text \<open>The hasher is the bytes it has absorbed.\<close>

record chunk_digest_builder =
  hasher :: bytes

definition digest_new :: chunk_digest_builder where
  "digest_new = \<lparr>hasher = lit ''VLT1/CHUNK-DIGEST'' @ [0]\<rparr>"

definition digest_update :: "u32 \<Rightarrow> sealed_record \<Rightarrow> chunk_digest_builder \<Rightarrow> chunk_digest_builder" where
  "digest_update index r b =
     \<lparr>hasher = hasher b @ u32_to_be_bytes index @ nonce r
        @ u64_to_be_bytes (word_of_nat (length (ciphertext r))) @ ciphertext r\<rparr>"

definition digest_finalize :: "crypto \<Rightarrow> chunk_digest_builder \<Rightarrow> bytes" where
  "digest_finalize C b = sha256 C (hasher b)"

section \<open>Keys and the root envelope\<close>

record root_envelope =
  env_vault_id :: vault_id
  env_salt :: bytes
  env_params :: kdf_params
  env_record :: sealed_record

definition generate_root_key :: "rng \<Rightarrow> bytes \<times> rng" where
  "generate_root_key g = fill_bytes 32 g"

definition generate_dek :: "rng \<Rightarrow> bytes \<times> rng" where
  "generate_dek g = fill_bytes 32 g"

definition derive_passphrase_key :: "crypto \<Rightarrow> string \<Rightarrow> bytes \<Rightarrow> kdf_params \<Rightarrow> bytes result" where
  "derive_passphrase_key C passphrase salt p =
     and_then (validate_persisted C p) (\<lambda>_.
     if \<not> argon2_params C (memory_kib p) (iterations p) (lanes p)
     then Inl (invalid_format ''invalid Argon2id parameters'')
     else ok_or UnlockFailed (argon2id C (memory_kib p) (iterations p) (lanes p) passphrase salt))"

definition derive_domain_key :: "crypto \<Rightarrow> bytes \<Rightarrow> bytes \<Rightarrow> bytes \<Rightarrow> bytes result" where
  "derive_domain_key C root salt label = ok_or (Invariant ''HKDF expansion'') (hkdf_expand C salt root label)"

definition derive_kek :: "crypto \<Rightarrow> bytes \<Rightarrow> vault_id \<Rightarrow> bytes result" where
  "derive_kek C root_key vid = derive_domain_key C root_key vid (lit ''VLT1/KEK'')"

definition derive_manifest_key :: "crypto \<Rightarrow> bytes \<Rightarrow> version_id \<Rightarrow> bytes result" where
  "derive_manifest_key C dek ver = derive_domain_key C dek ver (lit ''VLT1/MANIFEST'')"

definition seal_root_key ::
    "crypto \<Rightarrow> string \<Rightarrow> vault_id \<Rightarrow> bytes \<Rightarrow> kdf_params \<Rightarrow> rng \<Rightarrow> rng \<times> root_envelope result" where
  "seal_root_key C passphrase vid root_key p g =
     (case validate_for_creation C p of
        Inl e \<Rightarrow> (g, Inl e)
      | Inr _ \<Rightarrow> let (salt, g) = fill_bytes 16 g in
        (case derive_passphrase_key C passphrase salt p of
           Inl e \<Rightarrow> (g, Inl e)
         | Inr pk \<Rightarrow> then_do (seal C pk (root_aad vid) root_key)
             (\<lambda>r g. (g, Inr \<lparr>env_vault_id = vid, env_salt = salt, env_params = p, env_record = r\<rparr>)) g))"

definition open_root_key :: "crypto \<Rightarrow> string \<Rightarrow> root_envelope \<Rightarrow> bytes result" where
  "open_root_key C passphrase env =
     and_then (derive_passphrase_key C passphrase (env_salt env) (env_params env)) (\<lambda>pk.
     case open_record C pk (root_aad (env_vault_id env)) (env_record env) of
       Inl _ \<Rightarrow> Inl UnlockFailed
     | Inr plaintext \<Rightarrow> if length plaintext = 32 then Inr plaintext else Inl UnlockFailed)"

section \<open>A concrete instance of the primitives\<close>

text \<open>A toy suite with checksums for tags: it has no security, and shows that the predicates on the
  primitives can hold together.\<close>

definition toy_tag :: "bytes \<Rightarrow> bytes" where
  "toy_tag bs = replicate 16 (sum_list bs)"

definition toy_crypto :: crypto where
  "toy_crypto = \<lparr>aes_new = (\<lambda>k. length k = 32),
     aes_encrypt = (\<lambda>k n a m. Some (m @ toy_tag (k @ n @ a @ m))),
     aes_decrypt = (\<lambda>k n a c. let m = take (length c - 16) c in
       if drop (length c - 16) c = toy_tag (k @ n @ a @ m) then Some m else None),
     argon2_params = (\<lambda>m t p. 8 * p \<le> m \<and> 0 < t \<and> 0 < p),
     argon2id = (\<lambda>m t p pw salt. Some (take 32 (map of_char pw @ salt @ replicate 32 0))),
     hkdf_expand = (\<lambda>salt ikm info. Some (take 32 (info @ salt @ replicate 32 (sum_list ikm)))),
     sha256 = (\<lambda>bs. replicate 32 (sum_list bs)),
     ed25519_public = (\<lambda>seed. seed),
     ed25519_sign = (\<lambda>seed msg. replicate 64 (sum_list (seed @ msg))),
     ed25519_key_ok = (\<lambda>pk. length pk = 32),
     ed25519_verify = (\<lambda>pk msg sig. sig = replicate 64 (sum_list (pk @ msg)))\<rparr>"

lemma toy_crypto_laws:
  "aead_correct toy_crypto" "aead_tidy toy_crypto" "aead_expands toy_crypto"
  "kdf_widths toy_crypto" "hash_width toy_crypto"
proof -
  show "aead_correct toy_crypto"
    by (simp add: aead_correct_def toy_crypto_def toy_tag_def Let_def)
  show "aead_tidy toy_crypto"
    by (auto simp: aead_tidy_def toy_crypto_def Let_def split: if_splits)
       (metis append_take_drop_id)
  show "aead_expands toy_crypto" "kdf_widths toy_crypto" "hash_width toy_crypto"
    by (auto simp: aead_expands_def kdf_widths_def hash_width_def toy_crypto_def toy_tag_def)
qed

definition sample_rng :: rng where
  "sample_rng i = word_of_nat i"

subsection \<open>Seal and open\<close>

lemma open_seal:
  assumes "aead_correct C" and "seal C k a m g = (g', Inr r)"
  shows "open_record C k a r = Inr m" "sealed_ok r"
  using assms
  by (auto simp: seal_def open_record_def aead_correct_def sealed_ok_def Let_def fill_bytes_def
      split: if_splits option.splits)

lemma open_record_tidy:
  assumes "aead_tidy C" and "open_record C k a r = Inr m"
  shows "length k = 32 \<and> aes_encrypt C k (nonce r) a m = Some (ciphertext r)"
  using assms by (auto simp: open_record_def aead_tidy_def result_simps split: if_splits)

lemma seal_Inr_length:
  "aead_expands C \<Longrightarrow> seal C k a m g = (g', Inr r) \<Longrightarrow> length (ciphertext r) = length m + 16"
  by (auto simp: seal_def aead_expands_def Let_def fill_bytes_def split: if_splits option.splits)

lemma seal_errors:
  "seal C k a m g = (g', Inl e) \<Longrightarrow> e = Authentication \<or> (\<exists>s. e = Invariant s)"
  by (auto simp: seal_def Let_def split: if_splits option.splits prod.splits)

lemma open_record_errors:
  "open_record C k a r = Inl e \<Longrightarrow> e = Authentication \<or> (\<exists>s. e = Invariant s)"
  by (auto simp: open_record_def result_simps split: if_splits)

lemma derive_kek_length: "kdf_widths C \<Longrightarrow> derive_kek C rk vid = Inr k \<Longrightarrow> length k = 32"
  by (auto simp: derive_kek_def derive_domain_key_def kdf_widths_def result_simps)

lemma derive_manifest_key_length:
  "kdf_widths C \<Longrightarrow> derive_manifest_key C dek ver = Inr k \<Longrightarrow> length k = 32"
  by (auto simp: derive_manifest_key_def derive_domain_key_def kdf_widths_def result_simps)

subsection \<open>Root envelope\<close>

lemma validate_creation_persisted:
  "validate_for_creation C p = Inr () \<longleftrightarrow> validate_persisted C p = Inr ()"
  by (auto simp: validate_for_creation_def validate_persisted_def)

lemma seal_root_key_Inr:
  assumes "seal_root_key C pw vid rk p g = (g', Inr env)"
  obtains pk g1 where "validate_persisted C p = Inr ()" "env_vault_id env = vid" "env_params env = p"
    "length (env_salt env) = 16" "derive_passphrase_key C pw (env_salt env) p = Inr pk"
    "seal C pk (root_aad vid) rk g1 = (g', Inr (env_record env))"
  using assms
  by (auto simp: seal_root_key_def Let_def result_simps validate_creation_persisted [symmetric]
      fill_bytes_def split: sum.splits)

text \<open>A root key sealed under a passphrase is recovered by that passphrase; the envelope keeps
  the vault identity and parameters it was given, and the parameters satisfy the resource policy
  under which any later unlock runs.\<close>

lemma open_seal_root_key:
  assumes "aead_correct C" and "length rk = 32"
    and "seal_root_key C pw vid rk p g = (g', Inr env)"
  shows "open_root_key C pw env = Inr rk \<and> env_vault_id env = vid \<and> env_params env = p
    \<and> within_resource_policy p"
proof -
  from assms(3) obtain pk g1 where env: "validate_persisted C p = Inr ()" "env_vault_id env = vid"
      "env_params env = p" "derive_passphrase_key C pw (env_salt env) p = Inr pk"
    and s: "seal C pk (root_aad vid) rk g1 = (g', Inr (env_record env))"
    by (rule seal_root_key_Inr)
  from open_seal(1) [OF assms(1) s] env assms(2) show ?thesis
    by (auto simp: open_root_key_def validate_persisted_def split: if_splits)
qed

lemma sample_root_envelope:
  "\<exists>g' env. seal_root_key toy_crypto ''pw'' (replicate 16 1) (replicate 32 7) interactive sample_rng
     = (g', Inr env) \<and> open_root_key toy_crypto ''pw'' env = Inr (replicate 32 7)"
proof -
  obtain g' env where s:
    "seal_root_key toy_crypto ''pw'' (replicate 16 1) (replicate 32 7) interactive sample_rng = (g', Inr env)"
    by (simp add: seal_root_key_def validate_for_creation_def derive_passphrase_key_def
        validate_persisted_def within_resource_policy_def interactive_def toy_crypto_def seal_def Let_def
        DEFAULT_ARGON2_MEMORY_KIB_def DEFAULT_ARGON2_ITERATIONS_def DEFAULT_ARGON2_LANES_def
        MAX_ARGON2_MEMORY_KIB_def MAX_ARGON2_ITERATIONS_def MAX_ARGON2_LANES_def fill_bytes_def
        then_do_def)
  with open_seal_root_key [OF toy_crypto_laws(1) _ s] show ?thesis by auto
qed

text \<open>No passphrase work is done for stored parameters above the resource policy.\<close>

lemma derive_passphrase_key_policy:
  "\<not> within_resource_policy p \<Longrightarrow>
     derive_passphrase_key C pw salt p = Inl (InvalidFormat ''Argon2id KDF parameter policy'')"
  by (simp add: derive_passphrase_key_def validate_persisted_def)

lemma open_root_key_length: "open_root_key C pw env = Inr rk \<Longrightarrow> length rk = 32"
  by (cases "derive_passphrase_key C pw (env_salt env) (env_params env)")
     (auto simp: open_root_key_def split: sum.splits if_splits)

lemma derive_passphrase_key_errors:
  "derive_passphrase_key C pw salt p = Inl e \<Longrightarrow> e = UnlockFailed \<or> (\<exists>s. e = InvalidFormat s)"
  by (auto simp: derive_passphrase_key_def validate_persisted_def result_simps split: if_splits)

lemma open_root_key_errors:
  "open_root_key C pw env = Inl e \<Longrightarrow> e = UnlockFailed \<or> (\<exists>s. e = InvalidFormat s)"
  by (cases "derive_passphrase_key C pw (env_salt env) (env_params env)")
     (auto simp: open_root_key_def dest: derive_passphrase_key_errors split: sum.splits if_splits)

subsection \<open>Transcripts\<close>

text \<open>Every context in which the core seals a record.\<close>

datatype aad_context =
    ChunkContext vault_id object_id version_id u32 u32
  | ManifestContext vault_id object_id version_id
  | WrappedDekContext vault_id object_id version_id
  | RootContext vault_id

fun context_aad :: "aad_context \<Rightarrow> bytes" where
  "context_aad (ChunkContext vid oid ver i n) = chunk_aad vid oid ver i n"
| "context_aad (ManifestContext vid oid ver) = manifest_aad vid oid ver"
| "context_aad (WrappedDekContext vid oid ver) = wrapped_dek_aad vid oid ver"
| "context_aad (RootContext vid) = root_aad vid"

fun context_ok :: "aad_context \<Rightarrow> bool" where
  "context_ok (ChunkContext vid oid ver i n) \<longleftrightarrow> id_ok vid \<and> id_ok oid \<and> id_ok ver"
| "context_ok (ManifestContext vid oid ver) \<longleftrightarrow> id_ok vid \<and> id_ok oid \<and> id_ok ver"
| "context_ok (WrappedDekContext vid oid ver) \<longleftrightarrow> id_ok vid \<and> id_ok oid \<and> id_ok ver"
| "context_ok (RootContext vid) \<longleftrightarrow> id_ok vid"

fun context_length :: "aad_context \<Rightarrow> nat" where
  "context_length (ChunkContext _ _ _ _ _) = 67"
| "context_length (ManifestContext _ _ _) = 62"
| "context_length (WrappedDekContext _ _ _) = 65"
| "context_length (RootContext _) = 26"

lemma length_context_aad: "context_ok c \<Longrightarrow> length (context_aad c) = context_length c"
  by (cases c) (auto simp: chunk_aad_def manifest_aad_def wrapped_dek_aad_def root_aad_def id_ok_def lit_def)

text \<open>C38. The associated data determine the record they belong to: the kind of record, vault,
  object, version and, for a chunk, its position and plaintext length.  No two contexts share
  associated data, so a ciphertext cannot be moved between contexts unnoticed.\<close>

theorem context_aad_inj: "inj_on context_aad {c. context_ok c}"
proof (rule inj_onI)
  fix c c' assume ok: "c \<in> {c. context_ok c}" "c' \<in> {c. context_ok c}" and eq: "context_aad c = context_aad c'"
  then have "context_length c = context_length c'"
    using length_context_aad [of c] length_context_aad [of c'] by simp
  with ok eq show "c = c'"
    by (cases c; cases c')
      (simp_all add: chunk_aad_def manifest_aad_def wrapped_dek_aad_def root_aad_def id_ok_def)
qed

definition chunk_transcript :: "encrypted_chunk list \<Rightarrow> bytes" where
  "chunk_transcript cs = hasher (fold (\<lambda>c. digest_update (ck_index c) (ck_record c)) cs digest_new)"

definition chunk_entry :: "encrypted_chunk \<Rightarrow> bytes" where
  "chunk_entry c = u32_to_be_bytes (ck_index c) @ nonce (ck_record c)
     @ u64_to_be_bytes (word_of_nat (length (ciphertext (ck_record c)))) @ ciphertext (ck_record c)"

definition chunk_ok :: "encrypted_chunk \<Rightarrow> bool" where
  "chunk_ok c \<longleftrightarrow> sealed_ok (ck_record c) \<and> length (ciphertext (ck_record c)) < 2 ^ 64"

lemma hasher_fold:
  "hasher (fold (\<lambda>c. digest_update (ck_index c) (ck_record c)) cs b) = hasher b @ concat (map chunk_entry cs)"
  by (induction cs arbitrary: b) (simp_all add: digest_update_def chunk_entry_def)

lemma chunk_entry_prefix_free:
  assumes "chunk_ok c" "chunk_ok d" and "chunk_entry c @ r = chunk_entry d @ s"
  shows "c = d"
proof -
  let ?len = "\<lambda>c. word_of_nat (length (ciphertext (ck_record c))) :: u64"
  from assms have "ck_index c = ck_index d" "nonce (ck_record c) = nonce (ck_record d)"
      "?len c = ?len d"
      and rest: "ciphertext (ck_record c) @ r = ciphertext (ck_record d) @ s"
    by (auto simp: chunk_entry_def chunk_ok_def sealed_ok_def)
  from \<open>?len c = ?len d\<close> have "unat (?len c) = unat (?len d)" by simp
  with assms have "length (ciphertext (ck_record c)) = length (ciphertext (ck_record d))"
    by (simp add: chunk_ok_def unat_of_nat)
  with rest have "ciphertext (ck_record c) = ciphertext (ck_record d)" by simp
  with \<open>ck_index c = ck_index d\<close> \<open>nonce (ck_record c) = nonce (ck_record d)\<close>
  show ?thesis by (metis encrypted_chunk.equality sealed_record.equality old.unit.exhaust)
qed

lemma chunk_transcript_inj:
  assumes "\<forall>c \<in> set cs. chunk_ok c" "\<forall>c \<in> set ds. chunk_ok c"
    and "chunk_transcript cs = chunk_transcript ds"
  shows "cs = ds"
proof (rule concat_map_inj [where A = "{c. chunk_ok c}" and enc = chunk_entry])
  show "concat (map chunk_entry cs) = concat (map chunk_entry ds)"
    using assms(3) by (simp add: chunk_transcript_def hasher_fold)
  show "chunk_entry x \<noteq> []" for x
  proof -
    have "length (chunk_entry x) \<noteq> 0" by (simp add: chunk_entry_def)
    then show ?thesis by auto
  qed
qed (use assms chunk_entry_prefix_free in blast)+

text \<open>The bytes hashed into the chunk digest determine the list of encrypted chunks: number,
  order, indices, nonces and ciphertexts.  Two different lists can agree on the digest only by a
  collision of SHA-256 itself.\<close>

theorem chunk_transcript_determines:
  "inj_on (\<lambda>cs. hasher (fold (\<lambda>c. digest_update (ck_index c) (ck_record c)) cs digest_new))
     {cs. list_all chunk_ok cs}"
  using chunk_transcript_inj by (auto simp: inj_on_def chunk_transcript_def list_all_iff)

end
