(* ===== verification/Vlt_Files.thy ===== *)
theory Vlt_Files
  imports Vlt_Format
begin

text \<open>
  File-system checks of the core crate: \<open>crates/vlt1-core/src/path_safety.rs\<close> and
  \<open>crates/vlt1-core/src/private_file.rs\<close>, over a model of what the operating system answers. A
  path is the string the caller supplies; \<open>components\<close>, \<open>parent\<close> and \<open>ancestors\<close> follow
  \<open>std::path\<close>, with a parent written without redundant separators. A name leads to an inode or
  to an I/O error, and an inode carries the file type, the permission bits and the bytes of a file, so
  that two names of one file share them. The theory also holds the environment every stateful operation threads:
  the random source, the schedule of I/O failures and the file system.
\<close>

section \<open>Paths\<close>

datatype path_component = RootDir | CurDir | ParentDir | Normal string

fun split_slash :: "string \<Rightarrow> string list" where
  "split_slash [] = [[]]"
| "split_slash (c # s) =
     (if c = CHR ''/'' then [] # split_slash s
      else case split_slash s of [] \<Rightarrow> [[c]] | p # ps \<Rightarrow> (c # p) # ps)"

definition piece_component :: "string \<Rightarrow> path_component option" where
  "piece_component p =
     (if p = [] \<or> p = ''.'' then None else if p = ''..'' then Some ParentDir else Some (Normal p))"

definition components :: "string \<Rightarrow> path_component list" where
  "components s =
     (case split_slash s of
        [] \<Rightarrow> []
      | p # ps \<Rightarrow>
          (if s \<noteq> [] \<and> hd s = CHR ''/'' then [RootDir] else if p = ''.'' then [CurDir] else [])
          @ List.map_filter piece_component (p # ps))"

fun component_string :: "path_component \<Rightarrow> string" where
  "component_string RootDir = []"
| "component_string CurDir = ''.''"
| "component_string ParentDir = ''..''"
| "component_string (Normal n) = n"

fun join_slash :: "string list \<Rightarrow> string" where
  "join_slash [] = []"
| "join_slash [p] = p"
| "join_slash (p # ps) = p @ CHR ''/'' # join_slash ps"

definition path_string :: "path_component list \<Rightarrow> string" where
  "path_string cs = (if cs = [RootDir] then ''/'' else join_slash (map component_string cs))"

definition parent :: "path_component list \<Rightarrow> path_component list option" where
  "parent cs = (if cs = [] \<or> last cs = RootDir then None else Some (butlast cs))"

function ancestors :: "path_component list \<Rightarrow> path_component list list" where
  "ancestors cs = cs # (case parent cs of None \<Rightarrow> [] | Some p \<Rightarrow> ancestors p)"
  by pat_completeness auto
termination
  by (relation "measure length") (auto simp: parent_def split: if_splits)

declare ancestors.simps [simp del]

section \<open>The file system\<close>

datatype io_error = NotFoundError | OtherIoError

datatype file_type = RegularFile | Directory | Symlink | Socket | OtherFile

record metadata =
  file_type :: file_type
  mode :: u32

record file_system =
  lookup :: "string \<Rightarrow> io_error + nat"
  inodes :: "nat \<Rightarrow> metadata"
  chmod_allowed :: "nat \<Rightarrow> bool"
  content :: "nat \<Rightarrow> bytes"
  free_inodes :: "nat list"

text \<open>\<open>lstat\<close> and \<open>chmod\<close>; no file has the empty name.\<close>

definition symlink_metadata :: "file_system \<Rightarrow> string \<Rightarrow> io_error + metadata" where
  "symlink_metadata fs p =
     (if p = [] then Inl NotFoundError else
      case lookup fs p of Inl e \<Rightarrow> Inl e | Inr i \<Rightarrow> Inr (inodes fs i))"

definition set_permissions :: "string \<Rightarrow> u32 \<Rightarrow> file_system \<Rightarrow> file_system \<times> (io_error + unit)" where
  "set_permissions p m fs =
     (case lookup fs p of
        Inl e \<Rightarrow> (fs, Inl e)
      | Inr i \<Rightarrow> if chmod_allowed fs i
                then (fs\<lparr>inodes := (inodes fs)(i := (inodes fs i)\<lparr>mode := m\<rparr>)\<rparr>, Inr ())
                else (fs, Inl OtherIoError))"

section \<open>Path safety\<close>

fun check_directories :: "file_system \<Rightarrow> string \<Rightarrow> path_component list list \<Rightarrow> unit result" where
  "check_directories fs label [] = Inr ()"
| "check_directories fs label (a # as) =
     (case symlink_metadata fs (path_string a) of
        Inl _ \<Rightarrow> Inl (InvalidInput label)
      | Inr m \<Rightarrow> if file_type m = Symlink \<or> file_type m \<noteq> Directory then Inl (InvalidInput label)
                else check_directories fs label as)"

definition validate_parent_directory :: "file_system \<Rightarrow> string \<Rightarrow> string \<Rightarrow> unit result" where
  "validate_parent_directory fs path label =
     and_then (ok_or (InvalidInput label) (parent (components path))) (\<lambda>p.
     let p = (if p = [] then components ''.'' else p) in
     check_directories fs label (ancestors p))"

definition validate_existing_regular_file :: "file_system \<Rightarrow> string \<Rightarrow> string \<Rightarrow> unit result" where
  "validate_existing_regular_file fs path label =
     and_then (validate_parent_directory fs path label) (\<lambda>_.
     case symlink_metadata fs path of
       Inl _ \<Rightarrow> Inl (InvalidInput label)
     | Inr m \<Rightarrow> if file_type m = Symlink \<or> file_type m \<noteq> RegularFile then Inl (InvalidInput label)
               else Inr ())"

definition validate_new_regular_file :: "file_system \<Rightarrow> string \<Rightarrow> string \<Rightarrow> unit result" where
  "validate_new_regular_file fs path label =
     and_then (validate_parent_directory fs path label) (\<lambda>_.
     case symlink_metadata fs path of
       Inr _ \<Rightarrow> Inl (InvalidInput label)
     | Inl NotFoundError \<Rightarrow> Inr ()
     | Inl OtherIoError \<Rightarrow> Inl Storage)"

section \<open>Owner-private files\<close>

text \<open>The octal literals \<open>0o077\<close> and \<open>0o600\<close>.\<close>

abbreviation (input) MODE_077 :: u32 where "MODE_077 \<equiv> 0x3f"

abbreviation (input) MODE_600 :: u32 where "MODE_600 \<equiv> 0x180"

definition enforce_owner_private_file :: "string \<Rightarrow> file_system \<Rightarrow> file_system \<times> unit result" where
  "enforce_owner_private_file path fs =
     (case symlink_metadata fs path of
        Inl _ \<Rightarrow> (fs, Inl Storage)
      | Inr m \<Rightarrow>
          if file_type m \<noteq> RegularFile \<or> file_type m = Symlink
          then (fs, Inl (InvalidInput ''VLT/1 state file type''))
          else if mode m AND MODE_077 \<noteq> 0 \<or> mode m AND MODE_600 \<noteq> MODE_600
          then (case set_permissions path MODE_600 fs of
                  (fs', Inl _) \<Rightarrow> (fs', Inl Storage)
                | (fs', Inr _) \<Rightarrow> (fs', Inr ()))
          else (fs, Inr ()))"

definition enforce_owner_private_optional_file :: "string \<Rightarrow> file_system \<Rightarrow> file_system \<times> unit result" where
  "enforce_owner_private_optional_file path fs =
     (case symlink_metadata fs path of
        Inr _ \<Rightarrow> enforce_owner_private_file path fs
      | Inl NotFoundError \<Rightarrow> (fs, Inr ())
      | Inl OtherIoError \<Rightarrow> (fs, Inl Storage))"

definition enforce_owner_private_sqlite_state :: "string \<Rightarrow> file_system \<Rightarrow> file_system \<times> unit result" where
  "enforce_owner_private_sqlite_state path =
     then_do (enforce_owner_private_file path) (\<lambda>_.
     then_do (enforce_owner_private_optional_file (path @ ''-wal'')) (\<lambda>_.
     enforce_owner_private_optional_file (path @ ''-shm'')))"

section \<open>The environment\<close>

text \<open>\<open>faults n\<close> says whether the \<open>n\<close>-th next call into the database engine fails.\<close>

record env =
  rng_state :: rng
  faults :: "nat \<Rightarrow> bool"
  files :: file_system

definition tick :: "'z env_scheme \<Rightarrow> 'z env_scheme \<times> bool" where
  "tick s = (s\<lparr>faults := \<lambda>n. faults s (Suc n)\<rparr>, faults s 0)"

definition with_rng :: "(rng \<Rightarrow> rng \<times> 'a) \<Rightarrow> 'z env_scheme \<Rightarrow> 'z env_scheme \<times> 'a" where
  "with_rng f s = (case f (rng_state s) of (g, r) \<Rightarrow> (s\<lparr>rng_state := g\<rparr>, r))"

definition with_files :: "(file_system \<Rightarrow> file_system \<times> 'a) \<Rightarrow> 'z env_scheme \<Rightarrow> 'z env_scheme \<times> 'a" where
  "with_files f s = (case f (files s) of (fs, r) \<Rightarrow> (s\<lparr>files := fs\<rparr>, r))"

section \<open>What path validation establishes\<close>

definition direct_directory :: "file_system \<Rightarrow> path_component list \<Rightarrow> bool" where
  "direct_directory fs a \<longleftrightarrow>
     (case symlink_metadata fs (path_string a) of Inl _ \<Rightarrow> False | Inr m \<Rightarrow> file_type m = Directory)"

lemma check_directories_cases:
  "check_directories fs label as =
     (if list_all (direct_directory fs) as then Inr () else Inl (InvalidInput label))"
  by (induction as) (auto simp: direct_directory_def split: sum.splits)

text \<open>The directories a path validation visits.\<close>

definition parent_chain :: "string \<Rightarrow> path_component list list option" where
  "parent_chain path =
     map_option (\<lambda>p. ancestors (if p = [] then [CurDir] else p)) (parent (components path))"

lemma components_dot [simp]: "components ''.'' = [CurDir]"
  by (simp add: components_def piece_component_def List.map_filter_def)

lemma validate_parent_directory_eq:
  "validate_parent_directory fs path label =
     (case parent_chain path of
        None \<Rightarrow> Inl (InvalidInput label)
      | Some as \<Rightarrow> if list_all (direct_directory fs) as then Inr () else Inl (InvalidInput label))"
  by (cases "parent (components path)")
     (simp_all add: validate_parent_directory_def parent_chain_def check_directories_cases)

text \<open>A path is accepted as an existing regular file exactly when it has a parent, every directory
  from that parent upwards is a real directory reached without a symbolic link, and the file itself
  is a regular file and no link; every rejection is an input error naming the caller's label.\<close>

theorem validate_existing_regular_file_iff:
  "validate_existing_regular_file fs path label =
     (if (\<exists>as. parent_chain path = Some as \<and> list_all (direct_directory fs) as)
         \<and> (\<exists>m. symlink_metadata fs path = Inr m \<and> file_type m = RegularFile)
      then Inr () else Inl (InvalidInput label))"
  by (auto simp: validate_existing_regular_file_def validate_parent_directory_eq
      split: option.splits sum.splits)

lemma validate_new_regular_file_Inr:
  "validate_new_regular_file fs path label = Inr () \<longleftrightarrow>
     (\<exists>as. parent_chain path = Some as \<and> list_all (direct_directory fs) as)
     \<and> symlink_metadata fs path = Inl NotFoundError"
  by (auto simp: validate_new_regular_file_def validate_parent_directory_eq result_simps
      split: option.splits sum.splits io_error.splits if_splits)

lemma RootDir_components: "RootDir \<in> set (components s) \<Longrightarrow> s \<noteq> [] \<and> hd s = CHR ''/''"
  by (auto simp: components_def List.map_filter_def piece_component_def split: list.splits if_splits)

lemma empty_in_ancestors: "RootDir \<notin> set cs \<Longrightarrow> [] \<in> set (ancestors cs)"
proof (induction cs rule: ancestors.induct)
  case (1 cs)
  show ?case
  proof (cases "cs = []")
    case True
    then show ?thesis by (subst ancestors.simps) simp
  next
    case False
    then have "last cs \<in> set cs" by simp
    with 1(2) have "last cs \<noteq> RootDir" by metis
    with False have p: "parent cs = Some (butlast cs)"
      by (simp add: parent_def)
    have "[] \<in> set (ancestors (butlast cs))"
      using 1(1) [OF p] 1(2) by (meson in_set_butlastD)
    then show ?thesis
      by (subst ancestors.simps) (simp add: p)
  qed
qed

lemma not_direct_empty: "\<not> direct_directory fs []"
  by (simp add: direct_directory_def path_string_def symlink_metadata_def)

text \<open>A path that does not start at the root is never accepted: the chain of its ancestors ends
  in the empty path, which names no directory.\<close>

theorem relative_path_rejected:
  assumes "path = [] \<or> hd path \<noteq> CHR ''/''"
  shows "validate_parent_directory fs path label = Inl (InvalidInput label)"
proof (cases "parent (components path)")
  case (Some p)
  let ?p = "if p = [] then [CurDir] else p"
  from assms have "RootDir \<notin> set (components path)"
    using RootDir_components by blast
  with Some have "RootDir \<notin> set ?p"
    by (auto simp: parent_def dest: in_set_butlastD split: if_splits)
  then have "[] \<in> set (ancestors ?p)" by (rule empty_in_ancestors)
  then have "\<not> list_all (direct_directory fs) (ancestors ?p)"
    using not_direct_empty unfolding list_all_iff by metis
  with Some show ?thesis
    by (auto simp: validate_parent_directory_eq parent_chain_def)
qed (simp add: validate_parent_directory_eq parent_chain_def)

definition sample_files :: file_system where
  "sample_files = \<lparr>lookup = (\<lambda>p. if p = ''/'' then Inr 0 else if p = ''/v'' then Inr 1 else Inl NotFoundError),
     inodes = (\<lambda>i. \<lparr>file_type = (if i = 0 then Directory else RegularFile), mode = 0x1a4\<rparr>),
     chmod_allowed = (\<lambda>_. True), content = (\<lambda>_. []), free_inodes = [2, 3, 4, 5]\<rparr>"

theorem relative_path_rejected_witness:
  "hd ''./v'' \<noteq> CHR ''/'' \<and>
   validate_parent_directory sample_files ''./v'' ''vault database path''
     = Inl (InvalidInput ''vault database path'')"
  using relative_path_rejected [of "''./v''" sample_files "''vault database path''"] by simp

section \<open>What permission enforcement establishes\<close>

definition owner_private :: "u32 \<Rightarrow> bool" where
  "owner_private m \<longleftrightarrow> m AND MODE_077 = 0 \<and> m AND MODE_600 = MODE_600"

definition private_regular :: "file_system \<Rightarrow> string \<Rightarrow> bool" where
  "private_regular fs path \<longleftrightarrow>
     (\<exists>m. symlink_metadata fs path = Inr m \<and> file_type m = RegularFile \<and> owner_private (mode m))"

definition private_or_absent :: "file_system \<Rightarrow> string \<Rightarrow> bool" where
  "private_or_absent fs path \<longleftrightarrow> private_regular fs path \<or> symlink_metadata fs path = Inl NotFoundError"

text \<open>Enforcement changes permission bits only, and only to \<open>0600\<close>.\<close>

definition tightened :: "metadata \<Rightarrow> metadata \<Rightarrow> bool" where
  "tightened m m' \<longleftrightarrow> m' = m \<or> m' = m\<lparr>mode := MODE_600\<rparr> \<and> \<not> owner_private (mode m)"

definition only_tightened :: "file_system \<Rightarrow> file_system \<Rightarrow> bool" where
  "only_tightened fs fs' \<longleftrightarrow> lookup fs' = lookup fs \<and> chmod_allowed fs' = chmod_allowed fs \<and>
     (\<forall>i. tightened (inodes fs i) (inodes fs' i))"

lemma owner_private_600 [simp]: "owner_private MODE_600"
  by (simp add: owner_private_def)

lemma tightened_trans: "tightened a b \<Longrightarrow> tightened b c \<Longrightarrow> tightened a c"
  by (auto simp: tightened_def)

lemma tightened_keeps:
  "tightened m m' \<Longrightarrow> file_type m' = file_type m \<and> (owner_private (mode m) \<longrightarrow> owner_private (mode m'))"
  by (auto simp: tightened_def)

lemma only_tightened_refl [simp]: "only_tightened fs fs"
  by (simp add: only_tightened_def tightened_def)

lemma only_tightened_trans: "only_tightened a b \<Longrightarrow> only_tightened b c \<Longrightarrow> only_tightened a c"
  unfolding only_tightened_def using tightened_trans by metis

lemma only_tightened_metadata:
  assumes "only_tightened fs fs'"
  shows "symlink_metadata fs path = Inl e \<Longrightarrow> symlink_metadata fs' path = Inl e"
    and "symlink_metadata fs path = Inr m \<Longrightarrow> \<exists>m'. symlink_metadata fs' path = Inr m' \<and> tightened m m'"
  using assms
  by (auto simp: only_tightened_def symlink_metadata_def split: sum.splits if_splits)

lemma only_tightened_keeps:
  assumes "only_tightened fs fs'"
  shows "private_regular fs path \<Longrightarrow> private_regular fs' path"
    and "private_or_absent fs path \<Longrightarrow> private_or_absent fs' path"
  using only_tightened_metadata [OF assms, of path] tightened_keeps
  unfolding private_regular_def private_or_absent_def by metis+

lemma enforce_owner_private_file_spec:
  assumes "enforce_owner_private_file path fs = (fs', r)"
  shows "only_tightened fs fs'" and "r = Inr () \<Longrightarrow> private_regular fs' path"
proof -
  show "only_tightened fs fs'"
    using assms
    by (auto simp: enforce_owner_private_file_def set_permissions_def only_tightened_def tightened_def
        symlink_metadata_def owner_private_def split: sum.splits if_splits)
  show "private_regular fs' path" if "r = Inr ()"
    using assms that
    by (auto simp: enforce_owner_private_file_def set_permissions_def private_regular_def
        symlink_metadata_def owner_private_def split: sum.splits if_splits)
qed

lemma enforce_owner_private_optional_file_spec:
  assumes "enforce_owner_private_optional_file path fs = (fs', r)"
  shows "only_tightened fs fs'" and "r = Inr () \<Longrightarrow> private_or_absent fs' path"
proof -
  have "only_tightened fs fs' \<and> (r = Inr () \<longrightarrow> private_or_absent fs' path)"
  proof (cases "symlink_metadata fs path")
    case (Inl e)
    with assms show ?thesis
      by (cases e) (auto simp: enforce_owner_private_optional_file_def private_or_absent_def)
  next
    case (Inr m)
    with assms have "enforce_owner_private_file path fs = (fs', r)"
      by (simp add: enforce_owner_private_optional_file_def)
    from enforce_owner_private_file_spec [OF this] show ?thesis
      by (simp add: private_or_absent_def)
  qed
  then show "only_tightened fs fs'" "r = Inr () \<Longrightarrow> private_or_absent fs' path" by simp_all
qed

lemma enforce_sqlite_state_errors:
  "enforce_owner_private_sqlite_state path fs = (fs', Inl e) \<Longrightarrow>
     e = Storage \<or> e = InvalidInput ''VLT/1 state file type''"
proof -
  have one: "e = Storage \<or> e = InvalidInput ''VLT/1 state file type''"
    if "enforce_owner_private_file p f = (f', Inl e)" for p f f'
    using that by (auto simp: enforce_owner_private_file_def split: sum.splits prod.splits if_splits)
  have opt: "e = Storage \<or> e = InvalidInput ''VLT/1 state file type''"
    if "enforce_owner_private_optional_file p f = (f', Inl e)" for p f f'
    using that one by (auto simp: enforce_owner_private_optional_file_def split: sum.splits io_error.splits)
  show "enforce_owner_private_sqlite_state path fs = (fs', Inl e) \<Longrightarrow>
     e = Storage \<or> e = InvalidInput ''VLT/1 state file type''"
    unfolding enforce_owner_private_sqlite_state_def then_do_eq_Inl using one opt by blast
qed

lemma enforce_sqlite_state_tightens:
  assumes "enforce_owner_private_sqlite_state path fs = (fs', r)"
  shows "only_tightened fs fs'"
proof -
  have "evolves only_tightened (enforce_owner_private_sqlite_state path)"
    unfolding enforce_owner_private_sqlite_state_def
    by (intro evolves_then_do evolvesI)
       (auto intro: only_tightened_trans enforce_owner_private_file_spec(1)
         enforce_owner_private_optional_file_spec(1))
  then show ?thesis using assms by (rule evolvesD)
qed

lemma sqlite_state_private:
  assumes "enforce_owner_private_sqlite_state path fs = (fs', Inr ())"
  shows "private_regular fs' path \<and> private_or_absent fs' (path @ ''-wal'')
    \<and> private_or_absent fs' (path @ ''-shm'') \<and> only_tightened fs fs'"
proof -
  from assms obtain f1 f2 where
    a: "enforce_owner_private_file path fs = (f1, Inr ())" and
    b: "enforce_owner_private_optional_file (path @ ''-wal'') f1 = (f2, Inr ())" and
    c: "enforce_owner_private_optional_file (path @ ''-shm'') f2 = (fs', Inr ())"
    by (auto simp: enforce_owner_private_sqlite_state_def result_simps)
  note b' = enforce_owner_private_optional_file_spec [OF b]
    and c' = enforce_owner_private_optional_file_spec [OF c]
  show ?thesis
    using enforce_owner_private_file_spec [OF a] b' c' enforce_sqlite_state_tightens [OF assms]
    by (meson only_tightened_keeps)
qed

text \<open>Enforcement of a state that is private already changes nothing.\<close>

lemma enforce_private_noop:
  assumes "private_regular fs path" "private_or_absent fs (path @ ''-wal'')" "private_or_absent fs (path @ ''-shm'')"
  shows "enforce_owner_private_sqlite_state path fs = (fs, Inr ())"
proof -
  have one: "enforce_owner_private_file p fs = (fs, Inr ())" if "private_regular fs p" for p
    using that by (auto simp: enforce_owner_private_file_def private_regular_def owner_private_def)
  have "enforce_owner_private_optional_file p fs = (fs, Inr ())" if "private_or_absent fs p" for p
    using that one [of p] by (auto simp: enforce_owner_private_optional_file_def private_or_absent_def private_regular_def)
  with one assms show ?thesis by (simp add: enforce_owner_private_sqlite_state_def)
qed

text \<open>When the owner-private enforcement of a database succeeds, the database is a regular file with
  mode bits that keep group and others out, so is each companion file that exists, and nothing but
  permission bits of files that were too open has changed.\<close>

theorem enforce_sqlite_state_private:
  assumes "enforce_owner_private_sqlite_state path fs = (fs', Inr ())"
  shows "private_regular fs' path \<and> private_or_absent fs' (path @ ''-wal'')
    \<and> private_or_absent fs' (path @ ''-shm'') \<and> only_tightened fs fs'"
  using assms by (rule sqlite_state_private)

theorem enforce_sqlite_state_private_witness:
  "\<exists>fs'. enforce_owner_private_sqlite_state ''/v'' sample_files = (fs', Inr ()) \<and> private_regular fs' ''/v''"
proof -
  obtain fs' where e: "enforce_owner_private_sqlite_state ''/v'' sample_files = (fs', Inr ())"
    by (simp add: enforce_owner_private_sqlite_state_def enforce_owner_private_file_def
        enforce_owner_private_optional_file_def symlink_metadata_def set_permissions_def sample_files_def
        then_do_def)
  with enforce_sqlite_state_private [OF e] show ?thesis by blast
qed

end
