(* ===== verification/Vlt_Witness.thy ===== *)
theory Vlt_Witness
  imports Vlt_Crypto Vlt_Files
begin

text \<open>
  Freshness receipts and heads, \<open>crates/vlt1-core/src/witness.rs\<close>: the signed objects, their
  signing transcripts and checks, the hexadecimal wire form, the pinned HTTPS client and the
  in-process provider. The HTTP agent and the JSON decoder are parameters. The locale
  \<open>witness_provider\<close> states what the trait \<open>WitnessProvider\<close> promises to the vault; the
  in-process provider is an interpretation of it, and so is the durable service of the witness crate.
\<close>

section \<open>Signed objects\<close>

record witness_request =
  rq_vault_id :: vault_id
  rq_object_id :: object_id
  rq_version_id :: version_id
  rq_commitment :: bytes

record witness_receipt =
  rc_vault_id :: vault_id
  rc_object_id :: object_id
  rc_version_id :: version_id
  rc_witness_epoch :: u64
  rc_commitment :: bytes
  rc_public_key :: bytes
  rc_signature :: bytes

record witness_head =
  hd_vault_id :: vault_id
  hd_object_id :: object_id
  hd_present :: bool
  hd_version_id :: "version_id option"
  hd_witness_epoch :: u64
  hd_commitment :: "bytes option"
  hd_challenge :: bytes
  hd_public_key :: bytes
  hd_signature :: bytes

definition COMMITMENT_DOMAIN :: bytes where "COMMITMENT_DOMAIN = lit ''VLT/1 witness commitment v1''"
definition RECEIPT_DOMAIN :: bytes where "RECEIPT_DOMAIN = lit ''VLT/1 witness receipt v1''"
definition HEAD_DOMAIN :: bytes where "HEAD_DOMAIN = lit ''VLT/1 witness head v1''"

definition commitment_bytes :: "vault_id \<Rightarrow> object_id \<Rightarrow> version_id \<Rightarrow> sealed_record \<Rightarrow> bytes" where
  "commitment_bytes vid oid ver m =
     (let n = length (ciphertext m);
          ciphertext_len = (if n < 2 ^ 64 then word_of_nat n else - 1 :: u64) in
      COMMITMENT_DOMAIN @ vid @ oid @ ver @ nonce m @ u64_to_be_bytes ciphertext_len @ ciphertext m)"

definition version_commitment :: "crypto \<Rightarrow> vault_id \<Rightarrow> object_id \<Rightarrow> version_id \<Rightarrow> sealed_record \<Rightarrow> bytes" where
  "version_commitment C vid oid ver m = sha256 C (commitment_bytes vid oid ver m)"

definition receipt_signing_bytes :: "vault_id \<Rightarrow> object_id \<Rightarrow> version_id \<Rightarrow> u64 \<Rightarrow> bytes \<Rightarrow> bytes" where
  "receipt_signing_bytes vid oid ver epoch commitment =
     RECEIPT_DOMAIN @ vid @ oid @ ver @ u64_to_be_bytes epoch @ commitment"

definition head_signing_bytes ::
    "vault_id \<Rightarrow> object_id \<Rightarrow> bool \<Rightarrow> version_id option \<Rightarrow> u64 \<Rightarrow> bytes option \<Rightarrow> bytes \<Rightarrow> bytes" where
  "head_signing_bytes vid oid present ver epoch commitment challenge =
     (let version = (case ver of None \<Rightarrow> replicate 16 0 | Some v \<Rightarrow> v);
          commitment = (case commitment of None \<Rightarrow> replicate 32 0 | Some c \<Rightarrow> c) in
      HEAD_DOMAIN @ vid @ oid @ [if present then 1 else 0] @ version @ u64_to_be_bytes epoch
      @ commitment @ challenge)"

definition verify_signature :: "crypto \<Rightarrow> bytes \<Rightarrow> bytes \<Rightarrow> bytes \<Rightarrow> unit result" where
  "verify_signature C public_key message signature =
     (if \<not> ed25519_key_ok C public_key then Inl (invalid_format ''witness public key'')
      else if ed25519_verify C public_key message signature then Inr () else Inl Authentication)"

definition request_new :: "crypto \<Rightarrow> vault_id \<Rightarrow> object_id \<Rightarrow> version_id \<Rightarrow> sealed_record \<Rightarrow> witness_request" where
  "request_new C vid oid ver m = \<lparr>rq_vault_id = vid, rq_object_id = oid, rq_version_id = ver,
     rq_commitment = version_commitment C vid oid ver m\<rparr>"

definition receipt_message :: "witness_receipt \<Rightarrow> bytes" where
  "receipt_message r = receipt_signing_bytes (rc_vault_id r) (rc_object_id r) (rc_version_id r)
     (rc_witness_epoch r) (rc_commitment r)"

definition receipt_verify_signature :: "crypto \<Rightarrow> witness_receipt \<Rightarrow> unit result" where
  "receipt_verify_signature C r = verify_signature C (rc_public_key r) (receipt_message r) (rc_signature r)"

definition receipt_new :: "crypto \<Rightarrow> witness_receipt \<Rightarrow> witness_receipt result" where
  "receipt_new C r = and_then (receipt_verify_signature C r) (\<lambda>_. Inr r)"

definition receipt_issue :: "crypto \<Rightarrow> witness_request \<Rightarrow> u64 \<Rightarrow> bytes \<Rightarrow> witness_receipt" where
  "receipt_issue C rq epoch signing_key =
     \<lparr>rc_vault_id = rq_vault_id rq, rc_object_id = rq_object_id rq, rc_version_id = rq_version_id rq,
      rc_witness_epoch = epoch, rc_commitment = rq_commitment rq,
      rc_public_key = ed25519_public C signing_key,
      rc_signature = ed25519_sign C signing_key
        (receipt_signing_bytes (rq_vault_id rq) (rq_object_id rq) (rq_version_id rq) epoch (rq_commitment rq))\<rparr>"

definition verify_request :: "crypto \<Rightarrow> witness_receipt \<Rightarrow> witness_request \<Rightarrow> unit result" where
  "verify_request C r rq =
     (if rc_vault_id r \<noteq> rq_vault_id rq \<or> rc_object_id r \<noteq> rq_object_id rq
         \<or> rc_version_id r \<noteq> rq_version_id rq \<or> rc_commitment r \<noteq> rq_commitment rq
      then Inl (Invariant ''witness receipt binding'')
      else receipt_verify_signature C r)"

definition head_message :: "witness_head \<Rightarrow> bytes" where
  "head_message h = head_signing_bytes (hd_vault_id h) (hd_object_id h) (hd_present h) (hd_version_id h)
     (hd_witness_epoch h) (hd_commitment h) (hd_challenge h)"

definition head_verify_signature :: "crypto \<Rightarrow> witness_head \<Rightarrow> unit result" where
  "head_verify_signature C h = verify_signature C (hd_public_key h) (head_message h) (hd_signature h)"

definition head_new :: "crypto \<Rightarrow> witness_head \<Rightarrow> witness_head result" where
  "head_new C h =
     (if hd_present h \<noteq> (hd_version_id h \<noteq> None \<and> hd_commitment h \<noteq> None)
      then Inl (invalid_format ''witness head presence fields'')
      else if \<not> hd_present h \<and> hd_witness_epoch h \<noteq> 0
      then Inl (invalid_format ''absent witness head epoch'')
      else and_then (head_verify_signature C h) (\<lambda>_. Inr h))"

definition head_issue ::
    "crypto \<Rightarrow> vault_id \<Rightarrow> object_id \<Rightarrow> witness_receipt option \<Rightarrow> bytes \<Rightarrow> bytes \<Rightarrow> witness_head" where
  "head_issue C vid oid receipt challenge signing_key =
     (let present = (receipt \<noteq> None);
          version_id = map_option rc_version_id receipt;
          epoch = (case receipt of None \<Rightarrow> 0 | Some r \<Rightarrow> rc_witness_epoch r);
          commitment = map_option rc_commitment receipt in
      \<lparr>hd_vault_id = vid, hd_object_id = oid, hd_present = present, hd_version_id = version_id,
       hd_witness_epoch = epoch, hd_commitment = commitment, hd_challenge = challenge,
       hd_public_key = ed25519_public C signing_key,
       hd_signature = ed25519_sign C signing_key
         (head_signing_bytes vid oid present version_id epoch commitment challenge)\<rparr>)"

definition random_witness_challenge :: "rng \<Rightarrow> rng \<times> bytes" where
  "random_witness_challenge g = (let (bs, g') = fill_bytes 32 g in (g', bs))"

section \<open>Wire form\<close>

definition hex_encode :: "bytes \<Rightarrow> string" where
  "hex_encode value = concat (map (\<lambda>byte.
     [''0123456789abcdef'' ! unat (drop_bit 4 byte), ''0123456789abcdef'' ! unat (byte AND 0x0f)]) value)"

definition lower_hexdigit :: "char \<Rightarrow> bool" where
  "lower_hexdigit c \<longleftrightarrow> c \<in> set ''0123456789abcdef''"

text \<open>\<open>char::to_digit(16)\<close> and \<open>u8::from_str_radix(pair, 16)\<close> on a pair of characters.\<close>

definition to_digit :: "char \<Rightarrow> nat option" where
  "to_digit c =
     (let n = of_char c :: nat in
      if 48 \<le> n \<and> n \<le> 57 then Some (n - 48)
      else if 97 \<le> n \<and> n \<le> 102 then Some (n - 87)
      else if 65 \<le> n \<and> n \<le> 70 then Some (n - 55) else None)"

fun parse_pairs :: "string \<Rightarrow> string \<Rightarrow> bytes result" where
  "parse_pairs error (a # b # s) =
     (case (to_digit a, to_digit b) of
        (Some x, Some y) \<Rightarrow> and_then (parse_pairs error s) (\<lambda>bs. Inr (word_of_nat (16 * x + y) # bs))
      | _ \<Rightarrow> Inl (invalid_format error))"
| "parse_pairs error _ = Inr []"

definition parse_fixed :: "nat \<Rightarrow> string \<Rightarrow> string \<Rightarrow> bytes result" where
  "parse_fixed n value error =
     (if length value \<noteq> n * 2 \<or> \<not> list_all lower_hexdigit value then Inl (invalid_format error)
      else parse_pairs error value)"

definition parse_vault_id :: "string \<Rightarrow> vault_id result" where
  "parse_vault_id value = and_then (parse_fixed 16 value ''witness vault ID'') from_slice"

definition parse_object_id :: "string \<Rightarrow> object_id result" where
  "parse_object_id value = and_then (parse_fixed 16 value ''witness object ID'') from_slice"

definition parse_version_id :: "string \<Rightarrow> version_id result" where
  "parse_version_id value = and_then (parse_fixed 16 value ''witness version ID'') from_slice"

record issue_wire_request =
  iq_vault_id :: string
  iq_object_id :: string
  iq_version_id :: string
  iq_commitment :: string
  iq_expected_epoch :: u64

record issue_wire_response =
  ir_vault_id :: string
  ir_object_id :: string
  ir_version_id :: string
  ir_witness_epoch :: u64
  ir_commitment :: string
  ir_public_key :: string
  ir_signature :: string

record head_wire_request =
  hq_vault_id :: string
  hq_object_id :: string
  hq_challenge :: string

record head_wire_response =
  hr_vault_id :: string
  hr_object_id :: string
  hr_present :: bool
  hr_version_id :: "string option"
  hr_witness_epoch :: u64
  hr_commitment :: "string option"
  hr_challenge :: string
  hr_public_key :: string
  hr_signature :: string

definition from_request :: "witness_request \<Rightarrow> u64 \<Rightarrow> issue_wire_request" where
  "from_request rq expected_epoch =
     \<lparr>iq_vault_id = to_hex (rq_vault_id rq), iq_object_id = to_hex (rq_object_id rq),
      iq_version_id = to_hex (rq_version_id rq), iq_commitment = hex_encode (rq_commitment rq),
      iq_expected_epoch = expected_epoch\<rparr>"

definition into_receipt :: "crypto \<Rightarrow> issue_wire_response \<Rightarrow> witness_receipt result" where
  "into_receipt C w =
     and_then (parse_vault_id (ir_vault_id w)) (\<lambda>vid.
     and_then (parse_object_id (ir_object_id w)) (\<lambda>oid.
     and_then (parse_version_id (ir_version_id w)) (\<lambda>ver.
     and_then (parse_fixed 32 (ir_commitment w) ''witness commitment'') (\<lambda>commitment.
     and_then (parse_fixed 32 (ir_public_key w) ''witness public key'') (\<lambda>public_key.
     and_then (parse_fixed 64 (ir_signature w) ''witness signature'') (\<lambda>signature.
     receipt_new C \<lparr>rc_vault_id = vid, rc_object_id = oid, rc_version_id = ver,
       rc_witness_epoch = ir_witness_epoch w, rc_commitment = commitment,
       rc_public_key = public_key, rc_signature = signature\<rparr>))))))"

text \<open>\<open>Option::map(..).transpose()\<close>.\<close>

definition parse_optional :: "('a \<Rightarrow> 'b result) \<Rightarrow> 'a option \<Rightarrow> 'b option result" where
  "parse_optional f x = (case x of None \<Rightarrow> Inr None | Some v \<Rightarrow> and_then (f v) (\<lambda>y. Inr (Some y)))"

definition into_head :: "crypto \<Rightarrow> head_wire_response \<Rightarrow> witness_head result" where
  "into_head C w =
     and_then (parse_optional parse_version_id (hr_version_id w)) (\<lambda>ver.
     and_then (parse_optional (\<lambda>v. parse_fixed 32 v ''witness head commitment'') (hr_commitment w)) (\<lambda>commitment.
     and_then (parse_vault_id (hr_vault_id w)) (\<lambda>vid.
     and_then (parse_object_id (hr_object_id w)) (\<lambda>oid.
     and_then (parse_fixed 32 (hr_challenge w) ''witness head challenge'') (\<lambda>challenge.
     and_then (parse_fixed 32 (hr_public_key w) ''witness public key'') (\<lambda>public_key.
     and_then (parse_fixed 64 (hr_signature w) ''witness head signature'') (\<lambda>signature.
     head_new C \<lparr>hd_vault_id = vid, hd_object_id = oid, hd_present = hr_present w, hd_version_id = ver,
       hd_witness_epoch = hr_witness_epoch w, hd_commitment = commitment, hd_challenge = challenge,
       hd_public_key = public_key, hd_signature = signature\<rparr>)))))))"

section \<open>The HTTPS client\<close>

definition MAX_HTTP_BODY :: nat where "MAX_HTTP_BODY = 16 * 1024"

text \<open>
  What the HTTP agent returns for a request: a response body that ends after some bytes or fails
  there, a status error, or a transport error.
\<close>

record http_body =
  body_bytes :: bytes
  body_fails :: bool

datatype http_reply = HttpOk http_body | HttpStatus nat | HttpTransport

record 't http_agent =
  send_issue :: "string \<Rightarrow> string \<Rightarrow> issue_wire_request \<Rightarrow> 't \<Rightarrow> 't \<times> http_reply"
  send_head :: "string \<Rightarrow> string \<Rightarrow> head_wire_request \<Rightarrow> 't \<Rightarrow> 't \<times> http_reply"
  decode_issue_response :: "bytes \<Rightarrow> issue_wire_response option"
  decode_head_response :: "bytes \<Rightarrow> head_wire_response option"

definition read_json :: "(bytes \<Rightarrow> 'a option) \<Rightarrow> http_body \<Rightarrow> 'a result" where
  "read_json decode body =
     (let bs = take (MAX_HTTP_BODY + 1) (body_bytes body) in
      if length bs < MAX_HTTP_BODY + 1 \<and> body_fails body then Inl WitnessUnavailable
      else if length bs > MAX_HTTP_BODY then Inl (invalid_format ''witness HTTP response too large'')
      else ok_or (invalid_format ''witness HTTP response'') (decode bs))"

record https_provider =
  issue_url :: string
  head_url :: string
  authorization :: string
  primary_public_key :: bytes
  previous_public_key :: "bytes option"

fun starts_with :: "string \<Rightarrow> string \<Rightarrow> bool" where
  "starts_with [] s = True"
| "starts_with (p # ps) [] = False"
| "starts_with (p # ps) (c # s) = (p = c \<and> starts_with ps s)"

definition trim_end_slashes :: "string \<Rightarrow> string" where
  "trim_end_slashes s = rev (dropWhile (\<lambda>c. c = CHR ''/'') (rev s))"

definition provider_build :: "string \<Rightarrow> string \<Rightarrow> bytes \<Rightarrow> bytes option \<Rightarrow> bool \<Rightarrow> https_provider result" where
  "provider_build endpoint bearer_token primary previous allow_http =
     (if (\<not> allow_http \<and> \<not> starts_with ''https://'' endpoint) \<or> bearer_token = [] \<or> previous = Some primary
      then Inl (InvalidInput ''witness endpoint configuration'')
      else let endpoint = trim_end_slashes endpoint in
        if endpoint = [] \<or> length endpoint > 2048 then Inl (InvalidInput ''witness endpoint length'')
        else Inr \<lparr>issue_url = endpoint @ ''/v1/issue'', head_url = endpoint @ ''/v1/head'',
               authorization = ''Bearer '' @ bearer_token, primary_public_key = primary,
               previous_public_key = previous\<rparr>)"

definition new_with_previous :: "string \<Rightarrow> string \<Rightarrow> bytes \<Rightarrow> bytes option \<Rightarrow> https_provider result" where
  "new_with_previous endpoint bearer_token primary previous =
     provider_build endpoint bearer_token primary previous False"

definition for_loopback_test_with_previous ::
    "string \<Rightarrow> string \<Rightarrow> bytes \<Rightarrow> bytes option \<Rightarrow> https_provider result" where
  "for_loopback_test_with_previous endpoint bearer_token primary previous =
     (if \<not> (starts_with ''http://127.0.0.1'' endpoint \<or> starts_with ''http://[::1]'' endpoint)
      then Inl (InvalidInput ''loopback witness endpoint'')
      else provider_build endpoint bearer_token primary previous True)"

definition provider_new :: "string \<Rightarrow> string \<Rightarrow> bytes \<Rightarrow> https_provider result" where
  "provider_new endpoint bearer_token pinned = new_with_previous endpoint bearer_token pinned None"

definition for_loopback_test :: "string \<Rightarrow> string \<Rightarrow> bytes \<Rightarrow> https_provider result" where
  "for_loopback_test endpoint bearer_token pinned =
     for_loopback_test_with_previous endpoint bearer_token pinned None"

definition reply_json :: "(bytes \<Rightarrow> 'a option) \<Rightarrow> http_reply \<Rightarrow> 'a result" where
  "reply_json decode reply =
     (case reply of
        HttpOk body \<Rightarrow> read_json decode body
      | HttpStatus n \<Rightarrow> if n = 409 then Inl WitnessConflict else Inl WitnessUnavailable
      | HttpTransport \<Rightarrow> Inl WitnessUnavailable)"

definition post_issue :: "'t http_agent \<Rightarrow> https_provider \<Rightarrow> issue_wire_request \<Rightarrow> 't \<Rightarrow> 't \<times> issue_wire_response result" where
  "post_issue A p w t =
     (case send_issue A (issue_url p) (authorization p) w t of
        (t', reply) \<Rightarrow> (t', reply_json (decode_issue_response A) reply))"

definition post_head :: "'t http_agent \<Rightarrow> https_provider \<Rightarrow> head_wire_request \<Rightarrow> 't \<Rightarrow> 't \<times> head_wire_response result" where
  "post_head A p w t =
     (case send_head A (head_url p) (authorization p) w t of
        (t', reply) \<Rightarrow> (t', reply_json (decode_head_response A) reply))"

definition check_trusted_key :: "https_provider \<Rightarrow> bytes \<Rightarrow> unit result" where
  "check_trusted_key p public_key =
     (if public_key \<noteq> primary_public_key p \<and> previous_public_key p \<noteq> Some public_key
      then Inl WitnessConflict else Inr ())"

definition https_issue_receipt ::
    "crypto \<Rightarrow> 't http_agent \<Rightarrow> https_provider \<Rightarrow> witness_request \<Rightarrow> u64 \<Rightarrow> 't \<Rightarrow> 't \<times> witness_receipt result" where
  "https_issue_receipt C A p rq expected_epoch =
     then_do (post_issue A p (from_request rq expected_epoch)) (\<lambda>response t. (t,
     and_then (into_receipt C response) (\<lambda>receipt.
     and_then (check_trusted_key p (rc_public_key receipt)) (\<lambda>_.
     and_then (verify_request C receipt rq) (\<lambda>_.
     if rc_witness_epoch receipt \<le> expected_epoch then Inl WitnessConflict else Inr receipt)))))"

definition https_object_head ::
    "crypto \<Rightarrow> 't http_agent \<Rightarrow> https_provider \<Rightarrow> vault_id \<Rightarrow> object_id \<Rightarrow> bytes \<Rightarrow> 't \<Rightarrow> 't \<times> witness_head result" where
  "https_object_head C A p vid oid challenge =
     then_do (post_head A p \<lparr>hq_vault_id = to_hex vid, hq_object_id = to_hex oid,
       hq_challenge = hex_encode challenge\<rparr>) (\<lambda>response t. (t,
     and_then (into_head C response) (\<lambda>head.
     and_then (check_trusted_key p (hd_public_key head)) (\<lambda>_.
     if hd_vault_id head \<noteq> vid \<or> hd_object_id head \<noteq> oid \<or> hd_challenge head \<noteq> challenge
     then Inl WitnessConflict else Inr head))))"

section \<open>The in-process provider\<close>

record in_memory_provider =
  im_signing_key :: bytes
  im_next_epoch :: u64
  im_heads :: "witness_receipt list"

definition from_seed :: "bytes \<Rightarrow> in_memory_provider" where
  "from_seed seed = \<lparr>im_signing_key = seed, im_next_epoch = 1, im_heads = []\<rparr>"

definition im_random :: "rng \<Rightarrow> rng \<times> in_memory_provider" where
  "im_random g = (let (seed, g') = fill_bytes 32 g in (g', from_seed seed))"

definition head_for :: "vault_id \<Rightarrow> object_id \<Rightarrow> witness_receipt \<Rightarrow> bool" where
  "head_for vid oid r \<longleftrightarrow> rc_vault_id r = vid \<and> rc_object_id r = oid"

definition current_receipt :: "in_memory_provider \<Rightarrow> vault_id \<Rightarrow> object_id \<Rightarrow> witness_receipt option" where
  "current_receipt p vid oid = find (head_for vid oid) (im_heads p)"

text \<open>Replaces the first element that satisfies the predicate, or appends.\<close>

fun replace_or_push :: "('a \<Rightarrow> bool) \<Rightarrow> 'a \<Rightarrow> 'a list \<Rightarrow> 'a list" where
  "replace_or_push P y [] = [y]"
| "replace_or_push P y (x # xs) = (if P x then y # xs else x # replace_or_push P y xs)"

definition im_advance ::
    "crypto \<Rightarrow> witness_request \<Rightarrow> in_memory_provider \<Rightarrow> in_memory_provider \<times> witness_receipt result" where
  "im_advance C rq p =
     (case checked_add (im_next_epoch p) 1 of
        None \<Rightarrow> (p, Inl (Invariant ''witness epoch exhausted''))
      | Some next \<Rightarrow>
          let receipt = receipt_issue C rq (im_next_epoch p) (im_signing_key p) in
          (p\<lparr>im_next_epoch := next,
             im_heads := replace_or_push (head_for (rq_vault_id rq) (rq_object_id rq)) receipt (im_heads p)\<rparr>,
           Inr receipt))"

definition im_issue_receipt ::
    "crypto \<Rightarrow> witness_request \<Rightarrow> u64 \<Rightarrow> in_memory_provider \<Rightarrow> in_memory_provider \<times> witness_receipt result" where
  "im_issue_receipt C rq expected_epoch p =
     (case current_receipt p (rq_vault_id rq) (rq_object_id rq) of
        Some current \<Rightarrow>
          if rc_version_id current = rq_version_id rq \<and> rc_commitment current = rq_commitment rq
             \<and> rc_witness_epoch current > expected_epoch
          then (p, Inr current)
          else if rc_witness_epoch current \<noteq> expected_epoch then (p, Inl WitnessConflict)
          else im_advance C rq p
      | None \<Rightarrow> if expected_epoch \<noteq> 0 then (p, Inl WitnessConflict) else im_advance C rq p)"

definition im_object_head ::
    "crypto \<Rightarrow> vault_id \<Rightarrow> object_id \<Rightarrow> bytes \<Rightarrow> in_memory_provider \<Rightarrow> in_memory_provider \<times> witness_head result" where
  "im_object_head C vid oid challenge p =
     (p, Inr (head_issue C vid oid (current_receipt p vid oid) challenge (im_signing_key p)))"

section \<open>Hexadecimal codec\<close>

lemma hex_digit_table:
  "list_all (\<lambda>n. to_digit (''0123456789abcdef'' ! n) = Some n \<and> lower_hexdigit (''0123456789abcdef'' ! n)) [0..<16]"
  by code_simp

lemma hex_digit_of:
  assumes "n < 16"
  shows "to_digit (''0123456789abcdef'' ! n) = Some n" "lower_hexdigit (''0123456789abcdef'' ! n)"
  using hex_digit_table assms by (auto simp: list_all_iff simp del: upt_rec_numeral)

lemma lower_hexdigit_to_digit:
  assumes "lower_hexdigit c"
  obtains n where "n < 16" "to_digit c = Some n" "c = ''0123456789abcdef'' ! n"
proof -
  from assms obtain n where "n < length ''0123456789abcdef''" "c = ''0123456789abcdef'' ! n"
    unfolding lower_hexdigit_def by (metis in_set_conv_nth)
  then have "n < 16" by simp
  with \<open>c = _\<close> that show thesis using hex_digit_of(1) by blast
qed

lemma nibbles:
  fixes b :: u8
  shows "unat (drop_bit 4 b) < 16" "unat (b AND 0x0f) < 16"
    "16 * unat (drop_bit 4 b) + unat (b AND 0x0f) = unat b"
proof -
  have m: "b AND 0x0f = take_bit 4 b"
    using take_bit_eq_mask [of 4 b] by (simp add: mask_eq_exp_minus_1)
  have lt: "unat b < 256" using unsigned_less [of b, where 'a = nat] by simp
  have hi: "unat (drop_bit 4 b) = unat b div 16"
    unfolding unsigned_drop_bit_eq using lt by (simp add: drop_bit_eq_div take_bit_nat_eq_self)
  have lo: "unat (b AND 0x0f) = unat b mod 16"
    unfolding m unsigned_take_bit_eq by (simp add: take_bit_eq_mod)
  show "unat (drop_bit 4 b) < 16" "unat (b AND 0x0f) < 16"
    "16 * unat (drop_bit 4 b) + unat (b AND 0x0f) = unat b"
    using lt unfolding hi lo by simp_all
qed

lemma nibbles_join:
  assumes "x < 16" "y < 16"
  shows "unat (drop_bit 4 (word_of_nat (16 * x + y) :: u8)) = x"
    and "unat ((word_of_nat (16 * x + y) :: u8) AND 0x0f) = y"
proof -
  let ?b = "word_of_nat (16 * x + y) :: u8"
  have "unat ?b = 16 * x + y" unfolding unat_of_nat using assms by simp
  then have eq: "16 * unat (drop_bit 4 ?b) + unat (?b AND 0x0f) = 16 * x + y"
    using nibbles(3) [of ?b] by (rule trans [rotated])
  have dm: "(16 * h + l) div 16 = h" "(16 * h + l) mod 16 = l" if "l < 16" for h l :: nat
    using that by simp_all
  show "unat (drop_bit 4 ?b) = x" "unat (?b AND 0x0f) = y"
    using dm [OF nibbles(2) [of ?b], of "unat (drop_bit 4 ?b)"] dm [OF assms(2), of x] eq by metis+
qed

lemma hex_encode_Cons:
  "hex_encode (b # bs) = ''0123456789abcdef'' ! unat (drop_bit 4 b)
     # ''0123456789abcdef'' ! unat (b AND 0x0f) # hex_encode bs"
  by (simp add: hex_encode_def)

lemma hex_encode_Nil [simp]: "hex_encode [] = []"
  by (simp add: hex_encode_def)

lemma to_hex_eq: "to_hex i = hex_encode i"
  by (simp add: to_hex_def hex_encode_def hex_digit_def)

lemma hex_encode_wf: "length (hex_encode bs) = length bs * 2 \<and> list_all lower_hexdigit (hex_encode bs)"
  by (induction bs) (auto simp: hex_encode_Cons hex_digit_of(2) nibbles simp del: nth_Cons_numeral)

lemma parse_pairs_hex_encode: "parse_pairs error (hex_encode bs) = Inr bs"
proof (induction bs)
  case (Cons b bs)
  have "word_of_nat (16 * unat (drop_bit 4 b) + unat (b AND 0x0f)) = b"
    using nibbles(3) [of b] by simp
  with Cons show ?case
    by (simp add: hex_encode_Cons hex_digit_of nibbles)
qed simp

lemma parse_pairs_lower:
  "even (length s) \<Longrightarrow> list_all lower_hexdigit s \<Longrightarrow> \<exists>bs. parse_pairs error s = Inr bs \<and> s = hex_encode bs"
proof (induction error s rule: parse_pairs.induct)
  case (1 error a b s)
  obtain x where x: "x < 16" "to_digit a = Some x" "a = ''0123456789abcdef'' ! x"
    using 1(3) by (auto elim: lower_hexdigit_to_digit)
  obtain y where y: "y < 16" "to_digit b = Some y" "b = ''0123456789abcdef'' ! y"
    using 1(3) by (auto elim: lower_hexdigit_to_digit)
  from 1 x y obtain bs where "parse_pairs error s = Inr bs" "s = hex_encode bs"
    by auto
  then have "parse_pairs error (a # b # s) = Inr (word_of_nat (16 * x + y) # bs)"
      "a # b # s = hex_encode (word_of_nat (16 * x + y) # bs)"
    using x y by (simp_all add: hex_encode_Cons nibbles_join del: of_nat_add of_nat_mult)
  then show ?case by blast
qed auto

lemma parse_fixed_iff:
  "parse_fixed n s error = Inr bs \<longleftrightarrow> length bs = n \<and> s = hex_encode bs"
proof
  assume p: "parse_fixed n s error = Inr bs"
  then have "length s = n * 2" "list_all lower_hexdigit s" "parse_pairs error s = Inr bs"
    by (auto simp: parse_fixed_def split: if_splits)
  with parse_pairs_lower [of s error] have "s = hex_encode bs" by auto
  with \<open>length s = n * 2\<close> hex_encode_wf [of bs] show "length bs = n \<and> s = hex_encode bs" by simp
qed (auto simp: parse_fixed_def hex_encode_wf parse_pairs_hex_encode)

lemma parse_id_iff:
  "parse_vault_id s = Inr i \<longleftrightarrow> id_ok i \<and> s = to_hex i"
  "parse_object_id s = Inr i \<longleftrightarrow> id_ok i \<and> s = to_hex i"
  "parse_version_id s = Inr i \<longleftrightarrow> id_ok i \<and> s = to_hex i"
  by (auto simp: parse_vault_id_def parse_object_id_def parse_version_id_def result_simps
      parse_fixed_iff id_ok_def to_hex_eq)

lemma parse_fixed_error: "parse_fixed n s error = Inl e \<Longrightarrow> e = InvalidFormat error"
  using parse_pairs_lower [of s error] by (auto simp: parse_fixed_def split: if_splits)

text \<open>The fixed-width hexadecimal parser accepts exactly the lowercase encodings of byte strings of
  the requested width and returns that byte string; everything else is the given format error.\<close>

theorem parse_fixed_spec:
  "(parse_fixed n s error = Inr bs \<longleftrightarrow> length bs = n \<and> s = hex_encode bs)
   \<and> parse_fixed n s error \<in> insert (Inl (InvalidFormat error)) (range Inr)"
  using parse_fixed_iff [of n s error bs] parse_fixed_error [of n s error]
  by (cases "parse_fixed n s error") auto

section \<open>Signing transcripts\<close>

definition request_ok :: "witness_request \<Rightarrow> bool" where
  "request_ok rq \<longleftrightarrow> id_ok (rq_vault_id rq) \<and> id_ok (rq_object_id rq) \<and> id_ok (rq_version_id rq)
     \<and> length (rq_commitment rq) = 32"

definition receipt_ok :: "witness_receipt \<Rightarrow> bool" where
  "receipt_ok r \<longleftrightarrow> id_ok (rc_vault_id r) \<and> id_ok (rc_object_id r) \<and> id_ok (rc_version_id r)
     \<and> length (rc_commitment r) = 32 \<and> length (rc_public_key r) = 32 \<and> length (rc_signature r) = 64"

text \<open>The widths of a head and the consistency of its presence fields, as \<open>WitnessHead::new\<close> checks it.\<close>

definition head_ok :: "witness_head \<Rightarrow> bool" where
  "head_ok h \<longleftrightarrow> id_ok (hd_vault_id h) \<and> id_ok (hd_object_id h) \<and> length (hd_challenge h) = 32
     \<and> (if hd_present h
        then \<exists>v c. hd_version_id h = Some v \<and> id_ok v \<and> hd_commitment h = Some c \<and> length c = 32
        else hd_version_id h = None \<and> hd_commitment h = None)"

text \<open>The statement a witness signs: an acknowledged version or an observed head.\<close>

datatype statement =
    ReceiptStatement vault_id object_id version_id u64 bytes
  | HeadStatement vault_id object_id "(version_id \<times> bytes) option" u64 bytes

fun statement_ok :: "statement \<Rightarrow> bool" where
  "statement_ok (ReceiptStatement vid oid ver e c) \<longleftrightarrow> id_ok vid \<and> id_ok oid \<and> id_ok ver \<and> length c = 32"
| "statement_ok (HeadStatement vid oid vc e ch) \<longleftrightarrow> id_ok vid \<and> id_ok oid \<and> length ch = 32 \<and>
     (case vc of None \<Rightarrow> True | Some (v, c) \<Rightarrow> id_ok v \<and> length c = 32)"

fun statement_bytes :: "statement \<Rightarrow> bytes" where
  "statement_bytes (ReceiptStatement vid oid ver e c) = receipt_signing_bytes vid oid ver e c"
| "statement_bytes (HeadStatement vid oid vc e ch) =
     head_signing_bytes vid oid (vc \<noteq> None) (map_option fst vc) e (map_option snd vc) ch"

fun statement_length :: "statement \<Rightarrow> nat" where
  "statement_length (ReceiptStatement _ _ _ _ _) = 112"
| "statement_length (HeadStatement _ _ _ _ _) = 142"

lemma length_statement_bytes: "statement_ok s \<Longrightarrow> length (statement_bytes s) = statement_length s"
  by (cases s)
     (auto simp: receipt_signing_bytes_def head_signing_bytes_def RECEIPT_DOMAIN_def HEAD_DOMAIN_def
       lit_def id_ok_def split: option.splits)

text \<open>What a witness signs determines the statement: no receipt can be read as a head, and equal
  signed bytes mean equal vault, object, version, epoch, commitment and challenge.\<close>

theorem statement_bytes_inj: "inj_on statement_bytes {s. statement_ok s}"
proof (rule inj_onI)
  fix s t assume ok: "s \<in> {s. statement_ok s}" "t \<in> {s. statement_ok s}"
    and eq: "statement_bytes s = statement_bytes t"
  then have "statement_length s = statement_length t"
    using length_statement_bytes [of s] length_statement_bytes [of t] by simp
  with ok eq show "s = t"
    by (cases s; cases t)
       (auto simp: receipt_signing_bytes_def head_signing_bytes_def id_ok_def Let_def split: option.splits)
qed

lemma commitment_bytes_inj:
  assumes "id_ok vid" "id_ok oid" "id_ok ver" "sealed_ok m" "length (ciphertext m) < 2 ^ 64"
    and "id_ok vid'" "id_ok oid'" "id_ok ver'" "sealed_ok m'" "length (ciphertext m') < 2 ^ 64"
    and "commitment_bytes vid oid ver m = commitment_bytes vid' oid' ver' m'"
  shows "vid = vid' \<and> oid = oid' \<and> ver = ver' \<and> m = m'"
  using assms by (cases m; cases m') (auto simp: commitment_bytes_def id_ok_def sealed_ok_def Let_def)

section \<open>What the pinned client accepts\<close>

definition trusted :: "https_provider \<Rightarrow> bytes \<Rightarrow> bool" where
  "trusted p k \<longleftrightarrow> k = primary_public_key p \<or> previous_public_key p = Some k"

definition signed_by :: "crypto \<Rightarrow> bytes \<Rightarrow> bytes \<Rightarrow> bytes \<Rightarrow> bool" where
  "signed_by C k message signature \<longleftrightarrow> ed25519_key_ok C k \<and> ed25519_verify C k message signature"

definition binds :: "witness_receipt \<Rightarrow> witness_request \<Rightarrow> bool" where
  "binds r rq \<longleftrightarrow> rc_vault_id r = rq_vault_id rq \<and> rc_object_id r = rq_object_id rq
     \<and> rc_version_id r = rq_version_id rq \<and> rc_commitment r = rq_commitment rq"

lemma verify_signature_iff [result_simps]:
  "verify_signature C k m s = Inr u \<longleftrightarrow> signed_by C k m s"
  by (auto simp: verify_signature_def signed_by_def)

lemma receipt_verify_signature_iff [result_simps]:
  "receipt_verify_signature C r = Inr u \<longleftrightarrow> signed_by C (rc_public_key r) (receipt_message r) (rc_signature r)"
  by (simp add: receipt_verify_signature_def verify_signature_iff)

lemma verify_request_iff [result_simps]:
  "verify_request C r rq = Inr u \<longleftrightarrow>
     binds r rq \<and> signed_by C (rc_public_key r) (receipt_message r) (rc_signature r)"
  by (auto simp: verify_request_def binds_def receipt_verify_signature_iff)

lemma receipt_new_iff [result_simps]:
  "receipt_new C r = Inr r' \<longleftrightarrow> r' = r \<and> signed_by C (rc_public_key r) (receipt_message r) (rc_signature r)"
  by (auto simp: receipt_new_def result_simps)

lemma check_trusted_key_iff [result_simps]: "check_trusted_key p k = Inr u \<longleftrightarrow> trusted p k"
  by (auto simp: check_trusted_key_def trusted_def)

lemma head_new_iff [result_simps]:
  "head_new C h = Inr h' \<longleftrightarrow> h' = h \<and> signed_by C (hd_public_key h) (head_message h) (hd_signature h)
     \<and> hd_present h = (hd_version_id h \<noteq> None \<and> hd_commitment h \<noteq> None)
     \<and> (hd_present h \<or> hd_witness_epoch h = 0)"
  by (auto simp: head_new_def head_verify_signature_def result_simps)

lemma into_receipt_ok: "into_receipt C w = Inr r \<Longrightarrow> receipt_ok r"
  by (auto simp: into_receipt_def result_simps parse_id_iff parse_fixed_iff receipt_ok_def)

lemma parse_hex [simp]:
  "length bs = n \<Longrightarrow> parse_fixed n (hex_encode bs) error = Inr bs"
  "id_ok i \<Longrightarrow> parse_vault_id (to_hex i) = Inr i"
  "id_ok i \<Longrightarrow> parse_object_id (to_hex i) = Inr i"
  "id_ok i \<Longrightarrow> parse_version_id (to_hex i) = Inr i"
  by (simp_all add: parse_fixed_iff parse_id_iff)

text \<open>A sample exchange: a receipt and a head signed under the toy suite, and an agent that delivers
  their wire forms.\<close>

definition sample_request :: witness_request where
  "sample_request = \<lparr>rq_vault_id = replicate 16 1, rq_object_id = replicate 16 2,
     rq_version_id = replicate 16 3, rq_commitment = replicate 32 4\<rparr>"

definition sample_receipt :: witness_receipt where
  "sample_receipt = receipt_issue toy_crypto sample_request 1 (replicate 32 5)"

definition sample_head :: witness_head where
  "sample_head = head_issue toy_crypto (replicate 16 1) (replicate 16 2) (Some sample_receipt)
     (replicate 32 6) (replicate 32 5)"

definition sample_agent :: "unit http_agent" where
  "sample_agent = \<lparr>send_issue = (\<lambda>_ _ _ t. (t, HttpOk \<lparr>body_bytes = [], body_fails = False\<rparr>)),
     send_head = (\<lambda>_ _ _ t. (t, HttpOk \<lparr>body_bytes = [], body_fails = False\<rparr>)),
     decode_issue_response = (\<lambda>_. Some \<lparr>ir_vault_id = to_hex (rc_vault_id sample_receipt),
       ir_object_id = to_hex (rc_object_id sample_receipt), ir_version_id = to_hex (rc_version_id sample_receipt),
       ir_witness_epoch = 1, ir_commitment = hex_encode (rc_commitment sample_receipt),
       ir_public_key = hex_encode (rc_public_key sample_receipt),
       ir_signature = hex_encode (rc_signature sample_receipt)\<rparr>),
     decode_head_response = (\<lambda>_. Some \<lparr>hr_vault_id = to_hex (hd_vault_id sample_head),
       hr_object_id = to_hex (hd_object_id sample_head), hr_present = True,
       hr_version_id = map_option to_hex (hd_version_id sample_head), hr_witness_epoch = 1,
       hr_commitment = map_option hex_encode (hd_commitment sample_head),
       hr_challenge = hex_encode (hd_challenge sample_head),
       hr_public_key = hex_encode (hd_public_key sample_head),
       hr_signature = hex_encode (hd_signature sample_head)\<rparr>)\<rparr>"

definition sample_provider :: https_provider where
  "sample_provider = \<lparr>issue_url = ''https://w/v1/issue'', head_url = ''https://w/v1/head'',
     authorization = ''Bearer t'', primary_public_key = replicate 32 5, previous_public_key = None\<rparr>"

lemmas sample_exchange_defs = sample_request_def sample_receipt_def sample_head_def sample_agent_def
  sample_provider_def receipt_issue_def head_issue_def toy_crypto_def Let_def read_json_def reply_json_def
  MAX_HTTP_BODY_def into_receipt_def into_head_def receipt_new_def receipt_verify_signature_def
  head_new_def head_verify_signature_def verify_signature_def receipt_message_def head_message_def
  check_trusted_key_def verify_request_def parse_optional_def then_do_def post_issue_def post_head_def id_ok_def

text \<open>C33. A receipt the HTTPS client returns is signed by the pinned key or the one configured previous
  key, acknowledges exactly the requested vault, object, version and commitment, and carries an epoch
  above the expected one, whatever the network delivered.\<close>

theorem https_issue_receipt_sound:
  assumes "https_issue_receipt C A p rq e t = (t', Inr r)"
  shows "binds r rq \<and> trusted p (rc_public_key r) \<and> e < rc_witness_epoch r \<and> receipt_ok r
    \<and> signed_by C (rc_public_key r) (receipt_message r) (rc_signature r)"
  using assms
  by (auto simp: https_issue_receipt_def result_simps dest: into_receipt_ok split: if_splits)

theorem https_issue_receipt_sound_witness:
  "https_issue_receipt toy_crypto sample_agent sample_provider sample_request 0 () = ((), Inr sample_receipt)
   \<and> binds sample_receipt sample_request \<and> trusted sample_provider (rc_public_key sample_receipt)"
proof -
  have "https_issue_receipt toy_crypto sample_agent sample_provider sample_request 0 () = ((), Inr sample_receipt)"
    by (simp add: https_issue_receipt_def sample_exchange_defs)
  with https_issue_receipt_sound [OF this] show ?thesis by simp
qed

text \<open>A head the HTTPS client returns is signed by a trusted key over the requested vault and object
  and the caller's own challenge, and names a version and a commitment exactly when it is present.\<close>

theorem https_object_head_sound:
  assumes "https_object_head C A p vid oid challenge t = (t', Inr h)"
  shows "hd_vault_id h = vid \<and> hd_object_id h = oid \<and> hd_challenge h = challenge
    \<and> trusted p (hd_public_key h) \<and> signed_by C (hd_public_key h) (head_message h) (hd_signature h)
    \<and> hd_present h = (hd_version_id h \<noteq> None \<and> hd_commitment h \<noteq> None)
    \<and> (hd_present h \<or> hd_witness_epoch h = 0)"
  using assms
  by (auto simp: https_object_head_def into_head_def result_simps split: if_splits)

theorem https_object_head_sound_witness:
  "https_object_head toy_crypto sample_agent sample_provider (replicate 16 1) (replicate 16 2) (replicate 32 6) ()
     = ((), Inr sample_head)
   \<and> hd_challenge sample_head = replicate 32 6 \<and> trusted sample_provider (hd_public_key sample_head)"
proof -
  have "https_object_head toy_crypto sample_agent sample_provider (replicate 16 1) (replicate 16 2)
      (replicate 32 6) () = ((), Inr sample_head)"
    by (simp add: https_object_head_def sample_exchange_defs)
  with https_object_head_sound [OF this] show ?thesis by simp
qed

section \<open>The provider contract\<close>

definition epoch_of :: "witness_receipt option \<Rightarrow> u64" where
  "epoch_of r = (case r of None \<Rightarrow> 0 | Some r \<Rightarrow> rc_witness_epoch r)"

text \<open>The head fields that report a recorded receipt, or its absence.\<close>

definition reports :: "witness_head \<Rightarrow> witness_receipt option \<Rightarrow> bool" where
  "reports h r \<longleftrightarrow> hd_present h = (r \<noteq> None) \<and> hd_version_id h = map_option rc_version_id r
     \<and> hd_witness_epoch h = epoch_of r \<and> hd_commitment h = map_option rc_commitment r"

text \<open>
  \<open>supersedes now p rq e r\<close>: the receipt \<open>r\<close> acknowledges the request, its caller knew the
  current epoch of the object, and its own epoch is above every recorded one of the vault.
\<close>

definition supersedes ::
    "(vault_id \<Rightarrow> object_id \<Rightarrow> witness_receipt option) \<Rightarrow> witness_request \<Rightarrow> u64 \<Rightarrow> witness_receipt \<Rightarrow> bool" where
  "supersedes now rq e r \<longleftrightarrow> binds r rq \<and> epoch_of (now (rq_vault_id rq) (rq_object_id rq)) = e
     \<and> (\<forall>b. epoch_of (now (rq_vault_id rq) b) < rc_witness_epoch r)"

definition record_receipt ::
    "witness_receipt \<Rightarrow> (vault_id \<Rightarrow> object_id \<Rightarrow> witness_receipt option)
       \<Rightarrow> vault_id \<Rightarrow> object_id \<Rightarrow> witness_receipt option" where
  "record_receipt r now = (\<lambda>v b. if v = rc_vault_id r \<and> b = rc_object_id r then Some r else now v b)"

locale witness_provider =
  fixes C :: crypto
    and issue :: "witness_request \<Rightarrow> u64 \<Rightarrow> 'p \<Rightarrow> 'p \<times> witness_receipt result"
    and head :: "vault_id \<Rightarrow> object_id \<Rightarrow> bytes \<Rightarrow> 'p \<Rightarrow> 'p \<times> witness_head result"
    and recorded :: "'p \<Rightarrow> vault_id \<Rightarrow> object_id \<Rightarrow> witness_receipt option"
    and key :: "'p \<Rightarrow> bytes"
    and inv :: "'p \<Rightarrow> bool"
  assumes issue_inv: "inv p \<Longrightarrow> issue rq e p = (p', res) \<Longrightarrow> inv p' \<and> key p' = key p"
    and issue_effect: "inv p \<Longrightarrow> issue rq e p = (p', res) \<Longrightarrow>
      recorded p' = recorded p
      \<or> (\<exists>r. supersedes (recorded p) rq e r \<and> recorded p' = record_receipt r (recorded p))"
    and issue_receipt: "inv p \<Longrightarrow> issue rq e p = (p', Inr r) \<Longrightarrow>
      recorded p' (rq_vault_id rq) (rq_object_id rq) = Some r \<and> binds r rq \<and> e < rc_witness_epoch r
      \<and> rc_public_key r = key p \<and> signed_by C (rc_public_key r) (receipt_message r) (rc_signature r)"
    and issue_conflict: "inv p \<Longrightarrow> issue rq e p = (p', Inl WitnessConflict) \<Longrightarrow> recorded p' = recorded p"
    and issue_retry: "inv p \<Longrightarrow> recorded p (rq_vault_id rq) (rq_object_id rq) = Some r \<Longrightarrow> binds r rq \<Longrightarrow>
      e < rc_witness_epoch r \<Longrightarrow> issue rq e p = (p', res) \<Longrightarrow> recorded p' = recorded p"
    and head_view: "inv p \<Longrightarrow> head v b ch p = (p', Inr h) \<Longrightarrow>
      reports h (recorded p v b) \<and> hd_vault_id h = v \<and> hd_object_id h = b \<and> hd_challenge h = ch
      \<and> hd_public_key h = key p"
    and head_keeps: "inv p \<Longrightarrow> head v b ch p = (p', hres) \<Longrightarrow> inv p' \<and> key p' = key p \<and> recorded p' = recorded p"
begin

text \<open>No call moves an object's recorded epoch backwards.\<close>

lemma epoch_step:
  assumes "inv p" "issue rq e p = (p', r)"
  shows "epoch_of (recorded p v b) \<le> epoch_of (recorded p' v b)"
  using issue_effect [OF assms]
  by (auto simp: supersedes_def record_receipt_def binds_def epoch_of_def split: option.splits
      intro: less_imp_le)

abbreviation run :: "(witness_request \<times> u64) list \<Rightarrow> 'p \<Rightarrow> 'p" where
  "run \<equiv> fold (\<lambda>(rq, e) p. fst (issue rq e p))"

lemma run_inv: "inv p \<Longrightarrow> inv (run calls p) \<and> key (run calls p) = key p"
proof (induction calls arbitrary: p)
  case (Cons c calls)
  obtain rq e where c: "c = (rq, e)" by force
  have "inv (fst (issue rq e p))" "key (fst (issue rq e p)) = key p"
    using issue_inv [OF Cons.prems, of rq e] by (metis prod.collapse)+
  with Cons.IH c show ?case by simp
qed simp

lemma run_epoch: "inv p \<Longrightarrow> epoch_of (recorded p v b) \<le> epoch_of (recorded (run calls p) v b)"
proof (induction calls arbitrary: p)
  case (Cons c calls)
  obtain rq e where c: "c = (rq, e)" by force
  obtain p' r where i: "issue rq e p = (p', r)" by force
  from epoch_step [OF Cons.prems i] have "epoch_of (recorded p v b) \<le> epoch_of (recorded p' v b)" .
  also have "\<dots> \<le> epoch_of (recorded (run calls p') v b)"
    using Cons.IH issue_inv [OF Cons.prems i] by blast
  finally show ?case by (simp add: c i)
qed simp

text \<open>Once a receipt has been superseded, no later head reports it again.\<close>

lemma superseded_forever:
  assumes "inv p" and "recorded p v b = Some old"
    and "epoch_of (recorded p v b) < epoch_of (recorded (run calls p) v b)"
    and "head v b ch (run later (run calls p)) = (p', Inr h)"
  shows "hd_witness_epoch h \<noteq> rc_witness_epoch old"
proof -
  let ?q = "run later (run calls p)"
  have inv: "inv (run calls p)" "inv ?q" using assms(1) run_inv by blast+
  have "rc_witness_epoch old < epoch_of (recorded ?q v b)"
    using assms(2,3) run_epoch [OF inv(1), of v b later] by (simp add: epoch_of_def)
  moreover have "hd_witness_epoch h = epoch_of (recorded ?q v b)"
    using head_view [OF inv(2) assms(4)] by (simp add: reports_def)
  ultimately show ?thesis by auto
qed

text \<open>Repeating an acknowledged call, after a lost answer, changes nothing.\<close>

lemma retry_idempotent:
  assumes "inv p" "issue rq e p = (p1, Inr r)" "issue rq e p1 = (p2, res)"
  shows "recorded p2 = recorded p1 \<and> (\<forall>r'. res = Inr r' \<longrightarrow> r' = r)"
proof -
  have inv: "inv p1" using assms issue_inv by blast
  note r = issue_receipt [OF assms(1,2)]
  have same: "recorded p2 = recorded p1"
    using issue_retry [OF inv _ _ _ assms(3)] r by blast
  moreover have "r' = r" if "res = Inr r'" for r'
    using issue_receipt [OF inv, of rq e p2 r'] assms(3) that same r by simp
  ultimately show ?thesis by blast
qed

end

section \<open>The in-process provider keeps the contract\<close>

definition signature_law :: "crypto \<Rightarrow> bool" where
  "signature_law C \<longleftrightarrow> (\<forall>seed m. length seed = 32 \<longrightarrow>
     ed25519_key_ok C (ed25519_public C seed) \<and>
     ed25519_verify C (ed25519_public C seed) m (ed25519_sign C seed m))"

definition im_inv :: "crypto \<Rightarrow> in_memory_provider \<Rightarrow> bool" where
  "im_inv C p \<longleftrightarrow> signature_law C \<and> length (im_signing_key p) = 32 \<and> 0 < im_next_epoch p \<and>
     (\<forall>r \<in> set (im_heads p). rc_public_key r = ed25519_public C (im_signing_key p)
        \<and> signed_by C (ed25519_public C (im_signing_key p)) (receipt_message r) (rc_signature r)
        \<and> rc_witness_epoch r < im_next_epoch p)"

lemma toy_signature_law: "signature_law toy_crypto"
  by (simp add: signature_law_def toy_crypto_def)

lemma receipt_issue_signed:
  assumes "signature_law C" "length k = 32"
  shows "signed_by C (ed25519_public C k) (receipt_message (receipt_issue C rq e k))
    (rc_signature (receipt_issue C rq e k))"
  using assms by (simp add: signature_law_def signed_by_def receipt_issue_def receipt_message_def)

lemma receipt_issue_binds [simp]:
  "binds (receipt_issue C rq e k) rq" "rc_witness_epoch (receipt_issue C rq e k) = e"
  "rc_public_key (receipt_issue C rq e k) = ed25519_public C k"
  "rc_vault_id (receipt_issue C rq e k) = rq_vault_id rq"
  "rc_object_id (receipt_issue C rq e k) = rq_object_id rq"
  by (simp_all add: binds_def receipt_issue_def)

lemma receipt_issue_head_for [simp]:
  "head_for v b (receipt_issue C rq e k) \<longleftrightarrow> v = rq_vault_id rq \<and> b = rq_object_id rq"
  by (auto simp: head_for_def receipt_issue_def)

lemma head_issue_reports:
  "reports (head_issue C v b r ch k) r \<and> hd_vault_id (head_issue C v b r ch k) = v
   \<and> hd_object_id (head_issue C v b r ch k) = b \<and> hd_challenge (head_issue C v b r ch k) = ch
   \<and> hd_public_key (head_issue C v b r ch k) = ed25519_public C k"
  by (simp add: reports_def head_issue_def epoch_of_def Let_def)

lemma head_for_unique: "head_for v b r \<Longrightarrow> head_for v' b' r \<longleftrightarrow> v' = v \<and> b' = b"
  by (auto simp: head_for_def)

lemma find_replace_or_push:
  "head_for v b y \<Longrightarrow> find (head_for v' b') (replace_or_push (head_for v b) y xs) =
     (if v' = v \<and> b' = b then Some y else find (head_for v' b') xs)"
  by (induction xs) (auto simp: head_for_unique)

lemma set_replace_or_push: "set (replace_or_push P y xs) \<subseteq> insert y (set xs)"
  by (induction xs) auto

text \<open>The two ways an issue call can succeed: the same receipt again, or the next epoch.\<close>

lemma im_issue_receipt_cases:
  assumes "im_issue_receipt C rq e p = (p', res)"
  obtains (failed) x where "p' = p" "res = Inl x"
  | (again) r where "p' = p" "res = Inr r" "current_receipt p (rq_vault_id rq) (rq_object_id rq) = Some r"
      "rc_version_id r = rq_version_id rq" "rc_commitment r = rq_commitment rq" "e < rc_witness_epoch r"
  | (advanced) r where "res = Inr r" "r = receipt_issue C rq (im_next_epoch p) (im_signing_key p)"
      "p' = p\<lparr>im_next_epoch := im_next_epoch p + 1,
         im_heads := replace_or_push (head_for (rq_vault_id rq) (rq_object_id rq)) r (im_heads p)\<rparr>"
      "im_next_epoch p < im_next_epoch p + 1"
      "epoch_of (current_receipt p (rq_vault_id rq) (rq_object_id rq)) = e"
proof -
  have less: "w < w + 1" if "unat w + 1 < 2 ^ 64" for w :: u64
    using that by (simp add: word_less_nat_alt unat_word_ariths)
  have adv: thesis
    if "im_advance C rq p = (p', res)" "epoch_of (current_receipt p (rq_vault_id rq) (rq_object_id rq)) = e"
  proof (cases "checked_add (im_next_epoch p) 1")
    case None
    with that(1) failed show thesis by (auto simp: im_advance_def)
  next
    case (Some n)
    then have "n = im_next_epoch p + 1" "im_next_epoch p < im_next_epoch p + 1"
      by (simp_all add: result_simps less)
    with that Some show thesis
      by (intro advanced [OF _ refl]) (simp_all add: im_advance_def Let_def)
  qed
  show thesis
  proof (cases "current_receipt p (rq_vault_id rq) (rq_object_id rq)")
    case None
    with assms failed adv show thesis
      by (auto simp: im_issue_receipt_def epoch_of_def split: if_splits)
  next
    case (Some c)
    with assms failed adv again [OF _ _ Some] show thesis
      by (auto simp: im_issue_receipt_def epoch_of_def split: if_splits)
  qed
qed

lemma im_inv_head:
  assumes "im_inv C p" "current_receipt p v b = Some r"
  shows "rc_vault_id r = v" "rc_object_id r = b" "rc_public_key r = ed25519_public C (im_signing_key p)"
    "signed_by C (rc_public_key r) (receipt_message r) (rc_signature r)"
    "rc_witness_epoch r < im_next_epoch p"
  using assms find_in_set by (fastforce simp: current_receipt_def im_inv_def head_for_def)+

lemma im_epoch_bound:
  assumes "im_inv C p"
  shows "epoch_of (current_receipt p v b) < im_next_epoch p"
proof (cases "current_receipt p v b")
  case None
  with assms show ?thesis by (simp add: epoch_of_def im_inv_def)
next
  case (Some r)
  with im_inv_head(5) [OF assms Some] show ?thesis by (simp add: epoch_of_def)
qed

lemma im_issue_inv:
  assumes "im_inv C p" "im_issue_receipt C rq e p = (p', res)"
  shows "im_inv C p' \<and> im_signing_key p' = im_signing_key p"
  using assms(2)
proof (cases rule: im_issue_receipt_cases)
  case (advanced r)
  let ?hs = "replace_or_push (head_for (rq_vault_id rq) (rq_object_id rq)) r (im_heads p)"
  have heads: "rc_public_key x = ed25519_public C (im_signing_key p)
      \<and> signed_by C (ed25519_public C (im_signing_key p)) (receipt_message x) (rc_signature x)
      \<and> rc_witness_epoch x < im_next_epoch p + 1" if "x \<in> set ?hs" for x
  proof (cases "x = r")
    case True
    with advanced assms(1) show ?thesis
      by (auto simp: im_inv_def intro: receipt_issue_signed)
  next
    case False
    with that set_replace_or_push have "x \<in> set (im_heads p)" by fastforce
    with assms(1) advanced(4) show ?thesis
      unfolding im_inv_def by (meson order_less_trans)
  qed
  have "0 < im_next_epoch p + 1"
    using assms(1) advanced(4) unfolding im_inv_def by (meson order_less_trans)
  with heads assms(1) show ?thesis
    unfolding im_inv_def advanced(3) by simp
qed (use assms in auto)

lemma im_supersedes:
  assumes "im_inv C p" "im_issue_receipt C rq e p = (p', res)"
  shows "current_receipt p' = current_receipt p
    \<or> (\<exists>r. res = Inr r \<and> supersedes (current_receipt p) rq e r
         \<and> current_receipt p' = record_receipt r (current_receipt p))"
  using assms(2)
proof (cases rule: im_issue_receipt_cases)
  case (advanced r)
  have "supersedes (current_receipt p) rq e r"
    using advanced im_epoch_bound [OF assms(1)] by (simp add: supersedes_def)
  moreover have "current_receipt p' v b = record_receipt r (current_receipt p) v b" for v b
    using advanced(2,3) by (simp add: current_receipt_def find_replace_or_push record_receipt_def)
  ultimately show ?thesis using advanced(1) by blast
qed simp_all

interpretation im: witness_provider C "im_issue_receipt C" "im_object_head C" current_receipt
  "\<lambda>p. ed25519_public C (im_signing_key p)" "im_inv C" for C
proof unfold_locales
  fix p rq e p' and res :: "witness_receipt result"
  assume inv: "im_inv C p" and i: "im_issue_receipt C rq e p = (p', res)"
  from im_issue_inv [OF this]
  show "im_inv C p' \<and> ed25519_public C (im_signing_key p') = ed25519_public C (im_signing_key p)" by simp
  from im_supersedes [OF inv i]
  show "current_receipt p' = current_receipt p
      \<or> (\<exists>r. supersedes (current_receipt p) rq e r \<and> current_receipt p' = record_receipt r (current_receipt p))"
    by blast
next
  fix p rq e p' r
  assume inv: "im_inv C p" and i: "im_issue_receipt C rq e p = (p', Inr r)"
  from i show "current_receipt p' (rq_vault_id rq) (rq_object_id rq) = Some r \<and> binds r rq \<and> e < rc_witness_epoch r
      \<and> rc_public_key r = ed25519_public C (im_signing_key p)
      \<and> signed_by C (rc_public_key r) (receipt_message r) (rc_signature r)"
  proof (cases rule: im_issue_receipt_cases)
    case (again r')
    with im_inv_head [OF inv again(3)] show ?thesis by (auto simp: binds_def)
  next
    case (advanced r')
    have "e < im_next_epoch p"
      using im_epoch_bound [OF inv, of "rq_vault_id rq" "rq_object_id rq"] advanced(5) by simp
    with advanced(1-3) inv show ?thesis
      using receipt_issue_signed by (auto simp: im_inv_def current_receipt_def find_replace_or_push)
  qed simp
next
  fix p rq e p'
  assume inv: "im_inv C p" and i: "im_issue_receipt C rq e p = (p', Inl WitnessConflict)"
  from im_supersedes [OF this] show "current_receipt p' = current_receipt p" by simp
next
  fix p rq r e p' and res :: "witness_receipt result"
  assume "im_inv C p" and c: "current_receipt p (rq_vault_id rq) (rq_object_id rq) = Some r"
    and b: "binds r rq" and e: "e < rc_witness_epoch r" and i: "im_issue_receipt C rq e p = (p', res)"
  from i show "current_receipt p' = current_receipt p"
    by (cases rule: im_issue_receipt_cases) (use c b e in \<open>auto simp: epoch_of_def\<close>)
next
  fix p v b ch p' h
  assume "im_inv C p" "im_object_head C v b ch p = (p', Inr h)"
  then show "reports h (current_receipt p v b) \<and> hd_vault_id h = v \<and> hd_object_id h = b
      \<and> hd_challenge h = ch \<and> hd_public_key h = ed25519_public C (im_signing_key p)"
    using head_issue_reports by (auto simp: im_object_head_def)
qed (auto simp: im_object_head_def)

end
