(* ===== verification/Vlt_Sql.thy ===== *)
theory Vlt_Sql
  imports Vlt_Files
begin

text \<open>
  The part of a database connection that the vault store and the witness service share: the committed
  tables, the path of the database file, and the way the sources run SQL through \<open>rusqlite\<close>. A call
  into the engine may fail at any time, as the schedule \<open>faults\<close> of the environment says; every
  source maps that failure to \<open>Storage\<close>. A statement is a function on the tables that returns None
  when it violates a constraint of the schema. A transaction works on the tables and puts the old ones
  back unless it commits. INTEGER columns are integers; \<open>to_sql_u64\<close> and \<open>from_sql_u64\<close>,
  \<open>from_sql_u32\<close> are the range checks of the driver's conversions.
\<close>

record 'db connection = env +
  tables :: 'db
  state_path :: string

section \<open>Values\<close>

definition to_sql_u64 :: "u64 \<Rightarrow> int option" where
  "to_sql_u64 w = (if uint w < 2 ^ 63 then Some (uint w) else None)"

definition to_sql_u32 :: "u32 \<Rightarrow> int" where
  "to_sql_u32 w = uint w"

definition from_sql_u64 :: "int \<Rightarrow> u64 option" where
  "from_sql_u64 i = (if 0 \<le> i \<and> i < 2 ^ 63 then Some (word_of_int i) else None)"

definition from_sql_u32 :: "int \<Rightarrow> u32 option" where
  "from_sql_u32 i = (if 0 \<le> i \<and> i < 2 ^ 32 then Some (word_of_int i) else None)"

lemma from_to_sql_u64: "to_sql_u64 w = Some i \<Longrightarrow> from_sql_u64 i = Some w"
  by (auto simp: to_sql_u64_def from_sql_u64_def split: if_splits)

lemma from_to_sql_u32 [simp]: "from_sql_u32 (to_sql_u32 w) = Some w"
proof -
  have "uint w < 2 ^ 32" using unsigned_less [of w, where 'a = int] by simp
  then show ?thesis by (simp add: to_sql_u32_def from_sql_u32_def)
qed

lemma from_sql_u64_Some: "from_sql_u64 i = Some w \<longleftrightarrow> to_sql_u64 w = Some i"
proof
  assume "from_sql_u64 i = Some w"
  then have "0 \<le> i" "i < 2 ^ 63" "w = word_of_int i"
    by (auto simp: from_sql_u64_def split: if_splits)
  then show "to_sql_u64 w = Some i"
    by (simp add: to_sql_u64_def unsigned_of_int take_bit_int_eq_self)
qed (rule from_to_sql_u64)

lemma to_sql_u64_Some: "to_sql_u64 w = Some i \<Longrightarrow> 0 \<le> i \<and> i < 2 ^ 63 \<and> uint w = i"
  by (auto simp: to_sql_u64_def split: if_splits)

section \<open>Statements and transactions\<close>

definition sql_execute ::
    "('db \<Rightarrow> 'db option) \<Rightarrow> ('db, 'z) connection_scheme \<Rightarrow> ('db, 'z) connection_scheme \<times> unit result" where
  "sql_execute stmt c =
     (case tick c of (c, failed) \<Rightarrow>
        if failed then (c, Inl Storage) else
        case stmt (tables c) of None \<Rightarrow> (c, Inl Storage) | Some t \<Rightarrow> (c\<lparr>tables := t\<rparr>, Inr ()))"

definition sql_query ::
    "('db \<Rightarrow> 'a result) \<Rightarrow> ('db, 'z) connection_scheme \<Rightarrow> ('db, 'z) connection_scheme \<times> 'a result" where
  "sql_query q c = (case tick c of (c, failed) \<Rightarrow> if failed then (c, Inl Storage) else (c, q (tables c)))"

definition transaction ::
    "(('db, 'z) connection_scheme \<Rightarrow> ('db, 'z) connection_scheme \<times> 'a result)
       \<Rightarrow> ('db, 'z) connection_scheme \<Rightarrow> ('db, 'z) connection_scheme \<times> 'a result" where
  "transaction body c =
     (case tick c of (c1, failed) \<Rightarrow>
        if failed then (c1, Inl Storage) else
        case body c1 of
          (c2, Inl e) \<Rightarrow> (c2\<lparr>tables := tables c\<rparr>, Inl e)
        | (c2, Inr x) \<Rightarrow>
            (case tick c2 of (c3, failed) \<Rightarrow>
               if failed then (c3\<lparr>tables := tables c\<rparr>, Inl Storage) else (c3, Inr x)))"

text \<open>\<open>INSERT ... ON CONFLICT ... DO UPDATE\<close>: rows that match are changed, else the row is added.\<close>

definition upsert :: "('a \<Rightarrow> bool) \<Rightarrow> ('a \<Rightarrow> 'a) \<Rightarrow> 'a \<Rightarrow> 'a list \<Rightarrow> 'a list" where
  "upsert P f row rows =
     (if \<exists>x \<in> set rows. P x then map (\<lambda>x. if P x then f x else x) rows else rows @ [row])"

definition enforce_state_files :: "('db, 'z) connection_scheme \<Rightarrow> ('db, 'z) connection_scheme \<times> unit result" where
  "enforce_state_files c = with_files (enforce_owner_private_sqlite_state (state_path c)) c"

text \<open>What opening a database does to the file system, which is to create missing files, and the mode the
  engine reports when asked for write-ahead logging are the engine's.\<close>

record engine =
  open_file :: "string \<Rightarrow> file_system \<Rightarrow> file_system"
  journal_mode :: string

definition is_wal :: "string \<Rightarrow> bool" where
  "is_wal s \<longleftrightarrow> length s = 3 \<and> list_all (\<lambda>(c, cs). c \<in> set cs) (zip s [''wW'', ''aA'', ''lL''])"

definition sql_open :: "engine \<Rightarrow> string \<Rightarrow> 'z env_scheme \<Rightarrow> 'z env_scheme \<times> unit result" where
  "sql_open E path s =
     (case tick s of (s, failed) \<Rightarrow>
        if failed then (s, Inl Storage) else (s\<lparr>files := open_file E path (files s)\<rparr>, Inr ()))"

section \<open>Facts about statements and transactions\<close>

lemma map_of_upsert:
  "map_of (upsert (\<lambda>row. fst row = k) (\<lambda>row. (fst row, v)) (k, v) xs) = (map_of xs)(k \<mapsto> v)"
proof (cases "\<exists>x \<in> set xs. fst x = k")
  case True
  have "map_of (map (\<lambda>x. if fst x = k then (fst x, v) else x) xs) j =
      (if j = k then map_option (\<lambda>_. v) (map_of xs k) else map_of xs j)" for j
    by (induction xs) auto
  moreover from True have "map_of xs k \<noteq> None" unfolding map_of_eq_None_iff by force
  ultimately show ?thesis using True by (auto simp: upsert_def fun_eq_iff)
next
  case False
  then have "map_of xs k = None" unfolding map_of_eq_None_iff by force
  with False show ?thesis by (auto simp: upsert_def map_add_def fun_eq_iff split: option.splits)
qed

lemma find_map_key:
  assumes "\<And>x. key x = k \<Longrightarrow> f x = row" "key row = k"
  shows "find (\<lambda>x. key x = j) (map (\<lambda>x. if key x = k then f x else x) rows) =
    (if j = k then map_option (\<lambda>_. row) (find (\<lambda>x. key x = k) rows) else find (\<lambda>x. key x = j) rows)"
  using assms by (induction rows) auto

lemma find_upsert:
  assumes "\<And>x. key x = k \<Longrightarrow> f x = row" "key row = k"
  shows "find (\<lambda>x. key x = j) (upsert (\<lambda>x. key x = k) f row rows) =
    (if j = k then Some row else find (\<lambda>x. key x = j) rows)"
proof (cases "find (\<lambda>x. key x = k) rows")
  case None
  then have "\<not> (\<exists>x \<in> set rows. key x = k)" by (auto simp: find_None_iff)
  with None assms show ?thesis
    by (auto simp: upsert_def find_snoc split: option.splits)
next
  case (Some x)
  then have "\<exists>x \<in> set rows. key x = k" by (blast dest: find_in_set)
  with Some assms show ?thesis
    by (simp add: upsert_def find_map_key)
qed

lemma tick_simps [simp]:
  "tables (fst (tick c)) = tables c" "state_path (fst (tick c)) = state_path c"
  "files (fst (tick s)) = files s" "rng_state (fst (tick s)) = rng_state s"
  by (simp_all add: tick_def)

lemma sql_execute_Inr [result_simps]:
  "sql_execute stmt c = (c', Inr u) \<longleftrightarrow>
     \<not> faults c 0 \<and> (\<exists>t. stmt (tables c) = Some t \<and> c' = (fst (tick c))\<lparr>tables := t\<rparr>)"
  by (auto simp: sql_execute_def tick_def split: option.splits)

lemma sql_execute_Inl [result_simps]:
  "sql_execute stmt c = (c', Inl e) \<longleftrightarrow>
     (faults c 0 \<or> stmt (tables c) = None) \<and> c' = fst (tick c) \<and> e = Storage"
  by (auto simp: sql_execute_def tick_def split: option.splits)

lemma sql_query_Inr [result_simps]:
  "sql_query q c = (c', Inr x) \<longleftrightarrow> \<not> faults c 0 \<and> q (tables c) = Inr x \<and> c' = fst (tick c)"
  by (auto simp: sql_query_def tick_def)

lemma sql_query_Inl [result_simps]:
  "sql_query q c = (c', Inl e) \<longleftrightarrow>
     c' = fst (tick c) \<and> (if faults c 0 then e = Storage else q (tables c) = Inl e)"
  by (auto simp: sql_query_def tick_def)

text \<open>Whatever fails inside a transaction, the committed tables stay what they were.\<close>

lemma transaction_Inl: "transaction body c = (c', Inl e) \<Longrightarrow> tables c' = tables c"
  by (auto simp: transaction_def tick_def split: prod.splits sum.splits if_splits)

lemma transaction_Inr:
  assumes "transaction body c = (c', Inr x)"
  obtains c2 where "body (fst (tick c)) = (c2, Inr x)" "c' = fst (tick c2)" "\<not> faults c 0" "\<not> faults c2 0"
  using assms by (auto simp: transaction_def tick_def split: prod.splits sum.splits if_splits)

lemma enforce_state_files_frame:
  "enforce_state_files c = (c', r) \<Longrightarrow> tables c' = tables c \<and> state_path c' = state_path c
     \<and> rng_state c' = rng_state c \<and> faults c' = faults c"
  by (auto simp: enforce_state_files_def with_files_def split: prod.splits)

lemma enforce_state_files_errors:
  "enforce_state_files c = (c', Inl e) \<Longrightarrow> e = Storage \<or> e = InvalidInput ''VLT/1 state file type''"
  by (auto simp: enforce_state_files_def with_files_def dest: enforce_sqlite_state_errors split: prod.splits)

text \<open>The random source, the database path and the fields of an extended state are outside the reach of
  statements.\<close>

definition same_outside :: "('db, 'z) connection_scheme \<Rightarrow> ('db, 'z) connection_scheme \<Rightarrow> bool" where
  "same_outside c c' \<longleftrightarrow> rng_state c' = rng_state c \<and> state_path c' = state_path c
     \<and> connection.more c' = connection.more c"

lemma same_outside_refl [simp]: "same_outside c c"
  by (simp add: same_outside_def)

lemma same_outside_trans: "same_outside a b \<Longrightarrow> same_outside b c \<Longrightarrow> same_outside a c"
  by (simp add: same_outside_def)

lemma same_outside_updates [simp]:
  "same_outside c (c'\<lparr>tables := t\<rparr>) = same_outside c c'"
  "same_outside c (c'\<lparr>faults := f\<rparr>) = same_outside c c'"
  "same_outside c (c'\<lparr>files := fs\<rparr>) = same_outside c c'"
  "same_outside c (fst (tick c')) = same_outside c c'"
  by (simp_all add: same_outside_def tick_def)

lemma outside_execute [intro]: "evolves same_outside (sql_execute stmt)"
  by (rule evolvesI) (auto simp: sql_execute_def tick_def split: option.splits if_splits)

lemma outside_query [intro]: "evolves same_outside (sql_query q)"
  by (rule evolvesI) (auto simp: sql_query_def tick_def split: if_splits)

lemma outside_enforce [intro]: "evolves same_outside enforce_state_files"
  by (rule evolvesI) (auto simp: enforce_state_files_def with_files_def split: prod.splits)

lemma outside_then_do [intro]:
  "evolves same_outside m \<Longrightarrow> (\<And>x. evolves same_outside (f x)) \<Longrightarrow> evolves same_outside (then_do m f)"
  by (rule evolves_then_do) (auto intro: same_outside_trans)

lemma outside_return [intro]: "evolves same_outside (\<lambda>c. (c, r))"
  by (simp add: evolves_def)

lemma outside_transaction [intro]:
  assumes "evolves same_outside body"
  shows "evolves same_outside (transaction body)"
proof (rule evolvesI)
  fix c c' r assume "transaction body c = (c', r)"
  moreover have "same_outside c (fst (body (fst (tick c))))"
    using assms unfolding evolves_def by (metis same_outside_trans same_outside_refl same_outside_updates(4))
  ultimately show "same_outside c c'"
    by (auto simp: transaction_def tick_def split: prod.splits sum.splits if_splits)
qed

text \<open>Operations that read only.\<close>

definition same_tables :: "('db, 'z) connection_scheme \<Rightarrow> ('db, 'z) connection_scheme \<Rightarrow> bool" where
  "same_tables c c' \<longleftrightarrow> tables c' = tables c"

lemma same_tables_refl [simp]: "same_tables c c"
  by (simp add: same_tables_def)

lemma reads_query [intro]: "evolves same_tables (sql_query q)"
  by (rule evolvesI) (auto simp: sql_query_def tick_def same_tables_def split: if_splits)

lemma reads_enforce [intro]: "evolves same_tables enforce_state_files"
  by (rule evolvesI) (auto simp: same_tables_def dest: enforce_state_files_frame)

lemma reads_then_do [intro]:
  "evolves same_tables m \<Longrightarrow> (\<And>x. evolves same_tables (f x)) \<Longrightarrow> evolves same_tables (then_do m f)"
  by (rule evolves_then_do) (auto simp: same_tables_def)

lemma reads_return [intro]: "evolves same_tables (\<lambda>c. (c, r))"
  by (simp add: evolves_def)

text \<open>A connection on which no call fails.\<close>

definition healthy :: "('db, 'z) connection_scheme \<Rightarrow> bool" where
  "healthy c \<longleftrightarrow> faults c = (\<lambda>_. False)
     \<and> snd (enforce_owner_private_sqlite_state (state_path c) (files c)) = Inr ()"

lemma healthy_tick: "healthy c \<Longrightarrow> tick c = (c, False)"
  by (cases c) (simp add: healthy_def tick_def)

lemma healthy_tables [simp]: "healthy (c\<lparr>tables := t\<rparr>) = healthy c"
  by (simp add: healthy_def)

lemma healthy_execute: "healthy c \<Longrightarrow> stmt (tables c) = Some t \<Longrightarrow> sql_execute stmt c = (c\<lparr>tables := t\<rparr>, Inr ())"
  by (simp add: sql_execute_def healthy_tick)

lemma healthy_query: "healthy c \<Longrightarrow> sql_query q c = (c, q (tables c))"
  by (simp add: sql_query_def healthy_tick)

lemma healthy_enforce: "healthy c \<Longrightarrow> \<exists>c'. enforce_state_files c = (c', Inr ())"
  by (auto simp: enforce_state_files_def with_files_def healthy_def split: prod.splits)

lemma healthy_after_enforce:
  assumes "healthy c" "enforce_state_files c = (c', r)"
  shows "healthy c' \<and> r = Inr ()"
proof -
  obtain fs where fs: "enforce_owner_private_sqlite_state (state_path c) (files c) = (fs, Inr ())"
    using assms(1) by (metis healthy_def prod.collapse)
  with assms(2) have "c' = c\<lparr>files := fs\<rparr>" "r = Inr ()"
    by (auto simp: enforce_state_files_def with_files_def)
  with assms(1) enforce_private_noop sqlite_state_private [OF fs] show ?thesis by (auto simp: healthy_def)
qed

end
