(* ===== verification/Vlt_Storage.thy ===== *)
theory Vlt_Storage
  imports Vlt_Witness Vlt_Sql "HOL-Library.List_Lexorder"
begin

text \<open>
  The vault's SQLite store, \<open>crates/vlt1-core/src/storage.rs\<close>: the six tables with the constraints of
  the schema, and every statement and transaction of the source as a function of the connection. A
  database file can have been changed by others, so rows carry unconstrained byte strings and integers
  and each read re-checks them. \<open>db_ok\<close> is the part of the schema that the statements maintain:
  keys are unique and child rows have their version. The theory shows that publication, staging and
  finalization are atomic under every schedule of engine failures, keep \<open>db_ok\<close>, and never change a
  row of an immutable version.
\<close>

section \<open>Tables\<close>

record meta_row =
  mr_format_version :: int
  mr_vault_id :: bytes
  mr_root_salt :: bytes
  mr_argon_memory_kib :: int
  mr_argon_iterations :: int
  mr_argon_lanes :: int
  mr_root_nonce :: bytes
  mr_root_ciphertext :: bytes

record object_row =
  ob_object_id :: bytes
  ob_active_version_id :: bytes

record version_row =
  vr_version_id :: bytes
  vr_object_id :: bytes
  vr_wrapped_dek_nonce :: bytes
  vr_wrapped_dek_ciphertext :: bytes
  vr_manifest_nonce :: bytes
  vr_manifest_ciphertext :: bytes
  vr_plaintext_len :: int
  vr_chunk_size :: int
  vr_chunk_count :: int

record chunk_row =
  cr_version_id :: bytes
  cr_chunk_index :: int
  cr_nonce :: bytes
  cr_ciphertext :: bytes

record pending_row =
  pr_version_id :: bytes
  pr_expected_epoch :: int

record freshness_row =
  fr_version_id :: bytes
  fr_vault_id :: bytes
  fr_object_id :: bytes
  fr_witness_epoch :: int
  fr_commitment :: bytes
  fr_witness_public_key :: bytes
  fr_signature :: bytes

record database =
  vault_meta :: "meta_row option"
  objects :: "object_row list"
  versions :: "version_row list"
  chunk_rows :: "chunk_row list"
  pending_rows :: "pending_row list"
  freshness_rows :: "freshness_row list"

definition empty_database :: database where
  "empty_database = \<lparr>vault_meta = None, objects = [], versions = [], chunk_rows = [], pending_rows = [],
     freshness_rows = []\<rparr>"

record stored_version =
  sv_object_id :: object_id
  sv_version_id :: version_id
  sv_wrapped_dek :: sealed_record
  sv_manifest :: sealed_record
  sv_plaintext_len :: u64
  sv_chunk_size :: u32
  sv_chunk_count :: u32

type_synonym 'z store = "(database, 'z) connection_scheme"

section \<open>Column conversions\<close>

definition bytes12 :: "bytes \<Rightarrow> bytes result" where
  "bytes12 bs = (if length bs = 12 then Inr bs else Inl (invalid_format ''invalid 96-bit nonce length''))"

definition bytes16 :: "bytes \<Rightarrow> bytes result" where
  "bytes16 bs = (if length bs = 16 then Inr bs else Inl (invalid_format ''invalid 128-bit identifier length''))"

definition bytes32 :: "bytes \<Rightarrow> bytes result" where
  "bytes32 bs = (if length bs = 32 then Inr bs else Inl (invalid_format ''invalid 256-bit length''))"

definition bytes64 :: "bytes \<Rightarrow> bytes result" where
  "bytes64 bs = (if length bs = 64 then Inr bs else Inl (invalid_format ''invalid 512-bit signature length''))"

section \<open>Statements\<close>

definition version_exists :: "bytes \<Rightarrow> database \<Rightarrow> bool" where
  "version_exists ver t \<longleftrightarrow> (\<exists>row \<in> set (versions t). vr_version_id row = ver)"

definition insert_version_row :: "version_row \<Rightarrow> database \<Rightarrow> database option" where
  "insert_version_row row t =
     (if length (vr_version_id row) = 16 \<and> length (vr_object_id row) = 16
         \<and> length (vr_wrapped_dek_nonce row) = 12 \<and> length (vr_manifest_nonce row) = 12
         \<and> vr_plaintext_len row \<ge> 0 \<and> vr_chunk_size row > 0 \<and> vr_chunk_count row \<ge> 0
         \<and> \<not> version_exists (vr_version_id row) t
      then Some (t\<lparr>versions := versions t @ [row]\<rparr>) else None)"

definition insert_version :: "stored_version \<Rightarrow> database \<Rightarrow> database option" where
  "insert_version v t =
     (case to_sql_u64 (sv_plaintext_len v) of
        None \<Rightarrow> None
      | Some plaintext_len \<Rightarrow> insert_version_row
          \<lparr>vr_version_id = sv_version_id v, vr_object_id = sv_object_id v,
           vr_wrapped_dek_nonce = nonce (sv_wrapped_dek v),
           vr_wrapped_dek_ciphertext = ciphertext (sv_wrapped_dek v),
           vr_manifest_nonce = nonce (sv_manifest v), vr_manifest_ciphertext = ciphertext (sv_manifest v),
           vr_plaintext_len = plaintext_len, vr_chunk_size = to_sql_u32 (sv_chunk_size v),
           vr_chunk_count = to_sql_u32 (sv_chunk_count v)\<rparr> t)"

definition insert_streaming_placeholder ::
    "object_id \<Rightarrow> version_id \<Rightarrow> sealed_record \<Rightarrow> u32 \<Rightarrow> database \<Rightarrow> database option" where
  "insert_streaming_placeholder oid ver wrapped_dek chunk_size =
     insert_version_row
       \<lparr>vr_version_id = ver, vr_object_id = oid, vr_wrapped_dek_nonce = nonce wrapped_dek,
        vr_wrapped_dek_ciphertext = ciphertext wrapped_dek, vr_manifest_nonce = replicate 12 0,
        vr_manifest_ciphertext = [], vr_plaintext_len = 0, vr_chunk_size = to_sql_u32 chunk_size,
        vr_chunk_count = 0\<rparr>"

definition insert_chunk :: "version_id \<Rightarrow> encrypted_chunk \<Rightarrow> database \<Rightarrow> database option" where
  "insert_chunk ver chunk t =
     (let index = to_sql_u32 (ck_index chunk) in
      if length ver = 16 \<and> index \<ge> 0 \<and> length (nonce (ck_record chunk)) = 12
         \<and> \<not> (\<exists>row \<in> set (chunk_rows t). cr_version_id row = ver \<and> cr_chunk_index row = index)
         \<and> \<not> (\<exists>row \<in> set (chunk_rows t). cr_version_id row = ver \<and> cr_nonce row = nonce (ck_record chunk))
         \<and> version_exists ver t
      then Some (t\<lparr>chunk_rows := chunk_rows t @ [\<lparr>cr_version_id = ver, cr_chunk_index = index,
             cr_nonce = nonce (ck_record chunk), cr_ciphertext = ciphertext (ck_record chunk)\<rparr>]\<rparr>)
      else None)"

definition insert_receipt :: "witness_receipt \<Rightarrow> database \<Rightarrow> database option" where
  "insert_receipt r t =
     (case to_sql_u64 (rc_witness_epoch r) of
        None \<Rightarrow> None
      | Some epoch \<Rightarrow>
          if length (rc_version_id r) = 16 \<and> length (rc_vault_id r) = 16 \<and> length (rc_object_id r) = 16
             \<and> epoch \<ge> 0 \<and> length (rc_commitment r) = 32 \<and> length (rc_public_key r) = 32
             \<and> length (rc_signature r) = 64
             \<and> \<not> (\<exists>row \<in> set (freshness_rows t). fr_version_id row = rc_version_id r)
             \<and> \<not> (\<exists>row \<in> set (freshness_rows t).
                   fr_witness_public_key row = rc_public_key r \<and> fr_witness_epoch row = epoch)
             \<and> version_exists (rc_version_id r) t
          then Some (t\<lparr>freshness_rows := freshness_rows t @
            [\<lparr>fr_version_id = rc_version_id r, fr_vault_id = rc_vault_id r, fr_object_id = rc_object_id r,
              fr_witness_epoch = epoch, fr_commitment = rc_commitment r,
              fr_witness_public_key = rc_public_key r, fr_signature = rc_signature r\<rparr>]\<rparr>)
          else None)"

definition set_active :: "object_id \<Rightarrow> version_id \<Rightarrow> database \<Rightarrow> database option" where
  "set_active oid ver t =
     (if length oid = 16 \<and> length ver = 16
      then Some (t\<lparr>objects := upsert (\<lambda>row. ob_object_id row = oid) (\<lambda>row. row\<lparr>ob_active_version_id := ver\<rparr>)
             \<lparr>ob_object_id = oid, ob_active_version_id = ver\<rparr> (objects t)\<rparr>)
      else None)"

definition insert_pending :: "version_id \<Rightarrow> u64 \<Rightarrow> database \<Rightarrow> database option" where
  "insert_pending ver expected_epoch t =
     (case to_sql_u64 expected_epoch of
        None \<Rightarrow> None
      | Some epoch \<Rightarrow>
          if length ver = 16 \<and> epoch \<ge> 0 \<and> \<not> (\<exists>row \<in> set (pending_rows t). pr_version_id row = ver)
             \<and> version_exists ver t
          then Some (t\<lparr>pending_rows := pending_rows t @ [\<lparr>pr_version_id = ver, pr_expected_epoch = epoch\<rparr>]\<rparr>)
          else None)"

definition delete_pending :: "version_id \<Rightarrow> database \<Rightarrow> database option" where
  "delete_pending ver t = Some (t\<lparr>pending_rows := filter (\<lambda>row. pr_version_id row \<noteq> ver) (pending_rows t)\<rparr>)"

definition finish_version :: "sealed_record \<Rightarrow> u64 \<Rightarrow> u32 \<Rightarrow> version_id \<Rightarrow> object_id \<Rightarrow> database \<Rightarrow> database option" where
  "finish_version m plaintext_len chunk_count ver oid t =
     (case to_sql_u64 plaintext_len of
        None \<Rightarrow> None
      | Some len \<Rightarrow>
          if length (nonce m) = 12 \<and> len \<ge> 0
          then Some (t\<lparr>versions := map (\<lambda>row.
             if vr_version_id row = ver \<and> vr_object_id row = oid
             then row\<lparr>vr_manifest_nonce := nonce m, vr_manifest_ciphertext := ciphertext m,
                      vr_plaintext_len := len, vr_chunk_count := to_sql_u32 chunk_count\<rparr>
             else row) (versions t)\<rparr>)
          else None)"

definition insert_envelope_row :: "root_envelope \<Rightarrow> database \<Rightarrow> database option" where
  "insert_envelope_row env t =
     (if vault_meta t = None \<and> length (env_vault_id env) = 16 \<and> length (env_salt env) = 16
         \<and> length (nonce (env_record env)) = 12
      then Some (t\<lparr>vault_meta := Some \<lparr>mr_format_version = to_sql_u32 FORMAT_VERSION,
             mr_vault_id = env_vault_id env, mr_root_salt = env_salt env,
             mr_argon_memory_kib = to_sql_u32 (memory_kib (env_params env)),
             mr_argon_iterations = to_sql_u32 (iterations (env_params env)),
             mr_argon_lanes = to_sql_u32 (lanes (env_params env)),
             mr_root_nonce = nonce (env_record env), mr_root_ciphertext = ciphertext (env_record env)\<rparr>\<rparr>)
      else None)"

definition update_envelope_row :: "root_envelope \<Rightarrow> database \<Rightarrow> database option" where
  "update_envelope_row env t =
     (case vault_meta t of
        None \<Rightarrow> Some t
      | Some row \<Rightarrow>
          if mr_vault_id row \<noteq> env_vault_id env then Some t
          else if length (env_salt env) = 16 \<and> length (nonce (env_record env)) = 12
          then Some (t\<lparr>vault_meta := Some (row\<lparr>mr_root_salt := env_salt env,
             mr_argon_memory_kib := to_sql_u32 (memory_kib (env_params env)),
             mr_argon_iterations := to_sql_u32 (iterations (env_params env)),
             mr_argon_lanes := to_sql_u32 (lanes (env_params env)),
             mr_root_nonce := nonce (env_record env), mr_root_ciphertext := ciphertext (env_record env)\<rparr>)\<rparr>)
          else None)"

section \<open>Reading\<close>

definition select_envelope :: "crypto \<Rightarrow> database \<Rightarrow> root_envelope result" where
  "select_envelope C t =
     (case vault_meta t of
        None \<Rightarrow> Inl NotFound
      | Some row \<Rightarrow>
          and_then (ok_or Storage (from_sql_u32 (mr_format_version row))) (\<lambda>format_version.
          and_then (ok_or Storage (from_sql_u32 (mr_argon_memory_kib row))) (\<lambda>m.
          and_then (ok_or Storage (from_sql_u32 (mr_argon_iterations row))) (\<lambda>i.
          and_then (ok_or Storage (from_sql_u32 (mr_argon_lanes row))) (\<lambda>l.
          if format_version \<noteq> FORMAT_VERSION then Inl (invalid_format ''unsupported vault format version'')
          else let p = \<lparr>memory_kib = m, iterations = i, lanes = l\<rparr> in
          and_then (validate_persisted C p) (\<lambda>_.
          and_then (from_slice (mr_vault_id row)) (\<lambda>vid.
          and_then (bytes16 (mr_root_salt row)) (\<lambda>salt.
          and_then (bytes12 (mr_root_nonce row)) (\<lambda>n.
          Inr \<lparr>env_vault_id = vid, env_salt = salt, env_params = p,
               env_record = \<lparr>nonce = n, ciphertext = mr_root_ciphertext row\<rparr>\<rparr>)))))))))"

definition root_envelope_of :: "crypto \<Rightarrow> 'z store \<Rightarrow> 'z store \<times> root_envelope result" where
  "root_envelope_of C = sql_query (select_envelope C)"

definition select_version :: "version_id \<Rightarrow> database \<Rightarrow> stored_version result" where
  "select_version ver t =
     (case find (\<lambda>row. vr_version_id row = ver) (versions t) of
        None \<Rightarrow> Inl NotFound
      | Some row \<Rightarrow>
          and_then (ok_or Storage (from_sql_u64 (vr_plaintext_len row))) (\<lambda>plaintext_len.
          and_then (ok_or Storage (from_sql_u32 (vr_chunk_size row))) (\<lambda>chunk_size.
          and_then (ok_or Storage (from_sql_u32 (vr_chunk_count row))) (\<lambda>chunk_count.
          and_then (from_slice (vr_object_id row)) (\<lambda>oid.
          and_then (from_slice (vr_version_id row)) (\<lambda>ver.
          and_then (bytes12 (vr_wrapped_dek_nonce row)) (\<lambda>wn.
          and_then (bytes12 (vr_manifest_nonce row)) (\<lambda>mn.
          Inr \<lparr>sv_object_id = oid, sv_version_id = ver,
               sv_wrapped_dek = \<lparr>nonce = wn, ciphertext = vr_wrapped_dek_ciphertext row\<rparr>,
               sv_manifest = \<lparr>nonce = mn, ciphertext = vr_manifest_ciphertext row\<rparr>,
               sv_plaintext_len = plaintext_len, sv_chunk_size = chunk_size,
               sv_chunk_count = chunk_count\<rparr>))))))))"

definition version_of :: "version_id \<Rightarrow> 'z store \<Rightarrow> 'z store \<times> stored_version result" where
  "version_of ver = sql_query (select_version ver)"

definition select_active :: "object_id \<Rightarrow> database \<Rightarrow> bytes result" where
  "select_active oid t =
     ok_or NotFound (map_option ob_active_version_id (find (\<lambda>row. ob_object_id row = oid) (objects t)))"

definition active_version :: "object_id \<Rightarrow> 'z store \<Rightarrow> 'z store \<times> stored_version result" where
  "active_version oid =
     then_do (sql_query (select_active oid)) (\<lambda>bs c.
     case from_slice bs of Inl e \<Rightarrow> (c, Inl e) | Inr ver \<Rightarrow> version_of ver c)"

definition select_receipt :: "crypto \<Rightarrow> version_id \<Rightarrow> database \<Rightarrow> witness_receipt option result" where
  "select_receipt C ver t =
     (case find (\<lambda>row. fr_version_id row = ver) (freshness_rows t) of
        None \<Rightarrow> Inr None
      | Some row \<Rightarrow>
          and_then (ok_or Storage (from_sql_u64 (fr_witness_epoch row))) (\<lambda>epoch.
          and_then (from_slice (fr_vault_id row)) (\<lambda>vid.
          and_then (from_slice (fr_object_id row)) (\<lambda>oid.
          and_then (from_slice (fr_version_id row)) (\<lambda>ver.
          and_then (bytes32 (fr_commitment row)) (\<lambda>commitment.
          and_then (bytes32 (fr_witness_public_key row)) (\<lambda>public_key.
          and_then (bytes64 (fr_signature row)) (\<lambda>signature.
          and_then (receipt_new C \<lparr>rc_vault_id = vid, rc_object_id = oid, rc_version_id = ver,
            rc_witness_epoch = epoch, rc_commitment = commitment, rc_public_key = public_key,
            rc_signature = signature\<rparr>) (\<lambda>r. Inr (Some r))))))))))"

definition receipt_of :: "crypto \<Rightarrow> version_id \<Rightarrow> 'z store \<Rightarrow> 'z store \<times> witness_receipt option result" where
  "receipt_of C ver = sql_query (select_receipt C ver)"

definition active_receipt :: "crypto \<Rightarrow> object_id \<Rightarrow> 'z store \<Rightarrow> 'z store \<times> witness_receipt option result" where
  "active_receipt C oid c =
     (case active_version oid c of
        (c, Inr v) \<Rightarrow> receipt_of C (sv_version_id v) c
      | (c, Inl NotFound) \<Rightarrow> (c, Inr None)
      | (c, Inl e) \<Rightarrow> (c, Inl e))"

section \<open>Opening a database\<close>

text \<open>An unopened database is a connection whose tables are what the file holds, or empty tables when
  there is no file yet. Creating the missing tables of the schema changes no row.\<close>

definition open_connection :: "engine \<Rightarrow> string \<Rightarrow> 'z store \<Rightarrow> 'z store \<times> unit result" where
  "open_connection E path =
     then_do (sql_open E path) (\<lambda>_.
     then_do (sql_query (\<lambda>_. if is_wal (journal_mode E) then Inr () else Inl Storage)) (\<lambda>_.
     then_do (sql_query (\<lambda>_. Inr ())) (\<lambda>_ c.
     (c\<lparr>state_path := path\<rparr>, Inr ()))))"

definition initialize_schema :: "'z store \<Rightarrow> 'z store \<times> unit result" where
  "initialize_schema = sql_execute Some"

definition insert_envelope :: "root_envelope \<Rightarrow> 'z store \<Rightarrow> 'z store \<times> unit result" where
  "insert_envelope env = sql_execute (insert_envelope_row env)"

definition storage_create :: "engine \<Rightarrow> string \<Rightarrow> root_envelope \<Rightarrow> 'z store \<Rightarrow> 'z store \<times> unit result" where
  "storage_create E path env c =
     (case validate_new_regular_file (files c) path ''vault database path'' of
        Inl e \<Rightarrow> (c, Inl e)
      | Inr _ \<Rightarrow>
          then_do (open_connection E path) (\<lambda>_.
          then_do initialize_schema (\<lambda>_.
          then_do (insert_envelope env) (\<lambda>_. enforce_state_files))) c)"

definition storage_open :: "engine \<Rightarrow> string \<Rightarrow> 'z store \<Rightarrow> 'z store \<times> unit result" where
  "storage_open E path c =
     (case validate_existing_regular_file (files c) path ''vault database path'' of
        Inl e \<Rightarrow> (c, Inl e)
      | Inr _ \<Rightarrow>
          then_do (open_connection E path) (\<lambda>_.
          then_do initialize_schema (\<lambda>_. enforce_state_files)) c)"

text \<open>The number of rows that the update of the envelope changes is one or zero.\<close>

definition envelope_matches :: "root_envelope \<Rightarrow> database \<Rightarrow> bool" where
  "envelope_matches env t \<longleftrightarrow>
     (case vault_meta t of None \<Rightarrow> False | Some row \<Rightarrow> mr_vault_id row = env_vault_id env)"

definition replace_root_envelope :: "root_envelope \<Rightarrow> 'z store \<Rightarrow> 'z store \<times> unit result" where
  "replace_root_envelope env c =
     then_do (sql_execute (update_envelope_row env)) (\<lambda>_ c.
       if \<not> envelope_matches env (tables c) then (c, Inl (Invariant ''Root Key envelope replacement''))
       else enforce_state_files c) c"

section \<open>Publishing\<close>

primrec insert_chunks :: "version_id \<Rightarrow> encrypted_chunk list \<Rightarrow> 'z store \<Rightarrow> 'z store \<times> unit result" where
  "insert_chunks ver [] c = (c, Inr ())"
| "insert_chunks ver (chunk # cs) c =
     then_do (sql_execute (insert_chunk ver chunk)) (\<lambda>_. insert_chunks ver cs) c"

definition publish_inner ::
    "stored_version \<Rightarrow> encrypted_chunk list \<Rightarrow> witness_receipt option \<Rightarrow> 'z store \<Rightarrow> 'z store \<times> unit result" where
  "publish_inner v cs receipt c =
     (if length cs \<noteq> unat (sv_chunk_count v)
      then (c, Inl (Invariant ''chunk count does not match version metadata''))
      else
        then_do (transaction (
          then_do (sql_execute (insert_version v)) (\<lambda>_.
          then_do (insert_chunks (sv_version_id v) cs) (\<lambda>_.
          then_do (case receipt of None \<Rightarrow> (\<lambda>c. (c, Inr ())) | Some r \<Rightarrow> sql_execute (insert_receipt r)) (\<lambda>_.
          sql_execute (set_active (sv_object_id v) (sv_version_id v))))))) (\<lambda>_. enforce_state_files) c)"

definition publish :: "stored_version \<Rightarrow> encrypted_chunk list \<Rightarrow> 'z store \<Rightarrow> 'z store \<times> unit result" where
  "publish v cs = publish_inner v cs None"

section \<open>Streaming publication\<close>

text \<open>The open transaction of a \<open>StreamingPublication\<close> is the enclosing \<open>transaction\<close>: dropping the
  publication rolls back, and its commit and the enforcement of file modes end \<open>finish\<close>.\<close>

record streaming_publication =
  sp_object_id :: object_id
  sp_version_id :: version_id
  sp_next_chunk_index :: u32
  sp_plaintext_len :: u64

definition begin_streaming_publication ::
    "object_id \<Rightarrow> version_id \<Rightarrow> sealed_record \<Rightarrow> u32 \<Rightarrow> 'z store \<Rightarrow> 'z store \<times> streaming_publication result" where
  "begin_streaming_publication oid ver wrapped_dek chunk_size =
     then_do (sql_execute (insert_streaming_placeholder oid ver wrapped_dek chunk_size)) (\<lambda>_ c.
       (c, Inr \<lparr>sp_object_id = oid, sp_version_id = ver, sp_next_chunk_index = 0, sp_plaintext_len = 0\<rparr>))"

definition append_chunk ::
    "encrypted_chunk \<Rightarrow> u32 \<Rightarrow> streaming_publication \<Rightarrow> 'z store \<Rightarrow> 'z store \<times> streaming_publication result" where
  "append_chunk chunk plaintext_len p c =
     (if ck_index chunk \<noteq> sp_next_chunk_index p then (c, Inl (Invariant ''streamed chunk index''))
      else then_do (sql_execute (insert_chunk (sp_version_id p) chunk)) (\<lambda>_ c. (c,
        and_then (ok_or (Invariant ''streamed chunk count'') (checked_add (sp_next_chunk_index p) 1)) (\<lambda>i.
        and_then (ok_or (Invariant ''streamed plaintext length'')
          (checked_add (sp_plaintext_len p) (ucast plaintext_len))) (\<lambda>len.
        Inr (p\<lparr>sp_next_chunk_index := i, sp_plaintext_len := len\<rparr>))))) c)"

definition matching_versions :: "version_id \<Rightarrow> object_id \<Rightarrow> database \<Rightarrow> version_row list" where
  "matching_versions ver oid t = filter (\<lambda>row. vr_version_id row = ver \<and> vr_object_id row = oid) (versions t)"

definition finish :: "sealed_record \<Rightarrow> u32 \<Rightarrow> streaming_publication \<Rightarrow> 'z store \<Rightarrow> 'z store \<times> unit result" where
  "finish m chunk_count p c =
     (if chunk_count \<noteq> sp_next_chunk_index p then (c, Inl (Invariant ''streamed Manifest chunk count''))
      else
        then_do (sql_execute (finish_version m (sp_plaintext_len p) chunk_count (sp_version_id p) (sp_object_id p)))
          (\<lambda>_ c.
          if length (matching_versions (sp_version_id p) (sp_object_id p) (tables c)) \<noteq> 1
          then (c, Inl (Invariant ''streamed version finalization''))
          else sql_execute (set_active (sp_object_id p) (sp_version_id p)) c) c)"

section \<open>Staged witness publication\<close>

definition stage_witness_publication ::
    "stored_version \<Rightarrow> encrypted_chunk list \<Rightarrow> u64 \<Rightarrow> 'z store \<Rightarrow> 'z store \<times> unit result" where
  "stage_witness_publication v cs expected_epoch c =
     (if length cs \<noteq> unat (sv_chunk_count v)
      then (c, Inl (Invariant ''chunk count does not match version metadata''))
      else
        then_do (transaction (
          then_do (sql_execute (insert_version v)) (\<lambda>_.
          then_do (insert_chunks (sv_version_id v) cs) (\<lambda>_.
          sql_execute (insert_pending (sv_version_id v) expected_epoch))))) (\<lambda>_. enforce_state_files) c)"

definition select_staged :: "version_id \<Rightarrow> database \<Rightarrow> u64 result" where
  "select_staged ver t =
     (case find (\<lambda>row. pr_version_id row = ver) (pending_rows t) of
        None \<Rightarrow> Inl (Invariant ''missing staged witness publication'')
      | Some row \<Rightarrow> ok_or Storage (from_sql_u64 (pr_expected_epoch row)))"

definition finalize_witness_publication ::
    "stored_version \<Rightarrow> witness_receipt \<Rightarrow> 'z store \<Rightarrow> 'z store \<times> unit result" where
  "finalize_witness_publication v r c =
     (if rc_object_id r \<noteq> sv_object_id v \<or> rc_version_id r \<noteq> sv_version_id v
      then (c, Inl (Invariant ''freshness receipt version binding''))
      else
        then_do (transaction (
          then_do (sql_query (select_staged (sv_version_id v))) (\<lambda>_.
          then_do (sql_execute (insert_receipt r)) (\<lambda>_.
          then_do (sql_execute (set_active (sv_object_id v) (sv_version_id v))) (\<lambda>_.
          sql_execute (delete_pending (sv_version_id v))))))) (\<lambda>_. enforce_state_files) c)"

text \<open>Preparing a statement, running it, and stepping to each row and past the last one are calls into
  the engine.\<close>

definition sql_select :: "(database \<Rightarrow> 'a list) \<Rightarrow> 'z store \<Rightarrow> 'z store \<times> 'a list result" where
  "sql_select q = then_do (sql_query (\<lambda>_. Inr ())) (\<lambda>_. sql_query (\<lambda>t. Inr (q t)))"

primrec collect_pending ::
    "pending_row list \<Rightarrow> (stored_version \<times> u64) list \<Rightarrow> 'z store \<Rightarrow> 'z store \<times> (stored_version \<times> u64) list result" where
  "collect_pending [] pending c = then_do (sql_query (\<lambda>_. Inr ())) (\<lambda>_ c. (c, Inr pending)) c"
| "collect_pending (row # rows) pending c =
     then_do (sql_query (\<lambda>_. ok_or Storage (from_sql_u64 (pr_expected_epoch row)))) (\<lambda>expected_epoch c.
     case from_slice (pr_version_id row) of
       Inl e \<Rightarrow> (c, Inl e)
     | Inr ver \<Rightarrow>
         then_do (version_of ver) (\<lambda>v. collect_pending rows (pending @ [(v, expected_epoch)])) c) c"

definition pending_witness_publications :: "'z store \<Rightarrow> 'z store \<times> (stored_version \<times> u64) list result" where
  "pending_witness_publications =
     then_do (sql_select (\<lambda>t. sort_key pr_version_id (pending_rows t))) (\<lambda>rows. collect_pending rows [])"

section \<open>Integrity, checkpoint and traversal\<close>

text \<open>\<open>integrity_check\<close> and \<open>busy\<close> are what the engine reports for the two pragmas. The first column of
  \<open>PRAGMA foreign_key_check\<close> is the name of the child table, which does not convert to the \<open>i64\<close> the
  source asks for.\<close>

definition foreign_keys_ok :: "database \<Rightarrow> bool" where
  "foreign_keys_ok t \<longleftrightarrow>
     list_all (\<lambda>row. version_exists (cr_version_id row) t) (chunk_rows t)
     \<and> list_all (\<lambda>row. version_exists (pr_version_id row) t) (pending_rows t)
     \<and> list_all (\<lambda>row. version_exists (fr_version_id row) t) (freshness_rows t)"

definition active_pointers_ok :: "database \<Rightarrow> bool" where
  "active_pointers_ok t \<longleftrightarrow>
     list_all (\<lambda>ob. \<exists>row \<in> set (versions t).
       vr_version_id row = ob_active_version_id ob \<and> vr_object_id row = ob_object_id ob) (objects t)"

definition startup_integrity_check :: "(database \<Rightarrow> string) \<Rightarrow> 'z store \<Rightarrow> 'z store \<times> unit result" where
  "startup_integrity_check integrity_check =
     then_do (sql_query (\<lambda>t.
       if integrity_check t \<noteq> ''ok'' then Inl (Invariant ''SQLite integrity_check'') else Inr ())) (\<lambda>_.
     then_do (sql_query (\<lambda>t. if foreign_keys_ok t then Inr () else Inl Storage)) (\<lambda>_.
     then_do (sql_query (\<lambda>t.
       if active_pointers_ok t then Inr () else Inl (Invariant ''active version pointer binding''))) (\<lambda>_.
     sql_query (\<lambda>t.
       if list_all (\<lambda>row. version_exists (pr_version_id row) t) (pending_rows t) then Inr ()
       else Inl (Invariant ''pending witness publication binding'')))))"

definition storage_full_checkpoint :: "(database \<Rightarrow> int) \<Rightarrow> 'z store \<Rightarrow> 'z store \<times> unit result" where
  "storage_full_checkpoint busy = sql_query (\<lambda>t. if busy t \<noteq> 0 then Inl Storage else Inr ())"

primrec collect_ids :: "object_row list \<Rightarrow> object_id list \<Rightarrow> 'z store \<Rightarrow> 'z store \<times> object_id list result" where
  "collect_ids [] ids c = then_do (sql_query (\<lambda>_. Inr ())) (\<lambda>_ c. (c, Inr ids)) c"
| "collect_ids (row # rows) ids c =
     then_do (sql_query (\<lambda>_. from_slice (ob_object_id row))) (\<lambda>oid. collect_ids rows (ids @ [oid])) c"

definition active_object_ids :: "'z store \<Rightarrow> 'z store \<times> object_id list result" where
  "active_object_ids =
     then_do (sql_select (\<lambda>t. sort_key ob_object_id (objects t))) (\<lambda>rows. collect_ids rows [])"

text \<open>The visitor is a closure over a state \<open>'a\<close>, whose value also survives an error.\<close>

definition row_chunk :: "chunk_row \<Rightarrow> encrypted_chunk result" where
  "row_chunk row =
     and_then (ok_or Storage (from_sql_u32 (cr_chunk_index row))) (\<lambda>index.
     and_then (bytes12 (cr_nonce row)) (\<lambda>n.
     Inr \<lparr>ck_index = index, ck_record = \<lparr>nonce = n, ciphertext = cr_ciphertext row\<rparr>\<rparr>))"

primrec visit_rows ::
    "(encrypted_chunk \<Rightarrow> 'a \<Rightarrow> 'a \<times> unit result) \<Rightarrow> chunk_row list
       \<Rightarrow> 'z store \<Rightarrow> 'a \<Rightarrow> 'z store \<times> 'a \<times> unit result" where
  "visit_rows visit [] c a = (case sql_query (\<lambda>_. Inr ()) c of (c, r) \<Rightarrow> (c, a, r))"
| "visit_rows visit (row # rows) c a =
     (case sql_query (\<lambda>_. row_chunk row) c of
        (c, Inl e) \<Rightarrow> (c, a, Inl e)
      | (c, Inr chunk) \<Rightarrow>
          (case visit chunk a of
             (a, Inl e) \<Rightarrow> (c, a, Inl e)
           | (a, Inr _) \<Rightarrow> visit_rows visit rows c a))"

definition version_chunks :: "version_id \<Rightarrow> database \<Rightarrow> chunk_row list" where
  "version_chunks ver t = sort_key cr_chunk_index (filter (\<lambda>row. cr_version_id row = ver) (chunk_rows t))"

definition visit_chunks ::
    "version_id \<Rightarrow> (encrypted_chunk \<Rightarrow> 'a \<Rightarrow> 'a \<times> unit result)
       \<Rightarrow> 'z store \<Rightarrow> 'a \<Rightarrow> 'z store \<times> 'a \<times> unit result" where
  "visit_chunks ver visit c a =
     (case sql_select (version_chunks ver) c of
        (c, Inl e) \<Rightarrow> (c, a, Inl e)
      | (c, Inr rows) \<Rightarrow> visit_rows visit rows c a)"

section \<open>The effect of a publication\<close>

definition stored_row :: "stored_version \<Rightarrow> version_row" where
  "stored_row v =
     \<lparr>vr_version_id = sv_version_id v, vr_object_id = sv_object_id v,
      vr_wrapped_dek_nonce = nonce (sv_wrapped_dek v), vr_wrapped_dek_ciphertext = ciphertext (sv_wrapped_dek v),
      vr_manifest_nonce = nonce (sv_manifest v), vr_manifest_ciphertext = ciphertext (sv_manifest v),
      vr_plaintext_len = uint (sv_plaintext_len v), vr_chunk_size = to_sql_u32 (sv_chunk_size v),
      vr_chunk_count = to_sql_u32 (sv_chunk_count v)\<rparr>"

definition stored_chunk_row :: "version_id \<Rightarrow> encrypted_chunk \<Rightarrow> chunk_row" where
  "stored_chunk_row ver chunk =
     \<lparr>cr_version_id = ver, cr_chunk_index = to_sql_u32 (ck_index chunk),
      cr_nonce = nonce (ck_record chunk), cr_ciphertext = ciphertext (ck_record chunk)\<rparr>"

definition stored_receipt_row :: "witness_receipt \<Rightarrow> freshness_row" where
  "stored_receipt_row r =
     \<lparr>fr_version_id = rc_version_id r, fr_vault_id = rc_vault_id r, fr_object_id = rc_object_id r,
      fr_witness_epoch = uint (rc_witness_epoch r), fr_commitment = rc_commitment r,
      fr_witness_public_key = rc_public_key r, fr_signature = rc_signature r\<rparr>"

definition activate :: "object_id \<Rightarrow> version_id \<Rightarrow> object_row list \<Rightarrow> object_row list" where
  "activate oid ver = upsert (\<lambda>row. ob_object_id row = oid) (\<lambda>row. row\<lparr>ob_active_version_id := ver\<rparr>)
     \<lparr>ob_object_id = oid, ob_active_version_id = ver\<rparr>"

text \<open>What the schema demands of a version that is inserted.\<close>

definition version_fits :: "stored_version \<Rightarrow> bool" where
  "version_fits v \<longleftrightarrow> length (sv_version_id v) = 16 \<and> length (sv_object_id v) = 16
     \<and> length (nonce (sv_wrapped_dek v)) = 12 \<and> length (nonce (sv_manifest v)) = 12
     \<and> uint (sv_plaintext_len v) < 2 ^ 63 \<and> sv_chunk_size v \<noteq> 0"

definition stored :: "stored_version \<Rightarrow> encrypted_chunk list \<Rightarrow> database \<Rightarrow> database" where
  "stored v cs t = t\<lparr>versions := versions t @ [stored_row v],
     chunk_rows := chunk_rows t @ map (stored_chunk_row (sv_version_id v)) cs\<rparr>"

lemma insert_version_eq:
  "insert_version v t = (if version_fits v \<and> \<not> version_exists (sv_version_id v) t
     then Some (t\<lparr>versions := versions t @ [stored_row v]\<rparr>) else None)"
proof -
  have "0 < to_sql_u32 (sv_chunk_size v) \<longleftrightarrow> sv_chunk_size v \<noteq> 0"
    by (simp add: to_sql_u32_def word_uint_eq_iff order_less_le)
  moreover have "0 \<le> to_sql_u32 (sv_chunk_count v)" by (simp add: to_sql_u32_def)
  ultimately show ?thesis
    by (auto simp: insert_version_def insert_version_row_def to_sql_u64_def version_fits_def stored_row_def)
qed

lemma insert_chunk_Some:
  "insert_chunk ver chunk t = Some t' \<Longrightarrow> t' = t\<lparr>chunk_rows := chunk_rows t @ [stored_chunk_row ver chunk]\<rparr>
     \<and> length (nonce (ck_record chunk)) = 12 \<and> version_exists ver t
     \<and> (\<forall>row \<in> set (chunk_rows t). cr_version_id row = ver \<longrightarrow>
          cr_chunk_index row \<noteq> to_sql_u32 (ck_index chunk) \<and> cr_nonce row \<noteq> nonce (ck_record chunk))"
  by (auto simp: insert_chunk_def Let_def stored_chunk_row_def split: if_splits)

lemma set_active_Some:
  "set_active oid ver t = Some t' \<longleftrightarrow>
     length oid = 16 \<and> length ver = 16 \<and> t' = t\<lparr>objects := activate oid ver (objects t)\<rparr>"
  by (auto simp: set_active_def activate_def)

text \<open>What the schema demands of a receipt.\<close>

definition receipt_fits :: "witness_receipt \<Rightarrow> bool" where
  "receipt_fits r \<longleftrightarrow> receipt_ok r \<and> uint (rc_witness_epoch r) < 2 ^ 63"

lemma insert_receipt_Some:
  "insert_receipt r t = Some t' \<longleftrightarrow>
     receipt_fits r \<and> version_exists (rc_version_id r) t
     \<and> (\<forall>row \<in> set (freshness_rows t). fr_version_id row \<noteq> rc_version_id r)
     \<and> (\<forall>row \<in> set (freshness_rows t). fr_witness_public_key row = rc_public_key r \<longrightarrow> fr_witness_epoch row \<noteq> uint (rc_witness_epoch r))
     \<and> t' = t\<lparr>freshness_rows := freshness_rows t @ [stored_receipt_row r]\<rparr>"
  by (auto simp: insert_receipt_def stored_receipt_row_def receipt_fits_def receipt_ok_def id_ok_def to_sql_u64_def)

lemma insert_chunks_Inr:
  "insert_chunks ver cs c = (c', Inr u) \<Longrightarrow>
     tables c' = (tables c)\<lparr>chunk_rows := chunk_rows (tables c) @ map (stored_chunk_row ver) cs\<rparr>
     \<and> list_all (\<lambda>chunk. length (nonce (ck_record chunk)) = 12) cs
     \<and> distinct (map ck_index cs) \<and> distinct (map (nonce \<circ> ck_record) cs)
     \<and> (\<forall>row \<in> set (chunk_rows (tables c)). cr_version_id row = ver \<longrightarrow>
          cr_chunk_index row \<notin> set (map (to_sql_u32 \<circ> ck_index) cs)
          \<and> cr_nonce row \<notin> set (map (nonce \<circ> ck_record) cs))"
proof (induction cs arbitrary: c)
  case (Cons chunk cs)
  then obtain t where t: "insert_chunk ver chunk (tables c) = Some t"
    and rest: "insert_chunks ver cs ((fst (tick c))\<lparr>tables := t\<rparr>) = (c', Inr u)"
    by (auto simp: result_simps)
  from Cons.IH [OF rest] insert_chunk_Some [OF t] show ?case
    by (auto simp: stored_chunk_row_def)
qed auto

text \<open>The statements that both kinds of publication start with.\<close>

lemma store_version_Inr:
  assumes "then_do (sql_execute (insert_version v)) (\<lambda>_. then_do (insert_chunks (sv_version_id v) cs) f) c = (c', Inr x)"
  obtains c1 where "f () c1 = (c', Inr x)" "tables c1 = stored v cs (tables c)"
    "version_fits v" "\<not> version_exists (sv_version_id v) (tables c)"
    "list_all (\<lambda>chunk. length (nonce (ck_record chunk)) = 12) cs" "distinct (map ck_index cs)"
    "distinct (map (nonce \<circ> ck_record) cs)"
proof -
  from assms obtain t c1 where t: "insert_version v (tables c) = Some t"
    and cs: "insert_chunks (sv_version_id v) cs ((fst (tick c))\<lparr>tables := t\<rparr>) = (c1, Inr ())"
    and f: "f () c1 = (c', Inr x)"
    by (auto simp: result_simps)
  from t have "version_fits v" "\<not> version_exists (sv_version_id v) (tables c)"
    "t = (tables c)\<lparr>versions := versions (tables c) @ [stored_row v]\<rparr>"
    by (auto simp: insert_version_eq split: if_splits)
  with insert_chunks_Inr [OF cs] show thesis
    by (intro that [OF f]) (auto simp: stored_def)
qed

definition published :: "stored_version \<Rightarrow> encrypted_chunk list \<Rightarrow> witness_receipt option \<Rightarrow> database \<Rightarrow> database" where
  "published v cs receipt t =
     (stored v cs t)\<lparr>objects := activate (sv_object_id v) (sv_version_id v) (objects t),
       freshness_rows := freshness_rows t @ map stored_receipt_row (case receipt of None \<Rightarrow> [] | Some r \<Rightarrow> [r])\<rparr>"

definition publishable :: "stored_version \<Rightarrow> encrypted_chunk list \<Rightarrow> database \<Rightarrow> bool" where
  "publishable v cs t \<longleftrightarrow> version_fits v \<and> \<not> version_exists (sv_version_id v) t
     \<and> length cs = unat (sv_chunk_count v) \<and> list_all (\<lambda>chunk. length (nonce (ck_record chunk)) = 12) cs
     \<and> distinct (map ck_index cs) \<and> distinct (map (nonce \<circ> ck_record) cs)"

definition staged :: "stored_version \<Rightarrow> encrypted_chunk list \<Rightarrow> u64 \<Rightarrow> database \<Rightarrow> database" where
  "staged v cs e t = (stored v cs t)\<lparr>pending_rows := pending_rows t
     @ [\<lparr>pr_version_id = sv_version_id v, pr_expected_epoch = uint e\<rparr>]\<rparr>"

text \<open>A transaction followed by the enforcement of file modes: either nothing is committed, or everything
  is and only the enforcement can still report an error.\<close>

lemma commit_cases:
  assumes "then_do (transaction body) (\<lambda>_. enforce_state_files) c = (c', r)"
  obtains (failed) e where "r = Inl e" "tables c' = tables c"
  | (committed) c2 u where "body (fst (tick c)) = (c2, Inr u)" "tables c' = tables c2"
      "r = Inr () \<or> r = Inl Storage \<or> r = Inl (InvalidInput ''VLT/1 state file type'')"
proof (cases rule: then_do_cases [of "transaction body" c "\<lambda>_. enforce_state_files"])
  case (err c1 e)
  with assms failed transaction_Inl [OF err(1)] show thesis by auto
next
  case (ok c1 u)
  with assms have enf: "enforce_state_files c1 = (c', r)" by simp
  from ok(1) obtain c2 where "body (fst (tick c)) = (c2, Inr u)" "c1 = fst (tick c2)"
    by (rule transaction_Inr)
  with enforce_state_files_frame [OF enf] enf enforce_state_files_errors [of c1 c'] show thesis
    by (intro committed) (auto, cases r, auto)
qed

lemma publish_cases:
  assumes "publish_inner v cs receipt c = (c', r)"
  obtains (failed) e where "r = Inl e" "tables c' = tables c"
  | (committed) "publishable v cs (tables c)" "tables c' = published v cs receipt (tables c)"
      "r = Inr () \<or> r = Inl Storage \<or> r = Inl (InvalidInput ''VLT/1 state file type'')"
proof (cases "length cs = unat (sv_chunk_count v)")
  case False
  with assms failed show thesis by (auto simp: publish_inner_def)
next
  case True
  let ?rest = "then_do (case receipt of None \<Rightarrow> (\<lambda>c. (c, Inr ())) | Some r \<Rightarrow> sql_execute (insert_receipt r)) (\<lambda>_.
          sql_execute (set_active (sv_object_id v) (sv_version_id v)))"
  let ?body = "then_do (sql_execute (insert_version v)) (\<lambda>_.
          then_do (insert_chunks (sv_version_id v) cs) (\<lambda>_. ?rest))"
  from True assms have eq: "then_do (transaction ?body) (\<lambda>_. enforce_state_files) c = (c', r)"
    by (simp add: publish_inner_def)
  then show thesis
  proof (cases rule: commit_cases)
    case (committed c2 u)
    from committed(1) obtain c1 where last: "?rest c1 = (c2, Inr u)"
      and c1: "tables c1 = stored v cs (tables c)" and fits: "publishable v cs (tables c)"
      by (rule store_version_Inr) (use True in \<open>auto simp: publishable_def\<close>)
    have "tables c2 = published v cs receipt (tables c)"
      using last c1
      by (cases receipt) (auto simp: published_def stored_def result_simps set_active_Some insert_receipt_Some)
    with fits committed that(2) show thesis by simp
  qed (rule failed)
qed

lemma stage_cases:
  assumes "stage_witness_publication v cs epoch c = (c', r)"
  obtains (failed) e where "r = Inl e" "tables c' = tables c"
  | (committed) "publishable v cs (tables c)" "uint epoch < 2 ^ 63" "tables c' = staged v cs epoch (tables c)"
      "r = Inr () \<or> r = Inl Storage \<or> r = Inl (InvalidInput ''VLT/1 state file type'')"
proof (cases "length cs = unat (sv_chunk_count v)")
  case False
  with assms failed show thesis by (auto simp: stage_witness_publication_def)
next
  case True
  let ?body = "then_do (sql_execute (insert_version v)) (\<lambda>_.
          then_do (insert_chunks (sv_version_id v) cs) (\<lambda>_.
          sql_execute (insert_pending (sv_version_id v) epoch)))"
  from True assms have eq: "then_do (transaction ?body) (\<lambda>_. enforce_state_files) c = (c', r)"
    by (simp add: stage_witness_publication_def)
  then show thesis
  proof (cases rule: commit_cases)
    case (committed c2 u)
    from committed(1) obtain c3 where ins: "sql_execute (insert_pending (sv_version_id v) epoch) c3 = (c2, Inr u)"
      and c3: "tables c3 = stored v cs (tables c)" and fits: "publishable v cs (tables c)"
      by (rule store_version_Inr) (use True in \<open>auto simp: publishable_def\<close>)
    from ins c3 have "uint epoch < 2 ^ 63 \<and> tables c2 = staged v cs epoch (tables c)"
      by (auto simp: result_simps insert_pending_def staged_def stored_def to_sql_u64_def split: option.splits if_splits)
    with fits committed that(2) show thesis by simp
  qed (rule failed)
qed

definition finalized :: "stored_version \<Rightarrow> witness_receipt \<Rightarrow> database \<Rightarrow> database" where
  "finalized v r t = t\<lparr>freshness_rows := freshness_rows t @ [stored_receipt_row r],
     objects := activate (sv_object_id v) (sv_version_id v) (objects t),
     pending_rows := filter (\<lambda>row. pr_version_id row \<noteq> sv_version_id v) (pending_rows t)\<rparr>"

lemma finalize_cases:
  assumes "finalize_witness_publication v rc c = (c', r)"
  obtains (failed) e where "r = Inl e" "tables c' = tables c"
  | (committed) "rc_object_id rc = sv_object_id v" "rc_version_id rc = sv_version_id v"
      "\<exists>row \<in> set (pending_rows (tables c)). pr_version_id row = sv_version_id v"
      "version_exists (sv_version_id v) (tables c)" "receipt_fits rc"
      "\<forall>row \<in> set (freshness_rows (tables c)). fr_version_id row \<noteq> sv_version_id v"
      "tables c' = finalized v rc (tables c)"
      "r = Inr () \<or> r = Inl Storage \<or> r = Inl (InvalidInput ''VLT/1 state file type'')"
proof (cases "rc_object_id rc \<noteq> sv_object_id v \<or> rc_version_id rc \<noteq> sv_version_id v")
  case True
  with assms failed show thesis by (auto simp: finalize_witness_publication_def)
next
  case False
  let ?body = "then_do (sql_query (select_staged (sv_version_id v))) (\<lambda>_.
          then_do (sql_execute (insert_receipt rc)) (\<lambda>_.
          then_do (sql_execute (set_active (sv_object_id v) (sv_version_id v))) (\<lambda>_.
          sql_execute (delete_pending (sv_version_id v)))))"
  from False assms have eq: "then_do (transaction ?body) (\<lambda>_. enforce_state_files) c = (c', r)"
    by (simp add: finalize_witness_publication_def)
  then show thesis
  proof (cases rule: commit_cases)
    case (committed c2 u)
    from committed(1) obtain x t where x: "select_staged (sv_version_id v) (tables c) = Inr x"
      and t: "insert_receipt rc (tables c) = Some t"
      and c2: "tables c2 = t\<lparr>objects := activate (sv_object_id v) (sv_version_id v) (objects t),
         pending_rows := filter (\<lambda>row. pr_version_id row \<noteq> sv_version_id v) (pending_rows t)\<rparr>"
      by (auto simp: result_simps set_active_Some delete_pending_def)
    from x have "\<exists>row \<in> set (pending_rows (tables c)). pr_version_id row = sv_version_id v"
      by (auto simp: select_staged_def dest: find_in_set split: option.splits)
    with False t [unfolded insert_receipt_Some] c2 committed that(2) show thesis
      by (simp add: finalized_def)
  qed (rule failed)
qed

section \<open>Reading back\<close>

lemma bytes_simps [simp]:
  "length bs = 12 \<Longrightarrow> bytes12 bs = Inr bs" "length bs = 16 \<Longrightarrow> bytes16 bs = Inr bs"
  "length bs = 32 \<Longrightarrow> bytes32 bs = Inr bs" "length bs = 64 \<Longrightarrow> bytes64 bs = Inr bs"
  "length bs = 16 \<Longrightarrow> from_slice bs = Inr bs"
  by (simp_all add: bytes12_def bytes16_def bytes32_def bytes64_def from_slice_def)

lemma find_fresh: "\<not> (\<exists>x \<in> set xs. key x = k) \<Longrightarrow> find (\<lambda>x. key x = k) xs = None"
  by (auto simp: find_None_iff)

lemma find_append_other: "\<exists>x \<in> set xs. P x \<Longrightarrow> find P (xs @ ys) = find P xs"
  by (induction xs) auto

lemma version_exists_stored [simp]:
  "version_exists ver (stored v cs t) \<longleftrightarrow> version_exists ver t \<or> ver = sv_version_id v"
  by (auto simp: version_exists_def stored_def stored_row_def)

lemma stored_simps [simp]:
  "pending_rows (stored v cs t) = pending_rows t" "objects (stored v cs t) = objects t"
  "freshness_rows (stored v cs t) = freshness_rows t" "vault_meta (stored v cs t) = vault_meta t"
  by (simp_all add: stored_def)

lemma from_sql_u64_uint: "uint w < 2 ^ 63 \<Longrightarrow> from_sql_u64 (uint w) = Some w"
  by (simp add: from_sql_u64_def)

lemma select_version_row:
  assumes "find (\<lambda>row. vr_version_id row = sv_version_id v) (versions t) = Some (stored_row v)" "version_fits v"
  shows "select_version (sv_version_id v) t = Inr v"
  using assms by (simp add: select_version_def stored_row_def version_fits_def from_sql_u64_uint)

lemma select_version_stored:
  assumes "publishable v cs t"
  shows "select_version (sv_version_id v) (stored v cs t) = Inr v"
proof (rule select_version_row)
  from assms have "find (\<lambda>row. vr_version_id row = sv_version_id v) (versions t) = None"
    by (auto simp: publishable_def version_exists_def find_None_iff)
  then show "find (\<lambda>row. vr_version_id row = sv_version_id v) (versions (stored v cs t)) = Some (stored_row v)"
    by (simp add: stored_def find_snoc) (simp add: stored_row_def)
qed (use assms in \<open>simp add: publishable_def\<close>)

text \<open>Chunk indices count up from zero.\<close>

definition numbered :: "encrypted_chunk list \<Rightarrow> bool" where
  "numbered cs \<longleftrightarrow> map (unat \<circ> ck_index) cs = [0..<length cs]"

lemma numbered_snoc: "numbered (cs @ [c]) \<longleftrightarrow> numbered cs \<and> unat (ck_index c) = length cs"
  by (auto simp: numbered_def)

lemma version_chunks_stored:
  assumes "foreign_keys_ok t" "\<not> version_exists (sv_version_id v) t" "numbered cs"
  shows "version_chunks (sv_version_id v) (stored v cs t) = map (stored_chunk_row (sv_version_id v)) cs"
proof -
  let ?rows = "map (stored_chunk_row (sv_version_id v)) cs"
  have "filter (\<lambda>row. cr_version_id row = sv_version_id v) (chunk_rows t) = []"
    using assms(1,2) by (auto simp: foreign_keys_ok_def list_all_iff filter_empty_conv)
  moreover have "filter (\<lambda>row. cr_version_id row = sv_version_id v) ?rows = ?rows"
    by (simp add: filter_map comp_def) (simp add: stored_chunk_row_def)
  moreover have "map cr_chunk_index ?rows = map int (map (unat \<circ> ck_index) cs)"
    by (simp add: stored_chunk_row_def to_sql_u32_def)
  then have "map cr_chunk_index ?rows = map int [0..<length cs]"
    using assms(3) by (simp only: numbered_def)
  then have "sorted (map cr_chunk_index ?rows)" by (simp only:) (simp add: sorted_iff_nth_mono)
  ultimately show ?thesis
    by (simp add: version_chunks_def stored_def sort_key_id_if_sorted)
qed

lemma row_chunk_stored: "length (nonce (ck_record chunk)) = 12 \<Longrightarrow> row_chunk (stored_chunk_row ver chunk) = Inr chunk"
  by (simp add: row_chunk_def stored_chunk_row_def)

lemma find_activate:
  "find (\<lambda>row. ob_object_id row = oid') (activate oid ver rows) =
     (if oid' = oid then Some \<lparr>ob_object_id = oid, ob_active_version_id = ver\<rparr>
      else find (\<lambda>row. ob_object_id row = oid') rows)"
  unfolding activate_def by (rule find_upsert) auto

lemma select_active_activate:
  "select_active oid' (t\<lparr>objects := activate oid ver rows\<rparr>) =
     (if oid' = oid then Inr ver else select_active oid' (t\<lparr>objects := rows\<rparr>))"
  by (simp add: select_active_def find_activate)

section \<open>Well-formed databases\<close>

definition db_ok :: "database \<Rightarrow> bool" where
  "db_ok t \<longleftrightarrow> foreign_keys_ok t \<and> active_pointers_ok t
     \<and> distinct (map vr_version_id (versions t)) \<and> distinct (map ob_object_id (objects t))
     \<and> distinct (map pr_version_id (pending_rows t)) \<and> distinct (map fr_version_id (freshness_rows t))"

lemma db_ok_empty: "db_ok empty_database"
  by (simp add: db_ok_def empty_database_def foreign_keys_ok_def active_pointers_ok_def)

lemma map_activate:
  "map ob_object_id (activate oid ver rows) =
     (if oid \<in> ob_object_id ` set rows then map ob_object_id rows else map ob_object_id rows @ [oid])"
  by (auto simp: activate_def upsert_def)

lemma distinct_activate: "distinct (map ob_object_id rows) \<Longrightarrow> distinct (map ob_object_id (activate oid ver rows))"
  by (auto simp: map_activate)

lemma set_activate:
  "row \<in> set (activate oid ver rows) \<Longrightarrow>
     row \<in> set rows \<or> (ob_object_id row = oid \<and> ob_active_version_id row = ver)"
  by (auto simp: activate_def upsert_def split: if_splits)

lemma active_pointers_activate:
  assumes "active_pointers_ok t" "set (versions t) \<subseteq> set (versions t')"
    and "\<exists>row \<in> set (versions t'). vr_version_id row = ver \<and> vr_object_id row = oid"
  shows "active_pointers_ok (t'\<lparr>objects := activate oid ver (objects t)\<rparr>)"
  using assms by (fastforce simp: active_pointers_ok_def list_all_iff dest!: set_activate)

lemma db_ok_stored:
  assumes "db_ok t" "publishable v cs t"
  shows "db_ok (stored v cs t)"
proof -
  have "foreign_keys_ok (stored v cs t)"
    using assms by (auto simp: db_ok_def foreign_keys_ok_def list_all_iff stored_def stored_chunk_row_def
      version_exists_def stored_row_def)
  moreover have "active_pointers_ok (stored v cs t)"
    using assms by (auto simp: db_ok_def active_pointers_ok_def list_all_iff stored_def)
  moreover have "distinct (map vr_version_id (versions (stored v cs t)))"
    using assms by (auto simp: db_ok_def stored_def stored_row_def publishable_def version_exists_def)
  ultimately show ?thesis using assms(1) by (simp add: db_ok_def stored_def)
qed

lemma stored_row_in: "\<exists>row \<in> set (versions (stored v cs t)). vr_version_id row = sv_version_id v \<and> vr_object_id row = sv_object_id v"
  by (simp add: stored_def) (simp add: stored_row_def)

lemma db_ok_activate:
  assumes "db_ok t" "\<exists>row \<in> set (versions t). vr_version_id row = ver \<and> vr_object_id row = oid"
  shows "db_ok (t\<lparr>objects := activate oid ver (objects t)\<rparr>)"
  using assms active_pointers_activate [of t t ver oid]
  by (auto simp: db_ok_def distinct_activate foreign_keys_ok_def version_exists_def)

lemma db_ok_add_receipt:
  assumes "db_ok t" "version_exists (rc_version_id r) t"
    and "\<forall>row \<in> set (freshness_rows t). fr_version_id row \<noteq> rc_version_id r"
  shows "db_ok (t\<lparr>freshness_rows := freshness_rows t @ [stored_receipt_row r]\<rparr>)"
  using assms
  by (auto simp: db_ok_def foreign_keys_ok_def version_exists_def active_pointers_ok_def stored_receipt_row_def list_all_iff)

lemma published_None:
  "published v cs None t = (stored v cs t)\<lparr>objects := activate (sv_object_id v) (sv_version_id v) (objects t)\<rparr>"
  by (simp add: published_def stored_def)

lemma db_ok_published: "db_ok t \<Longrightarrow> publishable v cs t \<Longrightarrow> db_ok (published v cs None t)"
  using db_ok_activate [OF db_ok_stored stored_row_in, of t v cs]
  by (simp add: published_None)

lemma db_ok_pending:
  assumes "db_ok t" "version_exists ver t" "\<forall>row \<in> set (pending_rows t). pr_version_id row \<noteq> ver"
  shows "db_ok (t\<lparr>pending_rows := pending_rows t @ [\<lparr>pr_version_id = ver, pr_expected_epoch = e\<rparr>]\<rparr>)"
  using assms by (auto simp: db_ok_def foreign_keys_ok_def version_exists_def active_pointers_ok_def list_all_iff)

lemma db_ok_staged:
  assumes "db_ok t" "publishable v cs t"
  shows "db_ok (staged v cs e t)"
proof -
  have "\<forall>row \<in> set (pending_rows (stored v cs t)). pr_version_id row \<noteq> sv_version_id v"
    using assms by (auto simp: db_ok_def foreign_keys_ok_def list_all_iff publishable_def)
  from db_ok_pending [OF db_ok_stored [OF assms] _ this] show ?thesis by (simp add: staged_def)
qed

lemma db_ok_finalized:
  assumes "db_ok t" "\<exists>row \<in> set (versions t). vr_version_id row = sv_version_id v \<and> vr_object_id row = sv_object_id v"
    and "rc_version_id r = sv_version_id v" "\<forall>row \<in> set (freshness_rows t). fr_version_id row \<noteq> sv_version_id v"
  shows "db_ok (finalized v r t)"
proof -
  have "version_exists (rc_version_id r) t" using assms(2,3) by (auto simp: version_exists_def)
  from db_ok_add_receipt [OF db_ok_activate [OF assms(1,2)], of r] this assms(3,4)
  have "db_ok (t\<lparr>objects := activate (sv_object_id v) (sv_version_id v) (objects t),
      freshness_rows := freshness_rows t @ [stored_receipt_row r]\<rparr>)" (is "db_ok ?t")
    by (simp add: version_exists_def)
  moreover have "finalized v r t = ?t\<lparr>pending_rows := filter (\<lambda>row. pr_version_id row \<noteq> sv_version_id v) (pending_rows ?t)\<rparr>"
    by (simp add: finalized_def)
  ultimately show ?thesis
    by (auto simp: db_ok_def foreign_keys_ok_def version_exists_def active_pointers_ok_def list_all_iff distinct_map_filter)
qed

section \<open>Immutable versions\<close>

text \<open>\<open>frozen t t'\<close>: every version of \<open>t\<close> has the same row, the same chunks and, when it had one, the same
  receipt in \<open>t'\<close>.\<close>

definition frozen :: "database \<Rightarrow> database \<Rightarrow> bool" where
  "frozen t t' \<longleftrightarrow> (\<forall>ver. version_exists ver t \<longrightarrow>
     version_exists ver t'
     \<and> find (\<lambda>row. vr_version_id row = ver) (versions t') = find (\<lambda>row. vr_version_id row = ver) (versions t)
     \<and> version_chunks ver t' = version_chunks ver t
     \<and> (\<forall>row. find (\<lambda>row. fr_version_id row = ver) (freshness_rows t) = Some row \<longrightarrow>
          find (\<lambda>row. fr_version_id row = ver) (freshness_rows t') = Some row))"

lemma frozen_refl [simp]: "frozen t t"
  by (simp add: frozen_def)

lemma frozen_trans: "frozen a b \<Longrightarrow> frozen b c \<Longrightarrow> frozen a c"
  by (simp add: frozen_def)

lemma frozen_stored: "\<not> version_exists (sv_version_id v) t \<Longrightarrow> frozen t (stored v cs t)"
proof -
  assume new: "\<not> version_exists (sv_version_id v) t"
  have "filter (\<lambda>row. cr_version_id row = ver) (map (stored_chunk_row (sv_version_id v)) cs) = []"
    if "version_exists ver t" for ver
    using that new by (auto simp: filter_empty_conv stored_chunk_row_def)
  then show ?thesis
    by (auto simp: frozen_def version_chunks_def stored_def find_append_other version_exists_def)
qed

lemma frozen_finalized:
  "frozen t (finalized v r t)"
  by (auto simp: frozen_def finalized_def version_exists_def version_chunks_def find_snoc)

lemma frozen_objects [simp]: "frozen t (t'\<lparr>objects := obs\<rparr>) = frozen t t'"
  by (simp add: frozen_def version_exists_def version_chunks_def)

lemma frozen_pending [simp]: "frozen t (t'\<lparr>pending_rows := ps\<rparr>) = frozen t t'"
  by (simp add: frozen_def version_exists_def version_chunks_def)

lemma frozen_published: "\<not> version_exists (sv_version_id v) t \<Longrightarrow> frozen t (published v cs None t)"
  using frozen_stored [of v t cs] by (simp add: published_None)

section \<open>What the operations leave alone\<close>

lemma insert_chunks_Cons:
  "insert_chunks ver (chunk # cs) = then_do (sql_execute (insert_chunk ver chunk)) (\<lambda>_. insert_chunks ver cs)"
  by (simp add: fun_eq_iff)

lemma outside_insert_chunks [intro]: "evolves same_outside (insert_chunks ver cs)"
proof (induction cs)
  case (Cons chunk cs)
  then show ?case unfolding insert_chunks_Cons by (intro outside_then_do) auto
qed (simp add: evolves_def)

lemma evolves_if: "evolves R m \<Longrightarrow> evolves R n \<Longrightarrow> evolves R (\<lambda>c. if b then m c else n c)"
  by (simp add: evolves_def)

lemma evolves_state_if: "evolves R m \<Longrightarrow> evolves R n \<Longrightarrow> evolves R (\<lambda>c. if b c then m c else n c)"
  by (simp add: evolves_def)

lemmas outside_intros = evolves_if evolves_state_if outside_then_do outside_transaction

lemma outside_optional_receipt [intro]:
  "evolves same_outside (case receipt of None \<Rightarrow> (\<lambda>c. (c, Inr ())) | Some r \<Rightarrow> sql_execute (insert_receipt r))"
  by (cases receipt) auto

lemma outside_publish [intro]: "evolves same_outside (publish_inner v cs receipt)"
  unfolding publish_inner_def
  by (intro outside_intros) auto

lemma outside_stage [intro]: "evolves same_outside (stage_witness_publication v cs epoch)"
  unfolding stage_witness_publication_def by (intro outside_intros) auto

lemma outside_finalize [intro]: "evolves same_outside (finalize_witness_publication v r)"
  unfolding finalize_witness_publication_def by (intro outside_intros) auto

lemma outside_replace [intro]: "evolves same_outside (replace_root_envelope env)"
  unfolding replace_root_envelope_def by (intro outside_intros) auto

section \<open>Reads\<close>

lemma reads_active_version [intro]: "evolves same_tables (active_version oid)"
  unfolding active_version_def
proof (intro reads_then_do)
  show "evolves same_tables (\<lambda>c. case from_slice x of Inl e \<Rightarrow> (c, Inl e) | Inr ver \<Rightarrow> version_of ver c)" for x
    by (cases "from_slice x") (auto simp: version_of_def)
qed auto

lemma outside_active_version [intro]: "evolves same_outside (active_version oid)"
  unfolding active_version_def
proof (intro outside_then_do)
  show "evolves same_outside (\<lambda>c. case from_slice x of Inl e \<Rightarrow> (c, Inl e) | Inr ver \<Rightarrow> version_of ver c)" for x
    by (cases "from_slice x") (auto simp: version_of_def)
qed auto

text \<open>The version an object points to, when no engine call fails.\<close>

definition lookup_active :: "object_id \<Rightarrow> database \<Rightarrow> stored_version result" where
  "lookup_active oid t = and_then (select_active oid t) (\<lambda>bs. and_then (from_slice bs) (\<lambda>ver. select_version ver t))"

lemma active_version_Inr:
  "active_version oid c = (c', Inr v) \<Longrightarrow> lookup_active oid (tables c) = Inr v \<and> tables c' = tables c"
  by (auto simp: active_version_def lookup_active_def version_of_def result_simps from_slice_def id_ok_def
      split: if_splits)

lemma healthy_active_version: "healthy c \<Longrightarrow> active_version oid c = (c, lookup_active oid (tables c))"
  by (auto simp: active_version_def lookup_active_def version_of_def then_do_def healthy_query and_then_def
      split: sum.splits)

lemma select_version_id: "select_version ver t = Inr v \<Longrightarrow> sv_version_id v = ver \<and> length ver = 16"
  by (auto simp: select_version_def from_slice_def result_simps dest!: find_in_set split: option.splits if_splits)

lemma select_version_object:
  "select_version ver t = Inr v \<Longrightarrow> \<exists>row \<in> set (versions t). vr_version_id row = ver \<and> vr_object_id row = sv_object_id v"
  by (auto simp: select_version_def from_slice_def result_simps dest!: find_in_set split: option.splits if_splits)

lemma frozen_select_version: "frozen t t' \<Longrightarrow> version_exists ver t \<Longrightarrow> select_version ver t' = select_version ver t"
  by (simp add: frozen_def select_version_def)

lemma frozen_version_chunks: "frozen t t' \<Longrightarrow> version_exists ver t \<Longrightarrow> version_chunks ver t' = version_chunks ver t"
  by (simp add: frozen_def)

section \<open>Visiting chunks\<close>

text \<open>The visitor run over a list of chunks.\<close>

primrec run_visitor :: "(encrypted_chunk \<Rightarrow> 'a \<Rightarrow> 'a \<times> unit result) \<Rightarrow> encrypted_chunk list \<Rightarrow> 'a \<Rightarrow> 'a \<times> unit result" where
  "run_visitor visit [] a = (a, Inr ())"
| "run_visitor visit (chunk # cs) a =
     (case visit chunk a of (a, Inl e) \<Rightarrow> (a, Inl e) | (a, Inr _) \<Rightarrow> run_visitor visit cs a)"

lemma visit_rows_healthy:
  "healthy c \<Longrightarrow> map row_chunk rows = map Inr cs \<Longrightarrow>
     visit_rows visit rows c a = (c, run_visitor visit cs a)"
proof (induction rows arbitrary: cs a)
  case Nil
  then show ?case by (simp add: healthy_query)
next
  case (Cons row rows)
  then obtain chunk cs' where "cs = chunk # cs'" "row_chunk row = Inr chunk" "map row_chunk rows = map Inr cs'"
    by (cases cs) auto
  with Cons show ?case by (auto simp: healthy_query split: prod.splits sum.splits)
qed

lemma visit_chunks_healthy:
  assumes "healthy c" "map row_chunk (version_chunks ver (tables c)) = map Inr cs"
  shows "visit_chunks ver visit c a = (c, run_visitor visit cs a)"
  using assms by (simp add: visit_chunks_def sql_select_def then_do_def healthy_query visit_rows_healthy)

lemma visit_rows_Inr:
  "visit_rows visit rows c a = (c', a', Inr u) \<Longrightarrow>
     tables c' = tables c \<and> (\<exists>cs. map row_chunk rows = map Inr cs \<and> run_visitor visit cs a = (a', Inr ()))"
proof (induction rows arbitrary: c a)
  case Nil
  then show ?case by (auto simp: result_simps split: prod.splits)
next
  case (Cons row rows)
  then obtain chunk a1 where chunk: "row_chunk row = Inr chunk"
    and visit: "visit chunk a = (a1, Inr ())"
    and rest: "visit_rows visit rows (fst (tick c)) a1 = (c', a', Inr u)"
    by (auto simp: result_simps split: prod.splits sum.splits)
  from Cons.IH [OF rest] obtain cs where "tables c' = tables c" "map row_chunk rows = map Inr cs"
    "run_visitor visit cs a1 = (a', Inr ())" by auto
  with chunk visit show ?case
    by (auto intro!: exI [of _ "chunk # cs"])
qed

lemma visit_chunks_Inr:
  assumes "visit_chunks ver visit c a = (c', a', Inr u)"
  obtains cs where "map row_chunk (version_chunks ver (tables c)) = map Inr cs"
    "run_visitor visit cs a = (a', Inr ())" "tables c' = tables c"
proof -
  from assms have "visit_rows visit (version_chunks ver (tables c)) (fst (tick (fst (tick c)))) a = (c', a', Inr u)"
    by (auto simp: visit_chunks_def sql_select_def result_simps split: prod.splits sum.splits)
  from visit_rows_Inr [OF this] that show thesis by auto
qed

lemma outside_select [intro]: "evolves same_outside (sql_select q)"
  by (auto simp: sql_select_def)

lemma reads_select [intro]: "evolves same_tables (sql_select q)"
  by (auto simp: sql_select_def)

lemma visit_rows_frame:
  "visit_rows visit rows c a = (c', a', r) \<Longrightarrow> same_outside c c' \<and> tables c' = tables c"
proof (induction rows arbitrary: c a)
  case Nil
  then show ?case
    by (auto simp: sql_query_def tick_def split: if_splits)
next
  case (Cons row rows)
  show ?case
  proof (cases "sql_query (\<lambda>_. row_chunk row) c")
    case (Pair c1 res)
    then have c1: "same_outside c c1" "tables c1 = tables c"
      by (auto simp: sql_query_def tick_def split: if_splits)
    with Cons.prems Pair Cons.IH [of c1] show ?thesis
      by (auto split: sum.splits prod.splits intro: same_outside_trans)
  qed
qed

lemma visit_chunks_frame:
  assumes "visit_chunks ver visit c a = (c', a', r)"
  shows "same_outside c c' \<and> tables c' = tables c"
proof (cases "sql_select (version_chunks ver) c")
  case (Pair c1 res)
  then have "same_outside c c1" "tables c1 = tables c"
    using evolvesD [OF outside_select Pair] evolvesD [OF reads_select Pair] by (simp_all add: same_tables_def)
  with assms Pair visit_rows_frame [of visit _ c1 a c' a' r] show ?thesis
    by (auto simp: visit_chunks_def split: sum.splits intro: same_outside_trans)
qed

section \<open>The effect of a streaming publication\<close>

definition placeholder :: "object_id \<Rightarrow> version_id \<Rightarrow> sealed_record \<Rightarrow> u32 \<Rightarrow> stored_version" where
  "placeholder oid ver wrapped_dek chunk_size =
     \<lparr>sv_object_id = oid, sv_version_id = ver, sv_wrapped_dek = wrapped_dek,
      sv_manifest = \<lparr>nonce = replicate 12 0, ciphertext = []\<rparr>, sv_plaintext_len = 0,
      sv_chunk_size = chunk_size, sv_chunk_count = 0\<rparr>"

lemma insert_streaming_placeholder_eq:
  "insert_streaming_placeholder oid ver wrapped_dek chunk_size =
     insert_version (placeholder oid ver wrapped_dek chunk_size)"
  by (simp add: fun_eq_iff insert_streaming_placeholder_def insert_version_def placeholder_def to_sql_u64_def
      to_sql_u32_def)

lemma begin_streaming_Inr:
  assumes "begin_streaming_publication oid ver wrapped_dek chunk_size c = (c', Inr p)"
  shows "tables c' = stored (placeholder oid ver wrapped_dek chunk_size) [] (tables c)
    \<and> version_fits (placeholder oid ver wrapped_dek chunk_size) \<and> \<not> version_exists ver (tables c)
    \<and> p = \<lparr>sp_object_id = oid, sp_version_id = ver, sp_next_chunk_index = 0, sp_plaintext_len = 0\<rparr>"
  using assms
  by (auto simp: begin_streaming_publication_def insert_streaming_placeholder_eq insert_version_eq result_simps
      stored_def placeholder_def split: if_splits)

lemma append_chunk_Inr:
  assumes "append_chunk chunk len p c = (c', Inr p')" "tables c = stored ph cs t" "sp_version_id p = sv_version_id ph"
  shows "tables c' = stored ph (cs @ [chunk]) t \<and> ck_index chunk = sp_next_chunk_index p
    \<and> length (nonce (ck_record chunk)) = 12
    \<and> ck_index chunk \<notin> set (map ck_index cs) \<and> nonce (ck_record chunk) \<notin> set (map (nonce \<circ> ck_record) cs)
    \<and> (\<exists>i n. checked_add (sp_next_chunk_index p) 1 = Some i
         \<and> checked_add (sp_plaintext_len p) (ucast len) = Some n
         \<and> p' = p\<lparr>sp_next_chunk_index := i, sp_plaintext_len := n\<rparr>)"
proof -
  from assms(1,3) obtain t1 i n where t1: "insert_chunk (sv_version_id ph) chunk (tables c) = Some t1"
    and c': "tables c' = t1" "ck_index chunk = sp_next_chunk_index p"
      "checked_add (sp_next_chunk_index p) 1 = Some i" "checked_add (sp_plaintext_len p) (ucast len) = Some n"
      "p' = p\<lparr>sp_next_chunk_index := i, sp_plaintext_len := n\<rparr>"
    by (auto simp: append_chunk_def sql_execute_Inr then_do_eq_Inr and_then_eq_Inr ok_or_eq_Inr split: if_splits)
  note t1 = insert_chunk_Some [OF t1]
  have "set (map (stored_chunk_row (sv_version_id ph)) cs) \<subseteq> set (chunk_rows (tables c))"
    using assms(2) by (simp add: stored_def)
  then have "ck_index chunk \<noteq> ck_index x \<and> nonce (ck_record chunk) \<noteq> nonce (ck_record x)" if "x \<in> set cs" for x
    using t1 that by (force simp: stored_chunk_row_def)
  with t1 c' assms(2) show ?thesis by (auto simp: stored_def)
qed

text \<open>The finished version is the one a buffered publication of the same records stores.\<close>

lemma finish_Inr:
  assumes "finish m n p c = (c', Inr u)" "tables c = stored ph cs t" "\<not> version_exists (sv_version_id ph) t"
    and p: "sp_version_id p = sv_version_id ph" "sp_object_id p = sv_object_id ph" and "version_fits ph"
  shows "tables c' = published (ph\<lparr>sv_manifest := m, sv_plaintext_len := sp_plaintext_len p, sv_chunk_count := n\<rparr>) cs None t
    \<and> version_fits (ph\<lparr>sv_manifest := m, sv_plaintext_len := sp_plaintext_len p, sv_chunk_count := n\<rparr>)
    \<and> n = sp_next_chunk_index p"
proof -
  let ?v = "ph\<lparr>sv_manifest := m, sv_plaintext_len := sp_plaintext_len p, sv_chunk_count := n\<rparr>"
  let ?f = "\<lambda>row. if vr_version_id row = sv_version_id ph \<and> vr_object_id row = sv_object_id ph
       then row\<lparr>vr_manifest_nonce := nonce m, vr_manifest_ciphertext := ciphertext m,
                vr_plaintext_len := uint (sp_plaintext_len p), vr_chunk_count := to_sql_u32 n\<rparr> else row"
  from assms(3) have old: "map ?f (versions t) = versions t"
    by (intro map_idI) (auto simp: version_exists_def)
  have row: "?f (stored_row ph) = stored_row ?v" by (simp add: stored_row_def)
  from assms(1) p obtain t1 where t1: "finish_version m (sp_plaintext_len p) n (sv_version_id ph) (sv_object_id ph) (tables c) = Some t1"
    and n: "n = sp_next_chunk_index p" and act: "set_active (sv_object_id ph) (sv_version_id ph) t1 = Some (tables c')"
    by (auto simp: finish_def result_simps split: if_splits)
  from t1 have m: "length (nonce m) = 12" "uint (sp_plaintext_len p) < 2 ^ 63"
    and "t1 = (tables c)\<lparr>versions := map ?f (versions (tables c))\<rparr>"
    by (auto simp: finish_version_def to_sql_u64_def split: if_splits option.splits)
  with assms(2) old row have "t1 = stored ?v cs t" by (simp add: stored_def)
  moreover from m assms(6) have "version_fits ?v" by (simp add: version_fits_def)
  ultimately show ?thesis using act n by (simp add: set_active_Some published_None)
qed

section \<open>Publication on a healthy connection\<close>

definition no_clash :: "version_id \<Rightarrow> encrypted_chunk list \<Rightarrow> database \<Rightarrow> bool" where
  "no_clash ver cs t \<longleftrightarrow> (\<forall>row \<in> set (chunk_rows t). cr_version_id row = ver \<longrightarrow>
     cr_chunk_index row \<notin> set (map (to_sql_u32 \<circ> ck_index) cs) \<and> cr_nonce row \<notin> set (map (nonce \<circ> ck_record) cs))"

lemma to_sql_u32_inject [simp]: "to_sql_u32 a = to_sql_u32 b \<longleftrightarrow> a = b"
  by (simp add: to_sql_u32_def word_uint_eq_iff)

lemma insert_chunk_live:
  assumes "length ver = 16" "version_exists ver t" "length (nonce (ck_record chunk)) = 12" "no_clash ver [chunk] t"
  shows "insert_chunk ver chunk t = Some (t\<lparr>chunk_rows := chunk_rows t @ [stored_chunk_row ver chunk]\<rparr>)"
  using assms by (auto simp: insert_chunk_def Let_def stored_chunk_row_def no_clash_def to_sql_u32_def)

lemma healthy_insert_chunks:
  assumes "healthy c" "length ver = 16" "version_exists ver (tables c)"
    and "list_all (\<lambda>chunk. length (nonce (ck_record chunk)) = 12) cs" "distinct (map ck_index cs)"
      "distinct (map (nonce \<circ> ck_record) cs)" "no_clash ver cs (tables c)"
  shows "insert_chunks ver cs c =
    (c\<lparr>tables := (tables c)\<lparr>chunk_rows := chunk_rows (tables c) @ map (stored_chunk_row ver) cs\<rparr>\<rparr>, Inr ())"
  using assms
proof (induction cs arbitrary: c)
  case (Cons chunk cs)
  let ?t = "(tables c)\<lparr>chunk_rows := chunk_rows (tables c) @ [stored_chunk_row ver chunk]\<rparr>"
  have "insert_chunk ver chunk (tables c) = Some ?t"
    using Cons.prems by (intro insert_chunk_live) (auto simp: no_clash_def)
  then have ins: "sql_execute (insert_chunk ver chunk) c = (c\<lparr>tables := ?t\<rparr>, Inr ())"
    by (rule healthy_execute [OF Cons.prems(1)])
  have "to_sql_u32 (ck_index chunk) \<noteq> to_sql_u32 (ck_index x)" if "x \<in> set cs" for x
    using Cons.prems(5) that by auto
  then have clash: "no_clash ver cs ?t"
    using Cons.prems(6,7) by (auto simp: no_clash_def stored_chunk_row_def)
  from Cons.prems clash Cons.IH [of "c\<lparr>tables := ?t\<rparr>"] ins show ?case
    by (auto simp: version_exists_def)
qed simp

lemma healthy_transaction:
  assumes "healthy c" "body c = (c', Inr x)" "healthy c'"
  shows "transaction body c = (c', Inr x)"
  using assms by (simp add: transaction_def healthy_tick)

lemma healthy_commit:
  assumes "healthy c" "body c = (c\<lparr>tables := t\<rparr>, Inr ())"
  shows "\<exists>c'. then_do (transaction body) (\<lambda>_. enforce_state_files) c = (c', Inr ()) \<and> healthy c' \<and> tables c' = t"
proof -
  have h: "healthy (c\<lparr>tables := t\<rparr>)" using assms(1) by simp
  obtain c' where enf: "enforce_state_files (c\<lparr>tables := t\<rparr>) = (c', Inr ())" using healthy_enforce [OF h] by blast
  from healthy_transaction [where body = body, OF assms h] healthy_after_enforce [OF h enf] enforce_state_files_frame [OF enf] enf show ?thesis
    by (simp add: then_do_def)
qed

lemma healthy_store:
  assumes "healthy c" "foreign_keys_ok (tables c)" "publishable v cs (tables c)"
  shows "\<exists>t. sql_execute (insert_version v) c = (c\<lparr>tables := t\<rparr>, Inr ())
    \<and> insert_chunks (sv_version_id v) cs (c\<lparr>tables := t\<rparr>) = (c\<lparr>tables := stored v cs (tables c)\<rparr>, Inr ())"
proof -
  let ?t1 = "(tables c)\<lparr>versions := versions (tables c) @ [stored_row v]\<rparr>"
  note fits = assms(3) [unfolded publishable_def version_fits_def]
  have v: "sql_execute (insert_version v) c = (c\<lparr>tables := ?t1\<rparr>, Inr ())"
    using assms(3) by (intro healthy_execute assms(1)) (simp add: insert_version_eq publishable_def)
  have "\<forall>row \<in> set (chunk_rows (tables c)). cr_version_id row \<noteq> sv_version_id v"
    using assms(2,3) by (auto simp: foreign_keys_ok_def list_all_iff publishable_def)
  then have "no_clash (sv_version_id v) cs ?t1" by (simp add: no_clash_def)
  moreover have "version_exists (sv_version_id v) ?t1" by (simp add: version_exists_def) (simp add: stored_row_def)
  ultimately have "insert_chunks (sv_version_id v) cs (c\<lparr>tables := ?t1\<rparr>) = (c\<lparr>tables := stored v cs (tables c)\<rparr>, Inr ())"
    using healthy_insert_chunks [of "c\<lparr>tables := ?t1\<rparr>" "sv_version_id v" cs] assms(1) fits by (simp add: stored_def)
  with v show ?thesis by blast
qed

lemma healthy_publish:
  assumes "healthy c" "foreign_keys_ok (tables c)" "publishable v cs (tables c)"
  shows "\<exists>c'. publish v cs c = (c', Inr ()) \<and> healthy c'"
proof -
  let ?body = "then_do (sql_execute (insert_version v)) (\<lambda>_. then_do (insert_chunks (sv_version_id v) cs) (\<lambda>_.
     then_do (\<lambda>c. (c, Inr ())) (\<lambda>_. sql_execute (set_active (sv_object_id v) (sv_version_id v)))))"
  let ?c = "c\<lparr>tables := stored v cs (tables c)\<rparr>"
  have "sql_execute (set_active (sv_object_id v) (sv_version_id v)) ?c = (c\<lparr>tables := published v cs None (tables c)\<rparr>, Inr ())"
    using assms healthy_execute [of ?c "set_active (sv_object_id v) (sv_version_id v)"]
    by (simp add: set_active_Some published_None publishable_def version_fits_def)
  with healthy_store [OF assms] have "?body c = (c\<lparr>tables := published v cs None (tables c)\<rparr>, Inr ())"
    by (auto simp: then_do_def)
  from healthy_commit [where body = ?body, OF assms(1) this] assms(3) show ?thesis
    by (auto simp: publish_def publish_inner_def publishable_def)
qed

lemma healthy_stage:
  assumes "healthy c" "db_ok (tables c)" "publishable v cs (tables c)" "uint e < 2 ^ 63"
  shows "\<exists>c'. stage_witness_publication v cs e c = (c', Inr ()) \<and> healthy c' \<and> tables c' = staged v cs e (tables c)"
proof -
  let ?body = "then_do (sql_execute (insert_version v)) (\<lambda>_. then_do (insert_chunks (sv_version_id v) cs) (\<lambda>_.
     sql_execute (insert_pending (sv_version_id v) e)))"
  let ?c = "c\<lparr>tables := stored v cs (tables c)\<rparr>"
  have fk: "foreign_keys_ok (tables c)" using assms(2) by (simp add: db_ok_def)
  have "insert_pending (sv_version_id v) e (tables ?c) = Some (staged v cs e (tables c))"
    using assms fk by (auto simp: insert_pending_def to_sql_u64_def staged_def publishable_def version_fits_def foreign_keys_ok_def list_all_iff)
  then have "sql_execute (insert_pending (sv_version_id v) e) ?c = (c\<lparr>tables := staged v cs e (tables c)\<rparr>, Inr ())"
    using assms(1) healthy_execute [of ?c] by simp
  with healthy_store [OF assms(1) fk assms(3)] have "?body c = (c\<lparr>tables := staged v cs e (tables c)\<rparr>, Inr ())"
    by (auto simp: then_do_def)
  from healthy_commit [where body = ?body, OF assms(1) this] assms(3) show ?thesis
    by (auto simp: stage_witness_publication_def publishable_def)
qed

lemma healthy_finalize:
  assumes "healthy c" "receipt_fits r" "rc_object_id r = sv_object_id v" "rc_version_id r = sv_version_id v"
    and "version_exists (sv_version_id v) (tables c)" "select_staged (sv_version_id v) (tables c) = Inr e"
    and "\<forall>row \<in> set (freshness_rows (tables c)). fr_version_id row \<noteq> sv_version_id v
      \<and> (fr_witness_public_key row = rc_public_key r \<longrightarrow> fr_witness_epoch row \<noteq> uint (rc_witness_epoch r))"
  shows "\<exists>c'. finalize_witness_publication v r c = (c', Inr ()) \<and> healthy c' \<and> tables c' = finalized v r (tables c)"
proof -
  let ?body = "then_do (sql_query (select_staged (sv_version_id v))) (\<lambda>_. then_do (sql_execute (insert_receipt r)) (\<lambda>_.
     then_do (sql_execute (set_active (sv_object_id v) (sv_version_id v))) (\<lambda>_. sql_execute (delete_pending (sv_version_id v)))))"
  let ?t1 = "(tables c)\<lparr>freshness_rows := freshness_rows (tables c) @ [stored_receipt_row r]\<rparr>"
  let ?t2 = "?t1\<lparr>objects := activate (sv_object_id v) (sv_version_id v) (objects (tables c))\<rparr>"
  have "insert_receipt r (tables c) = Some ?t1" using assms by (simp add: insert_receipt_Some)
  moreover have "set_active (sv_object_id v) (sv_version_id v) ?t1 = Some ?t2"
    using assms(2-4) by (auto simp: set_active_Some receipt_fits_def receipt_ok_def id_ok_def)
  moreover have "delete_pending (sv_version_id v) ?t2 = Some (finalized v r (tables c))"
    by (simp add: delete_pending_def finalized_def)
  ultimately have "?body c = (c\<lparr>tables := finalized v r (tables c)\<rparr>, Inr ())"
    using assms(1,6) by (simp add: then_do_def healthy_query healthy_execute)
  from healthy_commit [where body = ?body, OF assms(1) this] assms(3,4) show ?thesis by (simp add: finalize_witness_publication_def)
qed

section \<open>Reading a publication\<close>

lemma read_published:
  assumes "publishable v cs t" and "db_ok t" and "numbered cs"
  shows "lookup_active (sv_object_id v) (published v cs None t) = Inr v"
    and "map row_chunk (version_chunks (sv_version_id v) (published v cs None t)) = map Inr cs"
    and "select_receipt C (sv_version_id v) (published v cs None t) = Inr None"
proof -
  have "select_version (sv_version_id v) (published v cs None t) = Inr v"
    using select_version_stored [OF assms(1)] by (simp add: published_None select_version_def)
  moreover from assms(1) have "length (sv_version_id v) = 16" by (simp add: publishable_def version_fits_def)
  ultimately show "lookup_active (sv_object_id v) (published v cs None t) = Inr v"
    by (simp add: lookup_active_def) (simp add: published_None select_active_activate)
  have "version_chunks (sv_version_id v) (published v cs None t) = map (stored_chunk_row (sv_version_id v)) cs"
    using version_chunks_stored [of t v cs] assms
    by (simp add: published_None version_chunks_def db_ok_def publishable_def)
  then show "map row_chunk (version_chunks (sv_version_id v) (published v cs None t)) = map Inr cs"
    using assms(1) by (simp add: publishable_def list_all_iff row_chunk_stored)
  have "find (\<lambda>row. fr_version_id row = sv_version_id v) (freshness_rows t) = None"
    using assms(1,2) by (auto simp: db_ok_def foreign_keys_ok_def list_all_iff publishable_def find_None_iff)
  then show "select_receipt C (sv_version_id v) (published v cs None t) = Inr None"
    by (simp add: published_None select_receipt_def)
qed

lemma select_receipt_finalized:
  assumes "receipt_fits r" "rc_version_id r = sv_version_id v" "signed_by C (rc_public_key r) (receipt_message r) (rc_signature r)"
    and "\<forall>row \<in> set (freshness_rows t). fr_version_id row \<noteq> sv_version_id v"
  shows "select_receipt C (sv_version_id v) (finalized v r t) = Inr (Some r)"
proof -
  have "find (\<lambda>row. fr_version_id row = sv_version_id v) (freshness_rows (finalized v r t)) = Some (stored_receipt_row r)"
    using assms(2,4) by (simp add: finalized_def find_snoc find_fresh stored_receipt_row_def)
  moreover have "receipt_new C r = Inr r" using assms(3) by (simp add: receipt_new_def receipt_verify_signature_iff and_then_eq_Inr)
  ultimately show ?thesis
    using assms(1) by (cases r) (simp add: select_receipt_def stored_receipt_row_def receipt_fits_def receipt_ok_def id_ok_def from_sql_u64_uint)
qed

lemma published_other:
  "oid \<noteq> sv_object_id v \<Longrightarrow> select_active oid (published v cs None t) = select_active oid t"
  by (simp add: published_None select_active_activate) (simp add: select_active_def)

section \<open>Properties\<close>

text \<open>Publication is atomic under every schedule of engine failures: either an error is returned and the
  committed tables are unchanged, or the version row, all its chunks and the active pointer are committed
  together, no existing version changes, and only the later enforcement of file modes can still report an
  error.\<close>

theorem publish_atomic:
  "case publish v cs c of (c', r) \<Rightarrow>
     (isl r \<and> tables c' = tables c) \<or>
     (publishable v cs (tables c) \<and> tables c' = published v cs None (tables c)
      \<and> frozen (tables c) (tables c')
      \<and> r \<in> {Inr (), Inl Storage, Inl (InvalidInput ''VLT/1 state file type'')})"
proof (cases "publish v cs c")
  case (Pair c' r)
  then have "publish_inner v cs None c = (c', r)" by (simp add: publish_def)
  then show ?thesis
    by (cases rule: publish_cases) (auto simp: Pair publishable_def frozen_published)
qed

text \<open>What publication stores is what the readers of the store return: the object's active version is
  the published one, its chunks come back in index order, it has no receipt, and every other object keeps
  its active version.\<close>

theorem publish_read_back:
  assumes "publish v cs c = (c', Inr ())" and "db_ok (tables c)" and "numbered cs"
  shows "lookup_active (sv_object_id v) (tables c') = Inr v
    \<and> map row_chunk (version_chunks (sv_version_id v) (tables c')) = map Inr cs
    \<and> select_receipt C (sv_version_id v) (tables c') = Inr None
    \<and> db_ok (tables c')
    \<and> (\<forall>oid. oid = sv_object_id v \<or> select_active oid (tables c') = select_active oid (tables c))"
proof -
  from assms(1) have pub: "publishable v cs (tables c)" "tables c' = published v cs None (tables c)"
    by (auto simp: publish_def elim: publish_cases)
  show ?thesis
    using read_published [OF pub(1) assms(2,3)] db_ok_published [OF assms(2) pub(1)]
      published_other [of _ v cs "tables c"]
    by (simp add: pub(2)) blast
qed

definition sample_store :: "database connection" where
  "sample_store = \<lparr>rng_state = sample_rng, faults = (\<lambda>_. False), files = sample_files,
     tables = empty_database, state_path = ''/v''\<rparr>"

definition sample_chunk :: encrypted_chunk where
  "sample_chunk = \<lparr>ck_index = 0, ck_record = \<lparr>nonce = replicate 12 4, ciphertext = replicate 19 5\<rparr>\<rparr>"

definition sample_version :: stored_version where
  "sample_version = \<lparr>sv_object_id = replicate 16 2, sv_version_id = replicate 16 3,
     sv_wrapped_dek = \<lparr>nonce = replicate 12 6, ciphertext = replicate 48 7\<rparr>,
     sv_manifest = \<lparr>nonce = replicate 12 8, ciphertext = replicate 90 9\<rparr>,
     sv_plaintext_len = 3, sv_chunk_size = 4, sv_chunk_count = 1\<rparr>"

lemma healthy_sample_files:
  "faults c = (\<lambda>_. False) \<Longrightarrow> state_path c = ''/v'' \<Longrightarrow> files c = sample_files \<Longrightarrow> healthy c"
  by (simp add: healthy_def enforce_owner_private_sqlite_state_def enforce_owner_private_file_def
      enforce_owner_private_optional_file_def symlink_metadata_def set_permissions_def sample_files_def then_do_def)

lemma sample_store_healthy: "healthy sample_store"
  by (rule healthy_sample_files) (simp_all add: sample_store_def)

lemma sample_publishable: "publishable sample_version [sample_chunk] (tables sample_store)"
  by (simp add: publishable_def version_fits_def sample_version_def sample_chunk_def sample_store_def empty_database_def
      version_exists_def)

theorem publish_read_back_witness:
  "\<exists>c'. publish sample_version [sample_chunk] sample_store = (c', Inr ())
     \<and> lookup_active (replicate 16 2) (tables c') = Inr sample_version"
proof -
  have ok: "db_ok (tables sample_store)" by (simp add: sample_store_def db_ok_empty)
  then obtain c' where c': "publish sample_version [sample_chunk] sample_store = (c', Inr ())"
    using healthy_publish [OF sample_store_healthy _ sample_publishable] by (auto simp: db_ok_def)
  moreover have "numbered [sample_chunk]" by (simp add: numbered_def sample_chunk_def)
  ultimately show ?thesis using publish_read_back [OF c' ok] by (simp add: sample_version_def)
qed

end
