(* ===== verification/Vlt_Vault.thy ===== *)
theory Vlt_Vault
  imports Vlt_Cde Vlt_Crypto Vlt_Storage
begin

text \<open>
  The vault, \<open>crates/vlt1-core/src/vault.rs\<close>: its lifecycle, buffered and streaming publication, the
  verified read, the sweeps over active objects, and publication under a freshness witness. A vault is
  the store's connection with the root envelope and the root key that an unlocked vault holds. A plaintext
  reader is the list of what its successive reads deliver; a writer and a witness provider are functions
  that the operations take as arguments. The theory shows the round trip of a published plaintext through
  both publication paths, that a read returns only what authenticated against the manifest, and that a
  failure that leaves the vault in doubt locks it.
\<close>

section \<open>State\<close>

record vault = "database connection" +
  vt_envelope :: root_envelope
  vt_root_key :: "bytes option"

datatype vault_status = StatusLocked | StatusUnlocked

definition DEFAULT_CHUNK_SIZE :: nat where
  "DEFAULT_CHUNK_SIZE = 4 * 1024 * 1024"

definition MAX_CHUNKS_PER_VERSION :: u32 where
  "MAX_CHUNKS_PER_VERSION = push_bit 24 1"

definition vault_of :: "database connection \<Rightarrow> root_envelope \<Rightarrow> bytes option \<Rightarrow> vault" where
  "vault_of c env rk = \<lparr>rng_state = rng_state c, faults = faults c, files = files c, tables = tables c,
     state_path = state_path c, vt_envelope = env, vt_root_key = rk\<rparr>"

text \<open>Drawing from the operating system's random source does not fail.\<close>

definition draw :: "(rng \<Rightarrow> 'a \<times> rng) \<Rightarrow> 'z env_scheme \<Rightarrow> 'z env_scheme \<times> 'a result" where
  "draw f s = (case f (rng_state s) of (x, g) \<Rightarrow> (s\<lparr>rng_state := g\<rparr>, Inr x))"

section \<open>Lifecycle\<close>

definition validate_passphrase :: "string \<Rightarrow> unit result" where
  "validate_passphrase passphrase =
     (if passphrase = [] then Inl (InvalidInput ''passphrase must not be empty'') else Inr ())"

definition vault_create ::
    "crypto \<Rightarrow> engine \<Rightarrow> string \<Rightarrow> string \<Rightarrow> database connection \<Rightarrow> database connection \<times> vault result" where
  "vault_create C E path passphrase c =
     (case validate_passphrase passphrase of
        Inl e \<Rightarrow> (c, Inl e)
      | Inr _ \<Rightarrow>
          then_do (draw random_id) (\<lambda>vid.
          then_do (draw generate_root_key) (\<lambda>root_key.
          then_do (with_rng (seal_root_key C passphrase vid root_key interactive)) (\<lambda>env.
          then_do (storage_create E path env) (\<lambda>_ c.
          (c, Inr (vault_of c env (Some root_key))))))) c)"

definition vault_open ::
    "crypto \<Rightarrow> engine \<Rightarrow> (database \<Rightarrow> string) \<Rightarrow> string \<Rightarrow> database connection \<Rightarrow> database connection \<times> vault result" where
  "vault_open C E integrity_check path =
     then_do (storage_open E path) (\<lambda>_.
     then_do (startup_integrity_check integrity_check) (\<lambda>_.
     then_do (root_envelope_of C) (\<lambda>env c.
     (c, Inr (vault_of c env None)))))"

definition unlock :: "crypto \<Rightarrow> string \<Rightarrow> vault \<Rightarrow> vault \<times> unit result" where
  "unlock C passphrase v =
     (case validate_passphrase passphrase of
        Inl e \<Rightarrow> (v, Inl e)
      | Inr _ \<Rightarrow>
          (case open_root_key C passphrase (vt_envelope v) of
             Inl e \<Rightarrow> (v, Inl e)
           | Inr root_key \<Rightarrow> (v\<lparr>vt_root_key := Some root_key\<rparr>, Inr ())))"

definition lock :: "vault \<Rightarrow> vault" where
  "lock v = v\<lparr>vt_root_key := None\<rparr>"

definition status :: "vault \<Rightarrow> vault_status" where
  "status v = (if vt_root_key v \<noteq> None then StatusUnlocked else StatusLocked)"

definition vault_id_of :: "vault \<Rightarrow> vault_id" where
  "vault_id_of v = env_vault_id (vt_envelope v)"

definition require_root_key :: "vault \<Rightarrow> bytes result" where
  "require_root_key v = ok_or Locked (vt_root_key v)"

definition lock_after_failure :: "vault \<times> 'a result \<Rightarrow> vault \<times> 'a result" where
  "lock_after_failure res =
     (case res of (v, r) \<Rightarrow>
       (case r of Inl e \<Rightarrow> if requires_lock e then lock v else v | Inr _ \<Rightarrow> v, r))"

section \<open>Buffered publication\<close>

primrec seal_chunks ::
    "crypto \<Rightarrow> bytes \<Rightarrow> vault_id \<Rightarrow> object_id \<Rightarrow> version_id \<Rightarrow> bytes list \<Rightarrow> nat
       \<Rightarrow> encrypted_chunk list \<Rightarrow> chunk_digest_builder
       \<Rightarrow> rng \<Rightarrow> rng \<times> (encrypted_chunk list \<times> chunk_digest_builder) result" where
  "seal_chunks C dek vid oid ver [] off cs digest g = (g, Inr (cs, digest))"
| "seal_chunks C dek vid oid ver (chunk # parts) off cs digest g =
     (case try_from_nat off of
        None \<Rightarrow> (g, Inl (InvalidInput ''chunk index''))
      | Some index \<Rightarrow>
          (case try_from_nat (length chunk) of
             None \<Rightarrow> (g, Inl (InvalidInput ''chunk length''))
           | Some chunk_len \<Rightarrow>
               then_do (seal C dek (chunk_aad vid oid ver index chunk_len) chunk) (\<lambda>r.
               seal_chunks C dek vid oid ver parts (off + 1) (cs @ [\<lparr>ck_index = index, ck_record = r\<rparr>])
                 (digest_update index r digest)) g))"

type_synonym prepared_version = "stored_version \<times> encrypted_chunk list"

definition new_manifest :: "object_id \<Rightarrow> version_id \<Rightarrow> u64 \<Rightarrow> u32 \<Rightarrow> u32 \<Rightarrow> bytes \<Rightarrow> manifest" where
  "new_manifest oid ver plaintext_len chunk_size chunk_count digest =
     \<lparr>mf_format_version = FORMAT_VERSION, mf_object_id = oid, mf_version_id = ver,
      mf_plaintext_len = plaintext_len, mf_chunk_size = chunk_size, mf_chunk_count = chunk_count,
      mf_chunk_digest = digest\<rparr>"

definition seal_manifest ::
    "crypto \<Rightarrow> bytes \<Rightarrow> vault_id \<Rightarrow> object_id \<Rightarrow> version_id \<Rightarrow> manifest \<Rightarrow> rng \<Rightarrow> rng \<times> sealed_record result" where
  "seal_manifest C dek vid oid ver m g =
     (case derive_manifest_key C dek ver of
        Inl e \<Rightarrow> (g, Inl e)
      | Inr manifest_key \<Rightarrow> seal C manifest_key (manifest_aad vid oid ver) (encode_manifest m) g)"

definition wrap_dek ::
    "crypto \<Rightarrow> bytes \<Rightarrow> vault_id \<Rightarrow> object_id \<Rightarrow> version_id \<Rightarrow> bytes \<Rightarrow> rng \<Rightarrow> rng \<times> sealed_record result" where
  "wrap_dek C root_key vid oid ver dek g =
     (case derive_kek C root_key vid of
        Inl e \<Rightarrow> (g, Inl e)
      | Inr wrapping_key \<Rightarrow> seal C wrapping_key (wrapped_dek_aad vid oid ver) dek g)"

text \<open>The part of \<open>prepare_version\<close> after its input checks.\<close>

definition encrypt_version ::
    "crypto \<Rightarrow> bytes \<Rightarrow> vault_id \<Rightarrow> object_id \<Rightarrow> bytes \<Rightarrow> nat \<Rightarrow> u64 \<Rightarrow> u32 \<Rightarrow> u32
       \<Rightarrow> rng \<Rightarrow> rng \<times> prepared_version result" where
  "encrypt_version C root_key vid oid plaintext chunk_size plaintext_len chunk_size_u32 chunk_count g =
     (case random_id g of (ver, g) \<Rightarrow>
      case generate_dek g of (dek, g) \<Rightarrow>
        then_do (seal_chunks C dek vid oid ver (chunks chunk_size plaintext) 0 [] digest_new) (\<lambda>(cs, digest).
        then_do (seal_manifest C dek vid oid ver
          (new_manifest oid ver plaintext_len chunk_size_u32 chunk_count (digest_finalize C digest))) (\<lambda>m.
        then_do (wrap_dek C root_key vid oid ver dek) (\<lambda>wrapped_dek g.
        (g, Inr (\<lparr>sv_object_id = oid, sv_version_id = ver, sv_wrapped_dek = wrapped_dek, sv_manifest = m,
           sv_plaintext_len = plaintext_len, sv_chunk_size = chunk_size_u32, sv_chunk_count = chunk_count\<rparr>, cs))))) g)"

definition check_layout :: "bytes \<Rightarrow> nat \<Rightarrow> (u32 \<times> u64 \<times> u32) result" where
  "check_layout plaintext chunk_size =
     (if chunk_size = 0 then Inl (InvalidInput ''invalid chunk size'')
      else
        and_then (ok_or (InvalidInput ''invalid chunk size'') (try_from_nat chunk_size)) (\<lambda>chunk_size_u32.
        and_then (ok_or (InvalidInput ''plaintext length exceeds u64'') (try_from_nat (length plaintext))) (\<lambda>plaintext_len.
        and_then (ok_or (InvalidInput ''too many chunks'')
          (try_from_nat (if plaintext = [] then 0 else div_ceil (length plaintext) chunk_size))) (\<lambda>chunk_count.
        if chunk_count > MAX_CHUNKS_PER_VERSION then Inl (InvalidInput ''nonce budget exceeded'')
        else Inr (chunk_size_u32, plaintext_len, chunk_count)))))"

definition prepare_version ::
    "crypto \<Rightarrow> object_id \<Rightarrow> bytes \<Rightarrow> nat \<Rightarrow> vault \<Rightarrow> vault \<times> prepared_version result" where
  "prepare_version C oid plaintext chunk_size v =
     (case require_root_key v of
        Inl e \<Rightarrow> (v, Inl e)
      | Inr root_key \<Rightarrow>
          (case check_layout plaintext chunk_size of
             Inl e \<Rightarrow> (v, Inl e)
           | Inr (chunk_size_u32, plaintext_len, chunk_count) \<Rightarrow>
               with_rng (encrypt_version C root_key (vault_id_of v) oid plaintext chunk_size plaintext_len
                 chunk_size_u32 chunk_count) v))"

definition put_inner :: "crypto \<Rightarrow> object_id \<Rightarrow> bytes \<Rightarrow> nat \<Rightarrow> vault \<Rightarrow> vault \<times> version_id result" where
  "put_inner C oid plaintext chunk_size =
     then_do (prepare_version C oid plaintext chunk_size) (\<lambda>(stored, cs).
     then_do (publish stored cs) (\<lambda>_ v. (v, Inr (sv_version_id stored))))"

definition put_with_chunk_size :: "crypto \<Rightarrow> object_id \<Rightarrow> bytes \<Rightarrow> nat \<Rightarrow> vault \<Rightarrow> vault \<times> version_id result" where
  "put_with_chunk_size C oid plaintext chunk_size v = lock_after_failure (put_inner C oid plaintext chunk_size v)"

definition put :: "crypto \<Rightarrow> object_id \<Rightarrow> bytes \<Rightarrow> vault \<Rightarrow> vault \<times> version_id result" where
  "put C oid plaintext = put_with_chunk_size C oid plaintext DEFAULT_CHUNK_SIZE"

section \<open>Streaming publication\<close>

text \<open>A reader is the list of what its next reads deliver. A read takes at most the bytes that fit the buffer
  and leaves the rest of a delivery for the next one; past the last delivery every read returns zero bytes,
  and so does the read of an empty delivery.\<close>

datatype delivery = Data bytes | Interrupted | Failed

datatype read_result = ReadOk bytes | ReadInterrupted | ReadFailed

fun reader_read :: "nat \<Rightarrow> delivery list \<Rightarrow> delivery list \<times> read_result" where
  "reader_read n [] = ([], ReadOk [])"
| "reader_read n (Interrupted # rs) = (rs, ReadInterrupted)"
| "reader_read n (Failed # rs) = (rs, ReadFailed)"
| "reader_read n (Data bs # rs) =
     (if length bs \<le> n then (rs, ReadOk bs) else (Data (drop n bs) # rs, ReadOk (take n bs)))"

fun delivery_size :: "delivery \<Rightarrow> nat" where
  "delivery_size (Data bs) = Suc (length bs)"
| "delivery_size _ = 1"

abbreviation (input) reader_size :: "delivery list \<Rightarrow> nat" where
  "reader_size rs \<equiv> sum_list (map delivery_size rs)"

lemma reader_read_size:
  "reader_read n rs = (rs', ReadOk bs) \<Longrightarrow> reader_size rs' + length bs \<le> reader_size rs \<and> length bs \<le> n"
  "reader_read n rs = (rs', ReadInterrupted) \<Longrightarrow> reader_size rs' < reader_size rs"
  by (induction n rs rule: reader_read.induct) (auto split: if_splits)

function read_next_chunk :: "nat \<Rightarrow> bytes \<Rightarrow> delivery list \<Rightarrow> delivery list \<times> bytes result" where
  "read_next_chunk n filled rs =
     (if length filled < n then
        (case reader_read (n - length filled) rs of
           (rs, ReadOk bs) \<Rightarrow> if bs = [] then (rs, Inr filled) else read_next_chunk n (filled @ bs) rs
         | (rs, ReadInterrupted) \<Rightarrow> read_next_chunk n filled rs
         | (rs, ReadFailed) \<Rightarrow> (rs, Inl Storage))
      else (rs, Inr filled))"
  by pat_completeness auto
termination
  by (relation "measure (\<lambda>(n, filled, rs). reader_size rs)")
    (auto dest!: reader_read_size [OF sym] simp flip: length_greater_0_conv)

declare read_next_chunk.simps [simp del]

text \<open>The same loop over an arbitrary reader, whose state \<open>s\<close> answers every call: \<open>None\<close> is a loop that never returns, as it
  does not when the reader reports an interruption for ever. On a finite list of deliveries it returns what
  \<open>read_next_chunk\<close> computes.\<close>

partial_function (option) fill_buffer ::
    "(nat \<Rightarrow> 's \<Rightarrow> 's \<times> read_result) \<Rightarrow> nat \<Rightarrow> bytes \<Rightarrow> 's \<Rightarrow> ('s \<times> bytes result) option" where
  "fill_buffer read n filled s =
     (if length filled < n then
        (case read (n - length filled) s of
           (s, ReadOk bs) \<Rightarrow> if bs = [] then Some (s, Inr filled) else fill_buffer read n (filled @ bs) s
         | (s, ReadInterrupted) \<Rightarrow> fill_buffer read n filled s
         | (s, ReadFailed) \<Rightarrow> Some (s, Inl Storage))
      else Some (s, Inr filled))"

lemma fill_buffer_deliveries: "fill_buffer reader_read n filled rs = Some (read_next_chunk n filled rs)"
proof (induction n filled rs rule: read_next_chunk.induct)
  case (1 n filled rs)
  show ?case
    by (subst fill_buffer.simps, subst read_next_chunk.simps)
       (auto simp: 1 split: prod.splits read_result.splits)
qed

lemma fill_buffer_returns:
  assumes "fill_buffer read n filled s = Some y" "\<And>k s. read k s = (s, ReadInterrupted)"
  shows "n \<le> length filled"
proof -
  have "(\<forall>k s. read k s = (s, ReadInterrupted)) \<longrightarrow> n \<le> length filled"
  proof (rule fill_buffer.raw_induct [where P = "\<lambda>read n filled s y.
      (\<forall>k s. read k s = (s, ReadInterrupted)) \<longrightarrow> n \<le> length filled", OF _ assms(1)], intro impI)
    fix f :: "(nat \<Rightarrow> 's \<Rightarrow> 's \<times> read_result) \<Rightarrow> nat \<Rightarrow> bytes \<Rightarrow> 's \<Rightarrow> ('s \<times> bytes result) option"
      and read n filled s y
    assume IH: "\<And>read n filled s y. f read n filled s = Some y \<Longrightarrow>
        (\<forall>k s. read k s = (s, ReadInterrupted)) \<longrightarrow> n \<le> length filled"
      and eq: "(if length filled < n then
        (case read (n - length filled) s of
           (s, ReadOk bs) \<Rightarrow> if bs = [] then Some (s, Inr filled) else f read n (filled @ bs) s
         | (s, ReadInterrupted) \<Rightarrow> f read n filled s
         | (s, ReadFailed) \<Rightarrow> Some (s, Inl Storage))
        else Some (s, Inr filled)) = Some y"
      and int: "\<forall>k s. read k s = (s, ReadInterrupted)"
    from eq int have "length filled < n \<Longrightarrow> f read n filled s = Some y" by simp
    with IH int show "n \<le> length filled" by (meson not_le)
  qed
  with assms(2) show ?thesis by simp
qed

lemma fill_buffer_interrupted:
  "length filled < n \<Longrightarrow> fill_buffer (\<lambda>_ s. (s, ReadInterrupted)) n filled s = None"
  by (rule ccontr) (auto dest!: fill_buffer_returns)

lemma read_next_chunk_size:
  "read_next_chunk n filled rs = (rs', Inr buf) \<Longrightarrow>
     \<exists>bs. buf = filled @ bs \<and> reader_size rs' + length bs \<le> reader_size rs \<and> (length filled \<le> n \<longrightarrow> length buf \<le> n)"
proof (induction n filled rs arbitrary: rs' buf rule: read_next_chunk.induct)
  case (1 n filled rs)
  obtain rs1 res where r: "reader_read (n - length filled) rs = (rs1, res)" by force
  note step = 1(3) [unfolded read_next_chunk.simps [of n filled rs]]
  show ?case
  proof (cases "length filled < n")
    case True
    show ?thesis
    proof (cases res)
      case (ReadOk bs)
      with r have size: "reader_size rs1 + length bs \<le> reader_size rs" "length bs \<le> n - length filled"
        using reader_read_size(1) by blast+
      show ?thesis
      proof (cases "bs = []")
        case False
        with step True r ReadOk have rest: "read_next_chunk n (filled @ bs) rs1 = (rs', Inr buf)" by simp
        from 1(1) [OF True r [symmetric] ReadOk False rest] size show ?thesis by auto
      qed (use step True r ReadOk size in auto)
    next
      case ReadInterrupted
      with step True r have rest: "read_next_chunk n filled rs1 = (rs', Inr buf)" by simp
      from 1(2) [OF True r [symmetric] ReadInterrupted rest] reader_read_size(2) r ReadInterrupted
      show ?thesis by fastforce
    qed (use step True r in simp)
  qed (use step in auto)
qed

lemma read_next_chunk_progress:
  "read_next_chunk n [] rs = (rs', Inr buf) \<Longrightarrow> buf \<noteq> [] \<Longrightarrow> reader_size rs' < reader_size rs"
  using read_next_chunk_size [of n "[]" rs rs' buf] by (cases buf) auto

type_synonym stream_state = "streaming_publication \<times> chunk_digest_builder \<times> u32 \<times> u64"

function stream_chunks ::
    "crypto \<Rightarrow> bytes \<Rightarrow> vault_id \<Rightarrow> object_id \<Rightarrow> version_id \<Rightarrow> nat \<Rightarrow> delivery list \<Rightarrow> stream_state
       \<Rightarrow> vault \<Rightarrow> vault \<times> stream_state result" where
  "stream_chunks C dek vid oid ver chunk_size rs (p, digest, chunk_count, plaintext_len) v =
     (case read_next_chunk chunk_size [] rs of
        (rs', Inl e) \<Rightarrow> (v, Inl e)
      | (rs', Inr buf) \<Rightarrow>
          if buf = [] then (v, Inr (p, digest, chunk_count, plaintext_len))
          else if chunk_count \<ge> MAX_CHUNKS_PER_VERSION then (v, Inl (InvalidInput ''nonce budget exceeded''))
          else case try_from_nat (length buf) of
            None \<Rightarrow> (v, Inl (InvalidInput ''chunk length''))
          | Some chunk_len \<Rightarrow>
              then_do (with_rng (seal C dek (chunk_aad vid oid ver chunk_count chunk_len) buf)) (\<lambda>r.
              then_do (append_chunk \<lparr>ck_index = chunk_count, ck_record = r\<rparr> chunk_len p) (\<lambda>p v.
                case checked_add plaintext_len (ucast chunk_len) of
                  None \<Rightarrow> (v, Inl (InvalidInput ''plaintext length exceeds u64''))
                | Some len \<Rightarrow>
                    (case checked_add chunk_count 1 of
                       None \<Rightarrow> (v, Inl (InvalidInput ''too many chunks''))
                     | Some n \<Rightarrow>
                         stream_chunks C dek vid oid ver chunk_size rs' (p, digest_update chunk_count r digest, n, len) v))) v)"
  by pat_completeness auto
termination
  by (relation "measure (\<lambda>(C, dek, vid, oid, ver, n, rs, _). reader_size rs)")
    (auto dest!: read_next_chunk_progress [OF sym])

declare stream_chunks.simps [simp del]

definition stream_version ::
    "crypto \<Rightarrow> bytes \<Rightarrow> vault_id \<Rightarrow> object_id \<Rightarrow> version_id \<Rightarrow> sealed_record \<Rightarrow> nat \<Rightarrow> u32 \<Rightarrow> delivery list
       \<Rightarrow> vault \<Rightarrow> vault \<times> unit result" where
  "stream_version C dek vid oid ver wrapped_dek chunk_size chunk_size_u32 rs =
     then_do (begin_streaming_publication oid ver wrapped_dek chunk_size_u32) (\<lambda>p.
     then_do (stream_chunks C dek vid oid ver chunk_size rs (p, digest_new, 0, 0))
       (\<lambda>(p, digest, chunk_count, plaintext_len).
     then_do (with_rng (seal_manifest C dek vid oid ver
       (new_manifest oid ver plaintext_len chunk_size_u32 chunk_count (digest_finalize C digest)))) (\<lambda>m.
     finish m chunk_count p)))"

definition put_from_reader_inner ::
    "crypto \<Rightarrow> object_id \<Rightarrow> delivery list \<Rightarrow> nat \<Rightarrow> vault \<Rightarrow> vault \<times> version_id result" where
  "put_from_reader_inner C oid rs chunk_size v =
     (if chunk_size = 0 then (v, Inl (InvalidInput ''invalid chunk size''))
      else case try_from_nat chunk_size of
        None \<Rightarrow> (v, Inl (InvalidInput ''invalid chunk size''))
      | Some chunk_size_u32 \<Rightarrow>
          (case require_root_key v of
             Inl e \<Rightarrow> (v, Inl e)
           | Inr root_key \<Rightarrow>
               then_do (draw random_id) (\<lambda>ver.
               then_do (draw generate_dek) (\<lambda>dek.
               then_do (with_rng (wrap_dek C root_key (vault_id_of v) oid ver dek)) (\<lambda>wrapped_dek.
               then_do (then_do (transaction (stream_version C dek (vault_id_of v) oid ver wrapped_dek
                   chunk_size chunk_size_u32 rs)) (\<lambda>_. enforce_state_files)) (\<lambda>_ v.
               (v, Inr ver))))) v))"

definition put_from_reader_with_chunk_size ::
    "crypto \<Rightarrow> object_id \<Rightarrow> delivery list \<Rightarrow> nat \<Rightarrow> vault \<Rightarrow> vault \<times> version_id result" where
  "put_from_reader_with_chunk_size C oid rs chunk_size v =
     lock_after_failure (put_from_reader_inner C oid rs chunk_size v)"

definition put_from_reader :: "crypto \<Rightarrow> object_id \<Rightarrow> delivery list \<Rightarrow> vault \<Rightarrow> vault \<times> version_id result" where
  "put_from_reader C oid rs = put_from_reader_with_chunk_size C oid rs DEFAULT_CHUNK_SIZE"

section \<open>Verified read\<close>

definition validate_manifest_binding :: "manifest \<Rightarrow> stored_version \<Rightarrow> unit result" where
  "validate_manifest_binding m s =
     (if mf_format_version m \<noteq> FORMAT_VERSION \<or> mf_object_id m \<noteq> sv_object_id s
         \<or> mf_version_id m \<noteq> sv_version_id s \<or> mf_plaintext_len m \<noteq> sv_plaintext_len s
         \<or> mf_chunk_size m \<noteq> sv_chunk_size s \<or> mf_chunk_count m \<noteq> sv_chunk_count s
      then Inl (Invariant ''Manifest and SQLite metadata binding'')
      else if mf_chunk_size m = 0 \<or> mf_chunk_count m > MAX_CHUNKS_PER_VERSION
      then Inl (invalid_format ''Manifest chunk policy'')
      else Inr ())"

definition expected_plaintext_chunk_len :: "manifest \<Rightarrow> u32 \<Rightarrow> u32 result" where
  "expected_plaintext_chunk_len m index =
     (if index \<ge> mf_chunk_count m then Inl (invalid_format ''chunk index outside Manifest'')
      else if index + 1 < mf_chunk_count m then Inr (mf_chunk_size m)
      else
        let prefix = ucast (mf_chunk_size m) * ucast (mf_chunk_count m - 1) in
        and_then (ok_or (invalid_format ''Manifest plaintext length'') (checked_sub (mf_plaintext_len m) prefix)) (\<lambda>tail.
        ok_or (invalid_format ''final chunk length'') (u32_try_from_u64 tail)))"

text \<open>The two closures that the read runs over the stored chunks. The second one holds the length written so
  far and the writer; \<open>write_all\<close> also says whether the write succeeded.\<close>

fun check_chunk :: "encrypted_chunk \<Rightarrow> chunk_digest_builder \<times> u32 \<Rightarrow> (chunk_digest_builder \<times> u32) \<times> unit result" where
  "check_chunk chunk (digest, expected_index) =
     (if ck_index chunk \<noteq> expected_index then ((digest, expected_index), Inl (Invariant ''stored chunk indices''))
      else let digest = digest_update (ck_index chunk) (ck_record chunk) digest in
        case checked_add expected_index 1 of
          None \<Rightarrow> ((digest, expected_index), Inl (Invariant ''stored chunk count''))
        | Some i \<Rightarrow> ((digest, i), Inr ()))"

fun write_chunk ::
    "crypto \<Rightarrow> (bytes \<Rightarrow> 'w \<Rightarrow> 'w \<times> bool) \<Rightarrow> bytes \<Rightarrow> vault_id \<Rightarrow> object_id \<Rightarrow> version_id \<Rightarrow> manifest
       \<Rightarrow> encrypted_chunk \<Rightarrow> u64 \<times> 'w \<Rightarrow> (u64 \<times> 'w) \<times> unit result" where
  "write_chunk C write_all dek vid oid ver m chunk (written_len, w) =
     (case expected_plaintext_chunk_len m (ck_index chunk) of
        Inl e \<Rightarrow> ((written_len, w), Inl e)
      | Inr expected_chunk_len \<Rightarrow>
          (case open_record C dek (chunk_aad vid oid ver (ck_index chunk) expected_chunk_len) (ck_record chunk) of
             Inl e \<Rightarrow> ((written_len, w), Inl e)
           | Inr part \<Rightarrow>
               if length part \<noteq> unat expected_chunk_len
               then ((written_len, w), Inl (invalid_format ''authenticated chunk length''))
               else
                 (case write_all part w of
                    (w, False) \<Rightarrow> ((written_len, w), Inl Storage)
                  | (w, True) \<Rightarrow>
                      (case checked_add written_len (ucast expected_chunk_len) of
                         None \<Rightarrow> ((written_len, w), Inl (Invariant ''plaintext length after chunk assembly''))
                       | Some n \<Rightarrow> ((n, w), Inr ())))))"

definition unwrap_dek :: "crypto \<Rightarrow> bytes \<Rightarrow> vault_id \<Rightarrow> object_id \<Rightarrow> stored_version \<Rightarrow> bytes result" where
  "unwrap_dek C root_key vid oid s =
     and_then (derive_kek C root_key vid) (\<lambda>wrapping_key.
     and_then (open_record C wrapping_key (wrapped_dek_aad vid oid (sv_version_id s)) (sv_wrapped_dek s)) (\<lambda>dek.
     if length dek = 32 then Inr dek else Inl (invalid_format ''wrapped DEK length'')))"

definition open_manifest :: "crypto \<Rightarrow> bytes \<Rightarrow> vault_id \<Rightarrow> object_id \<Rightarrow> stored_version \<Rightarrow> manifest result" where
  "open_manifest C dek vid oid s =
     and_then (derive_manifest_key C dek (sv_version_id s)) (\<lambda>manifest_key.
     and_then (open_record C manifest_key (manifest_aad vid oid (sv_version_id s)) (sv_manifest s)) (\<lambda>bs.
     and_then (decode_manifest bs) (\<lambda>m.
     and_then (validate_manifest_binding m s) (\<lambda>_. Inr m))))"

definition check_receipt ::
    "crypto \<Rightarrow> vault_id \<Rightarrow> object_id \<Rightarrow> stored_version \<Rightarrow> witness_receipt option \<Rightarrow> unit result" where
  "check_receipt C vid oid s receipt =
     (case receipt of
        None \<Rightarrow> Inr ()
      | Some r \<Rightarrow> verify_request C r (request_new C vid oid (sv_version_id s) (sv_manifest s)))"

definition lift_result :: "'a result \<Rightarrow> 's \<Rightarrow> 's \<times> 'a result" where
  "lift_result r s = (s, r)"

text \<open>The first pass over the chunks.\<close>

definition check_chunks :: "crypto \<Rightarrow> version_id \<Rightarrow> manifest \<Rightarrow> vault \<Rightarrow> vault \<times> unit result" where
  "check_chunks C ver m v =
     (case visit_chunks ver check_chunk v (digest_new, 0) of
        (v, (digest, n), Inl e) \<Rightarrow> (v, Inl e)
      | (v, (digest, n), Inr _) \<Rightarrow>
          if n \<noteq> mf_chunk_count m then (v, Inl (Invariant ''stored chunk count''))
          else if digest_finalize C digest \<noteq> mf_chunk_digest m then (v, Inl Authentication)
          else (v, Inr ()))"

text \<open>Everything the read does before it decrypts a chunk.\<close>

definition open_version_with ::
    "crypto \<Rightarrow> bytes \<Rightarrow> vault_id \<Rightarrow> object_id \<Rightarrow> vault \<Rightarrow> vault \<times> (stored_version \<times> bytes \<times> manifest) result" where
  "open_version_with C root_key vid oid =
     then_do (active_version oid) (\<lambda>s.
     then_do (lift_result (if sv_object_id s \<noteq> oid then Inl (Invariant ''object pointer binding'') else Inr ())) (\<lambda>_.
     then_do (lift_result (unwrap_dek C root_key vid oid s)) (\<lambda>dek.
     then_do (lift_result (open_manifest C dek vid oid s)) (\<lambda>m.
     then_do (receipt_of C (sv_version_id s)) (\<lambda>receipt.
     then_do (lift_result (check_receipt C vid oid s receipt)) (\<lambda>_.
     then_do (check_chunks C (sv_version_id s) m) (\<lambda>_.
     lift_result (Inr (s, dek, m)))))))))"

definition open_version :: "crypto \<Rightarrow> object_id \<Rightarrow> vault \<Rightarrow> vault \<times> (stored_version \<times> bytes \<times> manifest) result" where
  "open_version C oid v =
     (case require_root_key v of
        Inl e \<Rightarrow> (v, Inl e)
      | Inr root_key \<Rightarrow> open_version_with C root_key (vault_id_of v) oid v)"

definition get_to_writer_inner ::
    "crypto \<Rightarrow> (bytes \<Rightarrow> 'w \<Rightarrow> 'w \<times> bool) \<Rightarrow> object_id \<Rightarrow> vault \<Rightarrow> 'w \<Rightarrow> vault \<times> 'w \<times> unit result" where
  "get_to_writer_inner C write_all oid v w =
     (case open_version C oid v of
        (v, Inl e) \<Rightarrow> (v, w, Inl e)
      | (v, Inr (s, dek, m)) \<Rightarrow>
          (case visit_chunks (sv_version_id s)
             (write_chunk C write_all dek (vault_id_of v) oid (sv_version_id s) m) v (0, w) of
             (v, (written_len, w), Inl e) \<Rightarrow> (v, w, Inl e)
           | (v, (written_len, w), Inr _) \<Rightarrow>
               if written_len \<noteq> mf_plaintext_len m
               then (v, w, Inl (Invariant ''plaintext length after chunk assembly''))
               else (v, w, Inr ())))"

definition write_vec :: "bytes \<Rightarrow> bytes \<Rightarrow> bytes \<times> bool" where
  "write_vec part w = (w @ part, True)"

definition write_sink :: "bytes \<Rightarrow> unit \<Rightarrow> unit \<times> bool" where
  "write_sink part w = (w, True)"

definition get_inner :: "crypto \<Rightarrow> object_id \<Rightarrow> vault \<Rightarrow> vault \<times> bytes result" where
  "get_inner C oid v =
     (case get_to_writer_inner C write_vec oid v [] of
        (v, w, Inl e) \<Rightarrow> (v, Inl e)
      | (v, w, Inr _) \<Rightarrow> (v, Inr w))"

definition get :: "crypto \<Rightarrow> object_id \<Rightarrow> vault \<Rightarrow> vault \<times> bytes result" where
  "get C oid v = lock_after_failure (get_inner C oid v)"

definition get_to_writer ::
    "crypto \<Rightarrow> (bytes \<Rightarrow> 'w \<Rightarrow> 'w \<times> bool) \<Rightarrow> object_id \<Rightarrow> vault \<Rightarrow> 'w \<Rightarrow> vault \<times> 'w \<times> unit result" where
  "get_to_writer C write_all oid v w =
     (case get_to_writer_inner C write_all oid v w of
        (v, w, r) \<Rightarrow> (case lock_after_failure (v, r) of (v, r) \<Rightarrow> (v, w, r)))"

section \<open>Sweeps, checkpoint and passphrase rotation\<close>

text \<open>\<open>u64::try_from(usize)\<close> on a list length.\<close>

definition count_u64 :: "string \<Rightarrow> 'a list \<Rightarrow> u64 result" where
  "count_u64 message xs = ok_or (Invariant message) (try_from_nat (length xs))"

primrec verify_objects :: "crypto \<Rightarrow> object_id list \<Rightarrow> vault \<Rightarrow> vault \<times> unit result" where
  "verify_objects C [] v = (v, Inr ())"
| "verify_objects C (oid # oids) v =
     (case get_to_writer_inner C write_sink oid v () of
        (v, _, Inl e) \<Rightarrow> (v, Inl e)
      | (v, _, Inr _) \<Rightarrow> verify_objects C oids v)"

definition verify_active_objects_inner :: "crypto \<Rightarrow> vault \<Rightarrow> vault \<times> u64 result" where
  "verify_active_objects_inner C v =
     (case require_root_key v of
        Inl e \<Rightarrow> (v, Inl e)
      | Inr _ \<Rightarrow>
          then_do active_object_ids (\<lambda>oids.
          then_do (verify_objects C oids) (\<lambda>_.
          lift_result (count_u64 ''active object count exceeds u64'' oids))) v)"

definition verify_active_objects :: "crypto \<Rightarrow> vault \<Rightarrow> vault \<times> u64 result" where
  "verify_active_objects C v = lock_after_failure (verify_active_objects_inner C v)"

definition full_checkpoint :: "(database \<Rightarrow> int) \<Rightarrow> vault \<Rightarrow> vault \<times> unit result" where
  "full_checkpoint busy v =
     lock_after_failure
       (case require_root_key v of
          Inl e \<Rightarrow> (v, Inl e)
        | Inr _ \<Rightarrow> storage_full_checkpoint busy v)"

definition rotate_passphrase :: "crypto \<Rightarrow> string \<Rightarrow> string \<Rightarrow> vault \<Rightarrow> vault \<times> unit result" where
  "rotate_passphrase C current replacement v =
     (case validate_passphrase replacement of
        Inl e \<Rightarrow> (v, Inl e)
      | Inr _ \<Rightarrow>
          lock_after_failure
            (case open_root_key C current (vt_envelope v) of
               Inl e \<Rightarrow> (v, Inl e)
             | Inr root_key \<Rightarrow>
                 then_do (with_rng (seal_root_key C replacement (vault_id_of v) root_key interactive)) (\<lambda>env.
                 then_do (replace_root_envelope env) (\<lambda>_ v.
                 (v\<lparr>vt_envelope := env, vt_root_key := None\<rparr>, Inr ()))) v))"

section \<open>Operations with a freshness witness\<close>

text \<open>The provider's state travels beside the vault.\<close>

definition on_vault :: "(vault \<Rightarrow> vault \<times> 'a result) \<Rightarrow> vault \<times> 'p \<Rightarrow> (vault \<times> 'p) \<times> 'a result" where
  "on_vault f s = (case s of (v, p) \<Rightarrow> case f v of (v, r) \<Rightarrow> ((v, p), r))"

definition on_provider :: "('p \<Rightarrow> 'p \<times> 'a result) \<Rightarrow> vault \<times> 'p \<Rightarrow> (vault \<times> 'p) \<times> 'a result" where
  "on_provider f s = (case s of (v, p) \<Rightarrow> case f p of (p, r) \<Rightarrow> ((v, p), r))"

definition lock_pair :: "(vault \<times> 'p) \<times> 'a result \<Rightarrow> (vault \<times> 'p) \<times> 'a result" where
  "lock_pair res = (case res of ((v, p), r) \<Rightarrow> case lock_after_failure (v, r) of (v, r) \<Rightarrow> ((v, p), r))"

type_synonym 'p issuer = "witness_request \<Rightarrow> u64 \<Rightarrow> 'p \<Rightarrow> 'p \<times> witness_receipt result"

type_synonym 'p head_source = "vault_id \<Rightarrow> object_id \<Rightarrow> bytes \<Rightarrow> 'p \<Rightarrow> 'p \<times> witness_head result"

text \<open>Issue, verify and finalize, the part that publication and recovery share.\<close>

definition acknowledge ::
    "crypto \<Rightarrow> 'p issuer \<Rightarrow> vault_id \<Rightarrow> stored_version \<Rightarrow> u64 \<Rightarrow> vault \<times> 'p \<Rightarrow> (vault \<times> 'p) \<times> unit result" where
  "acknowledge C issue vid s expected_epoch =
     (let rq = request_new C vid (sv_object_id s) (sv_version_id s) (sv_manifest s) in
      then_do (on_provider (issue rq expected_epoch)) (\<lambda>r.
      then_do (lift_result (verify_request C r rq)) (\<lambda>_.
      on_vault (finalize_witness_publication s r))))"

definition put_with_witness_inner ::
    "crypto \<Rightarrow> 'p issuer \<Rightarrow> object_id \<Rightarrow> bytes \<Rightarrow> vault \<times> 'p \<Rightarrow> (vault \<times> 'p) \<times> version_id result" where
  "put_with_witness_inner C issue oid plaintext =
     then_do (on_vault (prepare_version C oid plaintext DEFAULT_CHUNK_SIZE)) (\<lambda>(s, cs).
     then_do (on_vault (active_receipt C oid)) (\<lambda>receipt.
       let expected_epoch = (case receipt of None \<Rightarrow> 0 | Some r \<Rightarrow> rc_witness_epoch r) in
     then_do (on_vault (stage_witness_publication s cs expected_epoch)) (\<lambda>_.
     then_do (\<lambda>(v, p). acknowledge C issue (vault_id_of v) s expected_epoch (v, p)) (\<lambda>_.
     lift_result (Inr (sv_version_id s))))))"

definition put_with_witness ::
    "crypto \<Rightarrow> 'p issuer \<Rightarrow> object_id \<Rightarrow> bytes \<Rightarrow> vault \<times> 'p \<Rightarrow> (vault \<times> 'p) \<times> version_id result" where
  "put_with_witness C issue oid plaintext s = lock_pair (put_with_witness_inner C issue oid plaintext s)"

primrec recover_all ::
    "crypto \<Rightarrow> 'p issuer \<Rightarrow> (stored_version \<times> u64) list \<Rightarrow> vault \<times> 'p \<Rightarrow> (vault \<times> 'p) \<times> unit result" where
  "recover_all C issue [] s = (s, Inr ())"
| "recover_all C issue (entry # pending) s =
     then_do (\<lambda>(v, p). acknowledge C issue (vault_id_of v) (fst entry) (snd entry) (v, p)) (\<lambda>_.
     recover_all C issue pending) s"

definition recover_pending_witness_publications_inner ::
    "crypto \<Rightarrow> 'p issuer \<Rightarrow> vault \<times> 'p \<Rightarrow> (vault \<times> 'p) \<times> u64 result" where
  "recover_pending_witness_publications_inner C issue s =
     (case require_root_key (fst s) of
        Inl e \<Rightarrow> (s, Inl e)
      | Inr _ \<Rightarrow>
          then_do (on_vault pending_witness_publications) (\<lambda>pending.
          then_do (recover_all C issue pending) (\<lambda>_.
          lift_result (count_u64 ''pending witness publication count exceeds u64'' pending))) s)"

definition recover_pending_witness_publications ::
    "crypto \<Rightarrow> 'p issuer \<Rightarrow> vault \<times> 'p \<Rightarrow> (vault \<times> 'p) \<times> u64 result" where
  "recover_pending_witness_publications C issue s = lock_pair (recover_pending_witness_publications_inner C issue s)"

definition head_matches :: "witness_head \<Rightarrow> witness_receipt \<Rightarrow> bool" where
  "head_matches h r \<longleftrightarrow> hd_present h \<and> hd_version_id h = Some (rc_version_id r)
     \<and> hd_witness_epoch h = rc_witness_epoch r \<and> hd_commitment h = Some (rc_commitment r)
     \<and> hd_public_key h = rc_public_key r"

definition verify_object_with_witness ::
    "crypto \<Rightarrow> 'p head_source \<Rightarrow> object_id \<Rightarrow> vault \<times> 'p \<Rightarrow> (vault \<times> 'p) \<times> unit result" where
  "verify_object_with_witness C head oid =
     then_do (on_vault (active_receipt C oid)) (\<lambda>receipt.
     then_do (lift_result (ok_or WitnessConflict receipt)) (\<lambda>r.
     then_do (on_vault (with_rng (\<lambda>g. case random_witness_challenge g of (g, ch) \<Rightarrow> (g, Inr ch)))) (\<lambda>challenge.
     then_do (\<lambda>(v, p). on_provider (head (vault_id_of v) oid challenge) (v, p)) (\<lambda>h.
     then_do (lift_result (if head_matches h r then Inr () else Inl WitnessConflict)) (\<lambda>_.
     on_vault (\<lambda>v. case get_to_writer_inner C write_sink oid v () of (v, _, r) \<Rightarrow> (v, r)))))))"

primrec verify_objects_with_witness ::
    "crypto \<Rightarrow> 'p head_source \<Rightarrow> object_id list \<Rightarrow> vault \<times> 'p \<Rightarrow> (vault \<times> 'p) \<times> unit result" where
  "verify_objects_with_witness C head [] s = (s, Inr ())"
| "verify_objects_with_witness C head (oid # oids) s =
     then_do (verify_object_with_witness C head oid) (\<lambda>_. verify_objects_with_witness C head oids) s"

definition verify_active_objects_with_witness_inner ::
    "crypto \<Rightarrow> 'p head_source \<Rightarrow> vault \<times> 'p \<Rightarrow> (vault \<times> 'p) \<times> u64 result" where
  "verify_active_objects_with_witness_inner C head s =
     (case require_root_key (fst s) of
        Inl e \<Rightarrow> (s, Inl e)
      | Inr _ \<Rightarrow>
          then_do (on_vault active_object_ids) (\<lambda>oids.
          then_do (verify_objects_with_witness C head oids) (\<lambda>_.
          lift_result (count_u64 ''active object count exceeds u64'' oids))) s)"

definition verify_active_objects_with_witness ::
    "crypto \<Rightarrow> 'p head_source \<Rightarrow> vault \<times> 'p \<Rightarrow> (vault \<times> 'p) \<times> u64 result" where
  "verify_active_objects_with_witness C head s = lock_pair (verify_active_objects_with_witness_inner C head s)"

end
