(* ===== verification/Vlt_Vault_Read.thy ===== *)
theory Vlt_Vault_Read
  imports Vlt_Vault
begin

text \<open>
  What a verified read returns. \<open>contents\<close> is the reference: the plaintext that an object's active version
  decrypts to when every link from the root key to the last chunk checks. The two passes of the code over
  the chunk cursor are run-time versions of the digest and of the decryption of the whole list, and the
  read succeeds exactly when the reference has a value, with the same bytes, as long as no engine call
  fails.
\<close>

section \<open>The contents of a vault\<close>

text \<open>The reference for the verified read, without engine calls, cursors or error kinds: the plaintext of an
  object is what its active version decrypts to when the whole chain from the root key to the last chunk
  checks, and there is none otherwise.\<close>

primrec row_chunks :: "chunk_row list \<Rightarrow> encrypted_chunk list option" where
  "row_chunks [] = Some []"
| "row_chunks (row # rows) =
     (case row_chunk row of Inl _ \<Rightarrow> None | Inr chunk \<Rightarrow> map_option ((#) chunk) (row_chunks rows))"

primrec open_parts ::
    "crypto \<Rightarrow> bytes \<Rightarrow> vault_id \<Rightarrow> object_id \<Rightarrow> version_id \<Rightarrow> manifest \<Rightarrow> encrypted_chunk list \<Rightarrow> bytes list option" where
  "open_parts C dek vid oid ver m [] = Some []"
| "open_parts C dek vid oid ver m (chunk # cs) =
     (case expected_plaintext_chunk_len m (ck_index chunk) of
        Inl _ \<Rightarrow> None
      | Inr len \<Rightarrow>
          (case open_record C dek (chunk_aad vid oid ver (ck_index chunk) len) (ck_record chunk) of
             Inl _ \<Rightarrow> None
           | Inr part \<Rightarrow>
               if length part = unat len then map_option ((#) part) (open_parts C dek vid oid ver m cs) else None))"

definition chunk_digest :: "crypto \<Rightarrow> encrypted_chunk list \<Rightarrow> bytes" where
  "chunk_digest C cs = sha256 C (chunk_transcript cs)"

text \<open>The checks before any chunk is decrypted.\<close>

definition opened_version ::
    "crypto \<Rightarrow> bytes \<Rightarrow> vault_id \<Rightarrow> database \<Rightarrow> object_id \<Rightarrow> stored_version \<Rightarrow> bytes \<Rightarrow> manifest \<Rightarrow> encrypted_chunk list \<Rightarrow> bool" where
  "opened_version C rk vid t oid s dek m cs \<longleftrightarrow>
     lookup_active oid t = Inr s \<and> sv_object_id s = oid \<and> unwrap_dek C rk vid oid s = Inr dek
     \<and> open_manifest C dek vid oid s = Inr m
     \<and> (\<exists>r. select_receipt C (sv_version_id s) t = Inr r \<and> check_receipt C vid oid s r = Inr ())
     \<and> row_chunks (version_chunks (sv_version_id s) t) = Some cs
     \<and> numbered cs \<and> length cs = unat (mf_chunk_count m) \<and> chunk_digest C cs = mf_chunk_digest m"

definition contents :: "crypto \<Rightarrow> bytes \<Rightarrow> vault_id \<Rightarrow> database \<Rightarrow> object_id \<Rightarrow> bytes option" where
  "contents C rk vid t oid =
     (case lookup_active oid t of
        Inl _ \<Rightarrow> None
      | Inr s \<Rightarrow>
          (case unwrap_dek C rk vid oid s of
             Inl _ \<Rightarrow> None
           | Inr dek \<Rightarrow>
               (case open_manifest C dek vid oid s of
                  Inl _ \<Rightarrow> None
                | Inr m \<Rightarrow>
                    (case row_chunks (version_chunks (sv_version_id s) t) of
                       None \<Rightarrow> None
                     | Some cs \<Rightarrow>
                         if sv_object_id s = oid
                            \<and> and_then (select_receipt C (sv_version_id s) t) (check_receipt C vid oid s) = Inr ()
                            \<and> numbered cs \<and> length cs = unat (mf_chunk_count m) \<and> chunk_digest C cs = mf_chunk_digest m
                         then
                           (case open_parts C dek vid oid (sv_version_id s) m cs of
                              None \<Rightarrow> None
                            | Some parts \<Rightarrow>
                                if length (concat parts) = unat (mf_plaintext_len m) then Some (concat parts) else None)
                         else None))))"

lemma contents_Some:
  "contents C rk vid t oid = Some pt \<longleftrightarrow>
     (\<exists>s dek m cs parts. opened_version C rk vid t oid s dek m cs
        \<and> open_parts C dek vid oid (sv_version_id s) m cs = Some parts
        \<and> length (concat parts) = unat (mf_plaintext_len m) \<and> pt = concat parts)"
  by (auto simp: contents_def opened_version_def and_then_eq_Inr split: sum.splits option.splits if_splits)

lemma row_chunks_Some: "row_chunks rows = Some cs \<longleftrightarrow> map row_chunk rows = map Inr cs"
  by (induction rows arbitrary: cs) (auto split: sum.splits)

section \<open>The two passes over the chunks\<close>

lemma run_check:
  "run_visitor check_chunk cs (d, i) = ((d', j), Inr ()) \<longleftrightarrow>
     map (unat \<circ> ck_index) cs = [unat i..<unat i + length cs] \<and> unat i + length cs < 2 ^ 32
     \<and> d' = fold (\<lambda>c. digest_update (ck_index c) (ck_record c)) cs d \<and> unat j = unat i + length cs"
proof (induction cs arbitrary: d i)
  case Nil
  have "unat i < 2 ^ 32" using unsigned_less [of i, where 'a = nat] by simp
  then show ?case by (auto simp: word_unat_eq_iff)
next
  case (Cons c cs)
  have upt: "[unat i..<Suc (unat i + length cs)] = unat i # [Suc (unat i)..<Suc (unat i + length cs)]"
    by (simp add: upt_rec)
  show ?case
  proof (cases "ck_index c = i \<and> unat i + 1 < 2 ^ 32")
    case True
    then have "checked_add i 1 = Some (i + 1)" "unat (i + 1) = Suc (unat i)"
      using unat_checked_add [of i 1 "i + 1"] by (auto simp: checked_add_def)
    with True Cons show ?thesis by (simp add: upt del: upt_Suc)
  next
    case False
    then show ?thesis
      by (auto simp: checked_add_def upt word_unat_eq_iff Let_def simp del: upt_Suc)
  qed
qed

text \<open>A writer that never fails, as the vector and the sink.\<close>

lemma run_write:
  assumes total: "\<And>part w. snd (write_all part w)"
  shows "run_visitor (write_chunk C write_all dek vid oid ver m) cs (n, w) = ((n', w'), Inr ()) \<longleftrightarrow>
     (\<exists>parts. open_parts C dek vid oid ver m cs = Some parts
        \<and> unat n + length (concat parts) < 2 ^ 64 \<and> unat n' = unat n + length (concat parts)
        \<and> w' = fold (\<lambda>part w. fst (write_all part w)) parts w)"
proof (induction cs arbitrary: n w)
  case Nil
  have "unat n < 2 ^ 64" using unsigned_less [of n, where 'a = nat] by simp
  then show ?case by (auto simp: word_unat_eq_iff)
next
  case (Cons c cs)
  show ?case
  proof (cases "expected_plaintext_chunk_len m (ck_index c)")
    case (Inr len)
    show ?thesis
    proof (cases "open_record C dek (chunk_aad vid oid ver (ck_index c) len) (ck_record c)")
      case part: (Inr part)
      obtain w1 where w: "write_all part w = (w1, True)" using total [of part w] by (metis (full_types) prod.collapse)
      show ?thesis
      proof (cases "length part = unat len")
        case True
        show ?thesis
        proof (cases "unat n + length part < 2 ^ 64")
          case small: True
          with True have add: "checked_add n (ucast len :: u64) = Some (n + ucast len)"
            by (simp add: checked_add_def)
          then have "unat (n + ucast len) = unat n + length part" using unat_checked_add [OF add] True by simp
          with Inr part w True add Cons show ?thesis
            by (auto simp: add.assoc)
        next
          case False
          with True have "checked_add n (ucast len :: u64) = None" by (simp add: checked_add_def)
          with Inr part w True False show ?thesis by (auto split: option.splits)
        qed
      qed (use Inr part in simp)
    qed (use Inr in simp)
  qed simp
qed

lemma fold_write_vec: "fold (\<lambda>part w. fst (write_vec part w)) parts w = w @ concat parts"
  by (induction parts arbitrary: w) (simp_all add: write_vec_def)

section \<open>The read against its reference\<close>

lemma same_outside_vault:
  "same_outside v v' \<Longrightarrow> vt_envelope v' = vt_envelope v \<and> vt_root_key v' = vt_root_key v \<and> vault_id_of v' = vault_id_of v"
  for v v' :: vault
  by (cases v; cases v') (simp add: same_outside_def vault_id_of_def)

lemma lift_result_eq [simp]: "lift_result r s = (s', r') \<longleftrightarrow> s' = s \<and> r' = r"
  by (auto simp: lift_result_def)

lemma outside_lift [intro]: "evolves same_outside (lift_result r)"
  by (rule evolvesI) simp

lemma reads_lift [intro]: "evolves same_tables (lift_result r)"
  by (rule evolvesI) simp

definition chunks_check :: "crypto \<Rightarrow> version_id \<Rightarrow> manifest \<Rightarrow> database \<Rightarrow> encrypted_chunk list \<Rightarrow> bool" where
  "chunks_check C ver m t cs \<longleftrightarrow>
     row_chunks (version_chunks ver t) = Some cs \<and> numbered cs \<and> length cs = unat (mf_chunk_count m)
     \<and> chunk_digest C cs = mf_chunk_digest m"

lemma chunk_digest_fold:
  "digest_finalize C (fold (\<lambda>c. digest_update (ck_index c) (ck_record c)) cs digest_new) = chunk_digest C cs"
  by (simp add: digest_finalize_def chunk_digest_def chunk_transcript_def)

lemma check_chunks_frame: "check_chunks C ver m v = (v', r) \<Longrightarrow> same_outside v v' \<and> tables v' = tables v"
  using visit_chunks_frame [of ver check_chunk v "(digest_new, 0)"]
  by (auto simp: check_chunks_def split: prod.splits sum.splits if_splits)

lemma check_chunks_Inr:
  assumes "check_chunks C ver m v = (v', Inr u)"
  shows "\<exists>cs. chunks_check C ver m (tables v) cs"
proof -
  from assms obtain digest n where visit: "visit_chunks ver check_chunk v (digest_new, 0) = (v', (digest, n), Inr ())"
    and n: "n = mf_chunk_count m" and d: "digest_finalize C digest = mf_chunk_digest m"
    by (auto simp: check_chunks_def split: prod.splits sum.splits if_splits)
  from visit obtain cs where "map row_chunk (version_chunks ver (tables v)) = map Inr cs"
    and run: "run_visitor check_chunk cs (digest_new, 0) = ((digest, n), Inr ())"
    by (rule visit_chunks_Inr)
  with n d chunk_digest_fold [of C cs] show ?thesis
    unfolding run_check by (auto simp: chunks_check_def row_chunks_Some numbered_def)
qed

lemma check_chunks_healthy:
  assumes "healthy v" "chunks_check C ver m (tables v) cs"
  shows "check_chunks C ver m v = (v, Inr ())"
proof -
  let ?d = "fold (\<lambda>c. digest_update (ck_index c) (ck_record c)) cs digest_new"
  have "unat (mf_chunk_count m) < 2 ^ 32" using unsigned_less [of "mf_chunk_count m", where 'a = nat] by simp
  with assms(2) have "run_visitor check_chunk cs (digest_new, 0) = ((?d, mf_chunk_count m), Inr ())"
    unfolding run_check by (simp add: chunks_check_def numbered_def)
  with assms chunk_digest_fold [of C cs] show ?thesis
    by (simp add: check_chunks_def visit_chunks_healthy [OF assms(1)] row_chunks_Some chunks_check_def)
qed

lemma open_version_Inr:
  assumes "open_version C oid v = (v', Inr (s, dek, m))"
  shows "\<exists>rk cs. vt_root_key v = Some rk \<and> opened_version C rk (vault_id_of v) (tables v) oid s dek m cs"
proof -
  from assms obtain rk v1 v2 r where rk: "vt_root_key v = Some rk"
    and s: "active_version oid v = (v1, Inr s)" "sv_object_id s = oid"
    and dek: "unwrap_dek C rk (vault_id_of v) oid s = Inr dek"
    and m: "open_manifest C dek (vault_id_of v) oid s = Inr m"
    and r: "receipt_of C (sv_version_id s) v1 = (v2, Inr r)" "check_receipt C (vault_id_of v) oid s r = Inr ()"
    and cs: "check_chunks C (sv_version_id s) m v2 = (v', Inr ())"
    by (auto simp: open_version_def open_version_with_def require_root_key_def then_do_eq_Inr ok_or_eq_Inr split: sum.splits if_splits)
  from s have "lookup_active oid (tables v) = Inr s" "tables v1 = tables v"
    by (simp_all add: active_version_Inr)
  moreover from r have "select_receipt C (sv_version_id s) (tables v1) = Inr r" "tables v2 = tables v1"
    by (auto simp: receipt_of_def sql_query_Inr)
  moreover from check_chunks_Inr [OF cs] obtain cs where "chunks_check C (sv_version_id s) m (tables v2) cs" ..
  ultimately show ?thesis
    using rk s dek m r by (auto simp: opened_version_def chunks_check_def)
qed

lemma check_chunks_evolves [intro]:
  "evolves same_outside (check_chunks C ver m)" "evolves same_tables (check_chunks C ver m)"
  by (auto intro!: evolvesI dest: check_chunks_frame simp: same_tables_def)

lemma open_version_with_evolves:
  "evolves same_outside (open_version_with C rk vid oid)" "evolves same_tables (open_version_with C rk vid oid)"
  unfolding open_version_with_def receipt_of_def by (intro outside_then_do reads_then_do; auto)+

lemma open_version_frame: "open_version C oid v = (v', r) \<Longrightarrow> same_outside v v' \<and> tables v' = tables v"
  by (auto simp: open_version_def same_tables_def split: sum.splits
      dest: evolvesD [OF open_version_with_evolves(1)] evolvesD [OF open_version_with_evolves(2)])

lemma open_version_healthy:
  assumes "healthy v" "vt_root_key v = Some rk" "opened_version C rk (vault_id_of v) (tables v) oid s dek m cs"
  shows "open_version C oid v = (v, Inr (s, dek, m))"
proof -
  from assms(3) obtain r where "select_receipt C (sv_version_id s) (tables v) = Inr r"
    "check_receipt C (vault_id_of v) oid s r = Inr ()" by (auto simp: opened_version_def)
  moreover have "chunks_check C (sv_version_id s) m (tables v) cs"
    using assms(3) by (simp add: opened_version_def chunks_check_def)
  ultimately show ?thesis
    using assms
    by (simp add: open_version_def open_version_with_def require_root_key_def opened_version_def then_do_def healthy_active_version
        receipt_of_def healthy_query check_chunks_healthy lift_result_def)
qed

lemma get_to_writer_Inr:
  assumes "\<And>part w. snd (write_all part w)" "get_to_writer_inner C write_all oid v w = (v', w', Inr u)"
  shows "\<exists>rk s dek m cs parts. vt_root_key v = Some rk
    \<and> opened_version C rk (vault_id_of v) (tables v) oid s dek m cs
    \<and> open_parts C dek (vault_id_of v) oid (sv_version_id s) m cs = Some parts
    \<and> length (concat parts) = unat (mf_plaintext_len m)
    \<and> w' = fold (\<lambda>part w. fst (write_all part w)) parts w"
proof -
  from assms(2) obtain v1 s dek m where o: "open_version C oid v = (v1, Inr (s, dek, m))"
    and visit: "visit_chunks (sv_version_id s) (write_chunk C write_all dek (vault_id_of v1) oid (sv_version_id s) m)
      v1 (0, w) = (v', (mf_plaintext_len m, w'), Inr ())"
    by (auto simp: get_to_writer_inner_def split: prod.splits sum.splits if_splits)
  from open_version_frame [OF o] have v1: "vault_id_of v1 = vault_id_of v" "tables v1 = tables v"
    by (auto dest: same_outside_vault)
  from open_version_Inr [OF o] obtain rk cs where rk: "vt_root_key v = Some rk"
    and ov: "opened_version C rk (vault_id_of v) (tables v) oid s dek m cs" by auto
  from visit obtain cs' where "map row_chunk (version_chunks (sv_version_id s) (tables v1)) = map Inr cs'"
    and run: "run_visitor (write_chunk C write_all dek (vault_id_of v1) oid (sv_version_id s) m) cs' (0, w)
      = ((mf_plaintext_len m, w'), Inr ())"
    by (rule visit_chunks_Inr)
  with ov v1 have "cs' = cs" by (simp add: opened_version_def flip: row_chunks_Some)
  with run v1 obtain parts where "open_parts C dek (vault_id_of v) oid (sv_version_id s) m cs = Some parts"
    "length (concat parts) = unat (mf_plaintext_len m)" "w' = fold (\<lambda>part w. fst (write_all part w)) parts w"
    unfolding run_write [OF assms(1)] by auto
  with rk ov show ?thesis by blast
qed

lemma get_to_writer_frame:
  assumes "get_to_writer_inner C write_all oid v w = (v', w', r)"
  shows "same_outside v v' \<and> tables v' = tables v"
proof (cases "open_version C oid v")
  case (Pair v1 res)
  note open_version_frame [OF this]
  with assms Pair visit_chunks_frame show ?thesis
    by (fastforce simp: get_to_writer_inner_def split: sum.splits prod.splits if_splits intro: same_outside_trans)
qed

lemma get_to_writer_healthy:
  assumes "healthy v" "vt_root_key v = Some rk" "opened_version C rk (vault_id_of v) (tables v) oid s dek m cs"
    and "open_parts C dek (vault_id_of v) oid (sv_version_id s) m cs = Some parts"
    and "length (concat parts) = unat (mf_plaintext_len m)" "\<And>part w. snd (write_all part w)"
  shows "get_to_writer_inner C write_all oid v w = (v, fold (\<lambda>part w. fst (write_all part w)) parts w, Inr ())"
proof -
  let ?visit = "write_chunk C write_all dek (vault_id_of v) oid (sv_version_id s) m"
  have "unat (mf_plaintext_len m) < 2 ^ 64" using unsigned_less [of "mf_plaintext_len m", where 'a = nat] by simp
  with assms(4,5) have "run_visitor ?visit cs (0, w) =
      ((mf_plaintext_len m, fold (\<lambda>part w. fst (write_all part w)) parts w), Inr ())"
    unfolding run_write [OF assms(6)] by auto
  moreover have "map row_chunk (version_chunks (sv_version_id s) (tables v)) = map Inr cs"
    using assms(3) by (simp add: opened_version_def row_chunks_Some)
  ultimately show ?thesis
    using open_version_healthy [OF assms(1-3)]
    by (simp add: get_to_writer_inner_def visit_chunks_healthy [OF assms(1)])
qed

lemma snd_write_vec: "snd (write_vec part w)"
  by (simp add: write_vec_def)

lemma snd_write_sink: "snd (write_sink part w)"
  by (simp add: write_sink_def)

lemma get_inner_Inr:
  assumes "get_inner C oid v = (v', Inr pt)"
  shows "\<exists>rk. vt_root_key v = Some rk \<and> contents C rk (vault_id_of v) (tables v) oid = Some pt"
proof -
  from assms have "get_to_writer_inner C write_vec oid v [] = (v', pt, Inr ())"
    by (auto simp: get_inner_def split: prod.splits sum.splits)
  from get_to_writer_Inr [OF snd_write_vec this] show ?thesis
    unfolding contents_Some fold_write_vec by force
qed

lemma get_inner_healthy:
  assumes "healthy v" "vt_root_key v = Some rk" "contents C rk (vault_id_of v) (tables v) oid = Some pt"
  shows "get_inner C oid v = (v, Inr pt)"
proof -
  from assms(3) obtain s dek m cs parts where "opened_version C rk (vault_id_of v) (tables v) oid s dek m cs"
    "open_parts C dek (vault_id_of v) oid (sv_version_id s) m cs = Some parts"
    "length (concat parts) = unat (mf_plaintext_len m)" "pt = concat parts"
    unfolding contents_Some by blast
  with get_to_writer_healthy [OF assms(1,2), of C oid s dek m cs parts write_vec "[]"] show ?thesis
    by (simp add: get_inner_def snd_write_vec fold_write_vec)
qed

end
