(* ===== verification/Vlt_Vault_Publish.thy ===== *)
theory Vlt_Vault_Publish
  imports Vlt_Vault_Read
begin

text \<open>
  What publication makes of a plaintext. \<open>encrypts\<close> relates a version and its chunks to the plaintext they
  encrypt; both the buffered path and the streaming path produce it, and publishing such a version sets
  the contents of its object to that plaintext and keeps all others. The chunk layout that the writer cuts
  is the one the reader recomputes from the manifest.
\<close>

section \<open>Sealed chunks\<close>

definition sealed_chunk ::
    "crypto \<Rightarrow> bytes \<Rightarrow> vault_id \<Rightarrow> object_id \<Rightarrow> version_id \<Rightarrow> encrypted_chunk \<Rightarrow> bytes \<Rightarrow> bool" where
  "sealed_chunk C dek vid oid ver chunk part \<longleftrightarrow>
     length part < 2 ^ 32
     \<and> open_record C dek (chunk_aad vid oid ver (ck_index chunk) (word_of_nat (length part))) (ck_record chunk) = Inr part"

lemma seal_chunk_sealed:
  assumes "aead_correct C" "seal C dek (chunk_aad vid oid ver index len) part g = (g', Inr r)"
    and "try_from_nat (length part) = Some len"
  shows "sealed_chunk C dek vid oid ver \<lparr>ck_index = index, ck_record = r\<rparr> part"
  using open_seal(1) [OF assms(1,2)] assms(3) by (auto simp: sealed_chunk_def try_from_nat_def split: if_splits)

abbreviation (input) hash_chunks :: "encrypted_chunk list \<Rightarrow> chunk_digest_builder \<Rightarrow> chunk_digest_builder" where
  "hash_chunks cs \<equiv> fold (\<lambda>c. digest_update (ck_index c) (ck_record c)) cs"

lemma seal_chunks_Inr:
  assumes "aead_correct C"
  shows "seal_chunks C dek vid oid ver parts off cs d g = (g', Inr (cs', d')) \<Longrightarrow>
    \<exists>new. cs' = cs @ new \<and> list_all2 (sealed_chunk C dek vid oid ver) new parts
      \<and> map (unat \<circ> ck_index) new = [off..<off + length parts] \<and> d' = hash_chunks new d"
proof (induction parts arbitrary: off cs d g)
  case (Cons part parts)
  then obtain index len r g1 where i: "try_from_nat off = Some index" "try_from_nat (length part) = Some len"
    and r: "seal C dek (chunk_aad vid oid ver index len) part g = (g1, Inr r)"
    and rest: "seal_chunks C dek vid oid ver parts (off + 1) (cs @ [\<lparr>ck_index = index, ck_record = r\<rparr>])
      (digest_update index r d) g1 = (g', Inr (cs', d'))"
    by (auto simp: then_do_eq_Inr split: option.splits)
  have "[off..<off + length (part # parts)] = off # [off + 1..<off + 1 + length parts]"
    by (simp add: upt_rec)
  with Cons.IH [OF rest] seal_chunk_sealed [OF assms r i(2)] unat_try_from_nat [OF i(1)] show ?case
    by auto
qed auto

lemma open_parts_sealed:
  "list_all2 (\<lambda>chunk part. sealed_chunk C dek vid oid ver chunk part
      \<and> expected_plaintext_chunk_len m (ck_index chunk) = Inr (word_of_nat (length part))) cs parts \<Longrightarrow>
     open_parts C dek vid oid ver m cs = Some parts"
  by (induction rule: list_all2_induct) (auto simp: sealed_chunk_def unat_of_nat)

section \<open>Chunk layout\<close>

lemma div_ceil_eq: "0 < n \<Longrightarrow> a \<noteq> 0 \<Longrightarrow> div_ceil a n = (a - 1) div n + 1"
proof -
  assume n: "0 < n" "a \<noteq> 0"
  show ?thesis
  proof (cases "a mod n = 0")
    case True
    then obtain k where k: "a = k * n" by (metis mod_0_imp_dvd dvdE mult.commute)
    with n have "0 < k" by (cases k) auto
    have "(k * n - 1) div n = k - 1"
    proof (rule div_nat_eqI)
      show "n * (k - 1) \<le> k * n - 1" "k * n - 1 < n * Suc (k - 1)"
        using n k \<open>0 < k\<close> by (auto simp: diff_mult_distrib2 algebra_simps intro: Suc_leI)
    qed
    with k n \<open>0 < k\<close> show ?thesis by (simp add: div_ceil_def)
  next
    case False
    have "(a - 1) div n = a div n"
    proof (rule div_nat_eqI)
      have "n * (a div n) + a mod n = a" by simp
      with False show "n * (a div n) \<le> a - 1" by linarith
      have "a < n * Suc (a div n)" using n by (simp add: dividend_less_times_div)
      then show "a - 1 < n * Suc (a div n)" by simp
    qed
    with False show ?thesis by (simp add: div_ceil_def)
  qed
qed

lemma chunk_lengths:
  assumes "0 < n" "i < length (chunks n xs)"
  shows "length (chunks n xs ! i) = (if i + 1 < length (chunks n xs) then n else length xs - n * (length (chunks n xs) - 1))"
    and "n * (length (chunks n xs) - 1) < length xs"
proof -
  from assms have ne: "xs \<noteq> []" by auto
  then have count: "length (chunks n xs) = (length xs - 1) div n + 1"
    using assms(1) by (simp add: length_chunks div_ceil_eq)
  have last: "n * ((length xs - 1) div n) \<le> length xs - 1" by simp
  have pos: "0 < length xs" using ne by simp
  with last have "n * ((length xs - 1) div n) < length xs" by linarith
  then show lt: "n * (length (chunks n xs) - 1) < length xs" by (simp add: count)
  show "length (chunks n xs ! i) = (if i + 1 < length (chunks n xs) then n else length xs - n * (length (chunks n xs) - 1))"
  proof (cases "i + 1 < length (chunks n xs)")
    case True
    then have "n * (i + 1) \<le> n * (length (chunks n xs) - 1)" by (intro mult_le_mono) simp_all
    with lt have "i * n + n \<le> length xs" by (simp add: algebra_simps)
    with True assms show ?thesis by (simp add: nth_chunks)
  next
    case False
    with assms(2) have i: "i = length (chunks n xs) - 1" by simp
    have "length xs - 1 < n * ((length xs - 1) div n) + n"
      using dividend_less_times_div [OF assms(1), of "length xs - 1"] by simp
    with count i pos have "length xs - i * n \<le> n" by (simp add: algebra_simps)
    with False assms i show ?thesis by (simp add: nth_chunks mult.commute)
  qed
qed

text \<open>The length that the reader expects of each chunk is the length the writer sealed.\<close>

lemma expected_len_chunks:
  assumes m: "0 < mf_chunk_size m" "unat (mf_chunk_count m) = length (chunks (unat (mf_chunk_size m)) xs)"
      "unat (mf_plaintext_len m) = length xs"
    and i: "i < length (chunks (unat (mf_chunk_size m)) xs)" "unat index = i"
  shows "expected_plaintext_chunk_len m index = Inr (word_of_nat (length (chunks (unat (mf_chunk_size m)) xs ! i)))"
proof -
  let ?n = "unat (mf_chunk_size m)" and ?k = "unat (mf_chunk_count m)"
  have n: "0 < ?n" using m(1) by (simp add: word_less_nat_alt)
  note len = chunk_lengths [OF n i(1)]
  have k: "?k < 2 ^ 32" and n32: "?n < 2 ^ 32" using unsigned_less [of "mf_chunk_count m", where 'a = nat]
    unsigned_less [of "mf_chunk_size m", where 'a = nat] by simp_all
  have lt: "index < mf_chunk_count m" using i m(2) by (simp add: word_less_nat_alt)
  have next_index: "unat (index + 1) = i + 1"
    using i m(2) k by (subst unat_add_lem [THEN iffD1]) simp_all
  show ?thesis
  proof (cases "i + 1 < ?k")
    case True
    then have "index + 1 < mf_chunk_count m" using next_index by (simp add: word_less_nat_alt)
    with True lt len(1) m(2) show ?thesis
      by (simp add: expected_plaintext_chunk_len_def)
  next
    case False
    then have last: "\<not> index + 1 < mf_chunk_count m" using next_index by (simp add: word_less_nat_alt)
    have "1 \<le> mf_chunk_count m" using i m(2) by (simp add: word_le_nat_alt)
    then have k1: "unat (mf_chunk_count m - 1) = ?k - 1" by (simp add: unat_sub)
    have "?n * (?k - 1) < 2 ^ 64"
      using len(2) m unsigned_less [of "mf_plaintext_len m", where 'a = nat] by simp
    then have prefix: "unat (ucast (mf_chunk_size m) * ucast (mf_chunk_count m - 1) :: u64) = ?n * (?k - 1)"
      by (subst unat_mult_lem [THEN iffD1]) (simp_all add: k1)
    from len(2) m have "ucast (mf_chunk_size m) * ucast (mf_chunk_count m - 1) \<le> mf_plaintext_len m"
      by (simp add: word_le_nat_alt prefix)
    then have sub: "checked_sub (mf_plaintext_len m) (ucast (mf_chunk_size m) * ucast (mf_chunk_count m - 1))
        = Some (mf_plaintext_len m - ucast (mf_chunk_size m) * ucast (mf_chunk_count m - 1))" (is "_ = Some ?tail")
      by (simp add: checked_sub_def)
    have tail: "unat ?tail = length (chunks ?n xs ! i)"
      using unat_checked_sub [OF sub] prefix len(1) False m by simp
    have "length (chunks ?n xs ! i) \<le> ?n" using chunks_nonempty [OF n nth_mem [OF i(1)]] by simp
    with n32 have small: "length (chunks ?n xs ! i) < 2 ^ 32" by simp
    have "?tail = ucast (word_of_nat (length (chunks ?n xs ! i)) :: u32)"
      using tail small by (simp add: word_unat_eq_iff unat_of_nat)
    then have "u32_try_from_u64 ?tail = Some (word_of_nat (length (chunks ?n xs ! i)))"
      by (simp only: u32_try_from_u64_eq_Some)
    with lt last sub show ?thesis
      by (simp add: expected_plaintext_chunk_len_def Let_def)
  qed
qed

section \<open>From sealing to contents\<close>

lemma wrap_unwrap:
  assumes "aead_correct C" "wrap_dek C rk vid oid (sv_version_id s) dek g = (g', Inr (sv_wrapped_dek s))" "length dek = 32"
  shows "unwrap_dek C rk vid oid s = Inr dek"
  using assms open_seal(1) [OF assms(1)]
  by (auto simp: wrap_dek_def unwrap_dek_def and_then_eq_Inr split: sum.splits)

lemma seal_open_manifest:
  assumes "aead_correct C" "seal_manifest C dek vid oid (sv_version_id s) m g = (g', Inr (sv_manifest s))"
    and "manifest_ok m" "validate_manifest_binding m s = Inr ()"
  shows "open_manifest C dek vid oid s = Inr m"
proof -
  from assms(2) obtain k where k: "derive_manifest_key C dek (sv_version_id s) = Inr k"
    and "seal C k (manifest_aad vid oid (sv_version_id s)) (encode_manifest m) g = (g', Inr (sv_manifest s))"
    by (auto simp: seal_manifest_def split: sum.splits)
  then have "open_record C k (manifest_aad vid oid (sv_version_id s)) (sv_manifest s) = Inr (encode_manifest m)"
    using open_seal(1) [OF assms(1)] by blast
  moreover have "decode_manifest (encode_manifest m) = Inr m"
    using length_encode_manifest [OF assms(3)] assms(3) by (subst decode_manifest_iff) simp_all
  ultimately show ?thesis using k assms(4) by (simp add: open_manifest_def)
qed

text \<open>\<open>encrypts C rk vid s cs pt\<close>: the version and its chunks are an encryption of the plaintext.\<close>

definition encrypts ::
    "crypto \<Rightarrow> bytes \<Rightarrow> vault_id \<Rightarrow> stored_version \<Rightarrow> encrypted_chunk list \<Rightarrow> bytes \<Rightarrow> bool" where
  "encrypts C rk vid s cs pt \<longleftrightarrow>
     (\<exists>dek g1 g1' g2 g2'. length dek = 32
        \<and> wrap_dek C rk vid (sv_object_id s) (sv_version_id s) dek g1 = (g1', Inr (sv_wrapped_dek s))
        \<and> seal_manifest C dek vid (sv_object_id s) (sv_version_id s)
            (new_manifest (sv_object_id s) (sv_version_id s) (sv_plaintext_len s) (sv_chunk_size s) (sv_chunk_count s)
              (chunk_digest C cs)) g2 = (g2', Inr (sv_manifest s))
        \<and> list_all2 (sealed_chunk C dek vid (sv_object_id s) (sv_version_id s)) cs (chunks (unat (sv_chunk_size s)) pt))
     \<and> numbered cs \<and> length cs = unat (sv_chunk_count s) \<and> unat (sv_plaintext_len s) = length pt
     \<and> sv_chunk_size s \<noteq> 0 \<and> sv_chunk_count s \<le> MAX_CHUNKS_PER_VERSION"

lemma encrypts_contents:
  assumes laws: "aead_correct C" "hash_width C" and enc: "encrypts C rk vid s cs pt" and fits: "version_fits s"
    and t: "lookup_active (sv_object_id s) t = Inr s" "row_chunks (version_chunks (sv_version_id s) t) = Some cs"
      "select_receipt C (sv_version_id s) t = Inr r" "check_receipt C vid (sv_object_id s) s r = Inr ()"
  shows "contents C rk vid t (sv_object_id s) = Some pt"
proof -
  let ?oid = "sv_object_id s" and ?ver = "sv_version_id s" and ?parts = "chunks (unat (sv_chunk_size s)) pt"
  let ?m = "new_manifest ?oid ?ver (sv_plaintext_len s) (sv_chunk_size s) (sv_chunk_count s) (chunk_digest C cs)"
  from enc obtain dek g1 g1' g2 g2' where dek: "length dek = 32"
    "wrap_dek C rk vid ?oid ?ver dek g1 = (g1', Inr (sv_wrapped_dek s))"
    and man: "seal_manifest C dek vid ?oid ?ver ?m g2 = (g2', Inr (sv_manifest s))"
    and parts: "list_all2 (sealed_chunk C dek vid ?oid ?ver) cs ?parts"
    by (auto simp: encrypts_def)
  from enc have layout: "numbered cs" "length cs = unat (sv_chunk_count s)" "unat (sv_plaintext_len s) = length pt"
    "sv_chunk_size s \<noteq> 0" "sv_chunk_count s \<le> MAX_CHUNKS_PER_VERSION" by (auto simp: encrypts_def)
  have "manifest_ok ?m"
    using fits laws(2) by (simp add: manifest_ok_def new_manifest_def id_ok_def version_fits_def hash_width_def chunk_digest_def)
  moreover have "validate_manifest_binding ?m s = Inr ()"
    using layout by (simp add: validate_manifest_binding_def new_manifest_def not_less)
  ultimately have m: "open_manifest C dek vid ?oid s = Inr ?m" by (rule seal_open_manifest [OF laws(1) man])
  have n: "0 < unat (sv_chunk_size s)" using layout(4) by (simp add: unat_gt_0)
  have len: "length cs = length ?parts" using parts by (rule list_all2_lengthD)
  have "expected_plaintext_chunk_len ?m (ck_index (cs ! i)) = Inr (word_of_nat (length (?parts ! i)))"
    if "i < length cs" for i
  proof -
    have "map (unat \<circ> ck_index) cs ! i = i" using layout(1) that by (simp add: numbered_def)
    then have "unat (ck_index (cs ! i)) = i" using that by simp
    with expected_len_chunks [of ?m pt i "ck_index (cs ! i)"] layout len that show ?thesis
      by (simp add: new_manifest_def word_neq_0_conv)
  qed
  with parts len have "list_all2 (\<lambda>chunk part. sealed_chunk C dek vid ?oid ?ver chunk part
      \<and> expected_plaintext_chunk_len ?m (ck_index chunk) = Inr (word_of_nat (length part))) cs ?parts"
    by (auto simp: list_all2_conv_all_nth)
  then have "open_parts C dek vid ?oid ?ver ?m cs = Some ?parts" by (rule open_parts_sealed)
  moreover have "opened_version C rk vid t ?oid s dek ?m cs"
    using t wrap_unwrap [OF laws(1) dek(2,1)] m layout
    by (simp add: opened_version_def new_manifest_def)
  ultimately show ?thesis
    unfolding contents_Some using concat_chunks [OF n, of pt] layout(3)
    by (intro exI [of _ s] exI [of _ dek] exI [of _ ?m] exI [of _ cs] exI [of _ ?parts]) (simp add: new_manifest_def)
qed

text \<open>Objects whose active version, chunks and receipt stay keep their contents.\<close>

lemma contents_cong:
  assumes "select_active oid t' = select_active oid t"
    and "\<And>ver. select_active oid t = Inr ver \<Longrightarrow> select_version ver t' = select_version ver t
      \<and> version_chunks ver t' = version_chunks ver t \<and> select_receipt C ver t' = select_receipt C ver t"
  shows "contents C rk vid t' oid = contents C rk vid t oid"
proof (cases "lookup_active oid t")
  case (Inl e)
  then have "lookup_active oid t' = Inl e"
    using assms by (auto simp: lookup_active_def and_then_eq_Inl from_slice_def split: if_splits)
  with Inl show ?thesis by (simp add: contents_def)
next
  case (Inr s)
  then have act: "select_active oid t = Inr (sv_version_id s)" and s: "lookup_active oid t' = Inr s"
    using assms by (auto simp: lookup_active_def and_then_eq_Inr from_slice_eq_Inr dest: select_version_id)
  note same = assms(2) [OF act]
  then have "version_chunks (sv_version_id s) t' = version_chunks (sv_version_id s) t"
    "select_receipt C (sv_version_id s) t' = select_receipt C (sv_version_id s) t" by blast+
  with s Inr show ?thesis by (simp add: contents_def cong: sum.case_cong option.case_cong)
qed

lemma active_version_exists:
  assumes "active_pointers_ok t" "select_active oid t = Inr ver"
  shows "\<exists>row \<in> set (versions t). vr_version_id row = ver \<and> vr_object_id row = oid"
  using assms by (auto simp: active_pointers_ok_def select_active_def list_all_iff ok_or_eq_Inr dest: find_in_set)

lemma contents_published_other:
  assumes "db_ok t" "publishable v cs t" "oid \<noteq> sv_object_id v"
  shows "contents C rk vid (published v cs None t) oid = contents C rk vid t oid"
proof (rule contents_cong)
  show "select_active oid (published v cs None t) = select_active oid t" by (rule published_other [OF assms(3)])
  fix ver assume "select_active oid t = Inr ver"
  then have "version_exists ver t"
    using active_version_exists [of t oid ver] assms(1) by (auto simp: db_ok_def version_exists_def)
  moreover have "frozen t (published v cs None t)" using assms(2) by (simp add: frozen_published publishable_def)
  ultimately show "select_version ver (published v cs None t) = select_version ver t
      \<and> version_chunks ver (published v cs None t) = version_chunks ver t
      \<and> select_receipt C ver (published v cs None t) = select_receipt C ver t"
    by (simp add: frozen_select_version frozen_version_chunks) (simp add: published_None select_receipt_def)
qed

lemma contents_published:
  assumes "aead_correct C" "hash_width C" "encrypts C rk vid v cs pt" "publishable v cs t" "db_ok t"
  shows "contents C rk vid (published v cs None t) = (contents C rk vid t)(sv_object_id v \<mapsto> pt)"
proof
  fix oid
  show "contents C rk vid (published v cs None t) oid = ((contents C rk vid t)(sv_object_id v \<mapsto> pt)) oid"
  proof (cases "oid = sv_object_id v")
    case True
    from assms(3) have "numbered cs" by (simp add: encrypts_def)
    note read = read_published [OF assms(4,5) this]
    have "version_fits v" using assms(4) by (simp add: publishable_def)
    from encrypts_contents [OF assms(1-3) this read(1) _ read(3)] read(2) True show ?thesis
      by (simp add: row_chunks_Some check_receipt_def)
  qed (simp add: contents_published_other [OF assms(5,4)])
qed

section \<open>Buffered publication\<close>

lemma check_layout_Inr:
  assumes "check_layout pt n = Inr (sz, len, count)"
  shows "0 < n \<and> unat sz = n \<and> unat len = length pt \<and> unat count = length (chunks n pt)
    \<and> count \<le> MAX_CHUNKS_PER_VERSION"
proof -
  from assms have "0 < n" "try_from_nat n = Some sz" "try_from_nat (length pt) = Some len"
    "try_from_nat (if pt = [] then 0 else div_ceil (length pt) n) = Some count" "count \<le> MAX_CHUNKS_PER_VERSION"
    by (auto simp: check_layout_def and_then_eq_Inr ok_or_eq_Inr not_less split: if_splits)
  then show ?thesis
    by (auto simp: length_chunks div_ceil_def dest: unat_try_from_nat split: if_splits)
qed

lemma generate_dek_length: "generate_dek g = (dek, g') \<Longrightarrow> length dek = 32"
  by (auto simp: generate_dek_def dest: fill_bytes_length)

lemma prepare_version_Inr:
  assumes "aead_correct C" "prepare_version C oid pt n v = (v', Inr (s, cs))"
  obtains rk where "vt_root_key v = Some rk" "encrypts C rk (vault_id_of v) s cs pt" "sv_object_id s = oid"
    "v' = v\<lparr>rng_state := rng_state v'\<rparr>"
proof -
  from assms(2) obtain rk sz len count g' where rk: "vt_root_key v = Some rk"
    and layout: "check_layout pt n = Inr (sz, len, count)"
    and enc: "encrypt_version C rk (vault_id_of v) oid pt n len sz count (rng_state v) = (g', Inr (s, cs))"
    and v': "v' = v\<lparr>rng_state := g'\<rparr>"
    by (auto simp: prepare_version_def require_root_key_def with_rng_def ok_or_eq_Inr split: sum.splits prod.splits)
  note layout = check_layout_Inr [OF layout]
  obtain ver g1 where ver: "random_id (rng_state v) = (ver, g1)" by force
  obtain dek g2 where dek: "generate_dek g1 = (dek, g2)" by force
  from enc ver dek obtain digest g3 m g4 w where
    seal: "seal_chunks C dek (vault_id_of v) oid ver (chunks n pt) 0 [] digest_new g2 = (g3, Inr (cs, digest))"
    and man: "seal_manifest C dek (vault_id_of v) oid ver
      (new_manifest oid ver len sz count (digest_finalize C digest)) g3 = (g4, Inr m)"
    and wrap: "wrap_dek C rk (vault_id_of v) oid ver dek g4 = (g', Inr w)"
    and s: "s = \<lparr>sv_object_id = oid, sv_version_id = ver, sv_wrapped_dek = w, sv_manifest = m,
       sv_plaintext_len = len, sv_chunk_size = sz, sv_chunk_count = count\<rparr>"
    by (auto simp: encrypt_version_def then_do_eq_Inr)
  from seal_chunks_Inr [OF assms(1) seal] have cs:
    "list_all2 (sealed_chunk C dek (vault_id_of v) oid ver) cs (chunks n pt)"
    "map (unat \<circ> ck_index) cs = [0..<length (chunks n pt)]" "digest = hash_chunks cs digest_new" by auto
  from cs(1) have "length cs = length (chunks n pt)" by (rule list_all2_lengthD)
  with cs layout man wrap generate_dek_length [OF dek] have "encrypts C rk (vault_id_of v) s cs pt"
    by (auto simp: encrypts_def s numbered_def chunk_digest_fold simp flip: unat_gt_0)
  with rk v' s show thesis by (intro that) auto
qed

lemma vault_id_of_rng [simp]: "vault_id_of (v\<lparr>rng_state := g\<rparr>) = vault_id_of v"
  by (simp add: vault_id_of_def)

lemma lock_after_failure_Inr [simp]: "lock_after_failure res = (v, Inr x) \<longleftrightarrow> res = (v, Inr x)"
  by (cases res) (auto simp: lock_after_failure_def split: sum.splits)

text \<open>The vault's identity: everything but the environment and the tables.\<close>

definition same_identity :: "vault \<Rightarrow> vault \<Rightarrow> bool" where
  "same_identity v v' \<longleftrightarrow> vt_envelope v' = vt_envelope v \<and> vt_root_key v' = vt_root_key v \<and> state_path v' = state_path v"

lemma same_identity_outside: "same_outside v v' \<Longrightarrow> same_identity v v'"
  using same_outside_vault [of v v'] by (simp add: same_identity_def same_outside_def)

lemma same_identity_refl [simp]: "same_identity v v"
  by (simp add: same_identity_def)

lemma same_identity_trans: "same_identity a b \<Longrightarrow> same_identity b c \<Longrightarrow> same_identity a c"
  by (simp add: same_identity_def)

lemma same_identity_rng [simp]: "same_identity v (v'\<lparr>rng_state := g\<rparr>) = same_identity v v'"
  by (simp add: same_identity_def)

lemma same_identity_id: "same_identity v v' \<Longrightarrow> vault_id_of v' = vault_id_of v"
  by (simp add: same_identity_def vault_id_of_def)

lemma prepare_version_state:
  "prepare_version C oid pt n v = (v', r) \<Longrightarrow> same_identity v v' \<and> tables v' = tables v"
  by (auto simp: prepare_version_def with_rng_def split: sum.splits prod.splits)

abbreviation (input) late_error :: "unit result \<Rightarrow> bool" where
  "late_error r \<equiv> r = Inr () \<or> r = Inl Storage \<or> r = Inl (InvalidInput ''VLT/1 state file type'')"

lemma put_inner_cases:
  assumes "aead_correct C" "put_inner C oid pt n v = (v', r)"
  obtains (failed) e where "r = Inl e" "tables v' = tables v" "same_identity v v'"
  | (committed) rk s cs u where "vt_root_key v = Some rk" "encrypts C rk (vault_id_of v) s cs pt" "sv_object_id s = oid"
      "publishable s cs (tables v)" "tables v' = published s cs None (tables v)" "same_identity v v'"
      "late_error u" "r = (case u of Inl e \<Rightarrow> Inl e | Inr _ \<Rightarrow> Inr (sv_version_id s))"
proof (cases "prepare_version C oid pt n v")
  case (Pair v1 res)
  then have id1: "same_identity v v1" "tables v1 = tables v" using prepare_version_state by blast+
  show thesis
  proof (cases res)
    case (Inl e)
    with assms(2) Pair failed id1 show thesis by (auto simp: put_inner_def then_do_def)
  next
    case (Inr sc)
    obtain s cs where sc: "sc = (s, cs)" by force
    obtain v2 u where p: "publish s cs v1 = (v2, u)" by force
    with assms(2) Pair Inr sc have r: "v' = v2" "r = (case u of Inl e \<Rightarrow> Inl e | Inr _ \<Rightarrow> Inr (sv_version_id s))"
      by (auto simp: put_inner_def then_do_def split: sum.splits)
    from p have "same_outside v1 v2" using evolvesD [OF outside_publish] by (auto simp: publish_def)
    then have id2: "same_identity v v2" using id1 same_identity_outside same_identity_trans by blast
    from prepare_version_Inr [OF assms(1)] Pair Inr sc obtain rk where rk: "vt_root_key v = Some rk"
      "encrypts C rk (vault_id_of v) s cs pt" "sv_object_id s = oid" by metis
    from p have "publish_inner s cs None v1 = (v2, u)" by (simp add: publish_def)
    then show thesis
    proof (cases rule: publish_cases)
      case (failed e)
      with r id1 id2 show thesis by (intro that(1)) auto
    next
      case committed
      with r id1 id2 rk show thesis by (intro that(2)) auto
    qed
  qed
qed

section \<open>What a reader delivers\<close>

definition delivered :: "delivery list \<Rightarrow> bytes" where
  "delivered rs = concat (map (\<lambda>d. case d of Data bs \<Rightarrow> bs | _ \<Rightarrow> []) rs)"

text \<open>A read of zero bytes means the end: no delivery is empty.\<close>

definition honest_reader :: "delivery list \<Rightarrow> bool" where
  "honest_reader rs \<longleftrightarrow> Data [] \<notin> set rs"

lemma delivered_simps [simp]:
  "delivered [] = []" "delivered (Data bs # rs) = bs @ delivered rs"
  "delivered (Interrupted # rs) = delivered rs" "delivered (Failed # rs) = delivered rs"
  by (simp_all add: delivered_def)

lemma reader_read_delivered:
  assumes "reader_read n rs = (rs', res)" "honest_reader rs" "0 < n"
  shows "honest_reader rs'"
    and "res = ReadOk bs \<Longrightarrow> delivered rs = bs @ delivered rs' \<and> (bs = [] \<longrightarrow> rs = [] \<and> rs' = [])"
    and "res = ReadInterrupted \<Longrightarrow> delivered rs = delivered rs'"
  using assms by (induction n rs rule: reader_read.induct) (auto simp: honest_reader_def split: if_splits)

lemma read_next_chunk_delivered:
  assumes "read_next_chunk n filled rs = (rs', Inr buf)" "honest_reader rs"
  shows "filled @ delivered rs = buf @ delivered rs' \<and> honest_reader rs' \<and> (n \<le> length buf \<or> delivered rs' = [])"
  using assms
proof (induction n filled rs arbitrary: rs' buf rule: read_next_chunk.induct)
  case (1 n filled rs)
  obtain rs1 res where r: "reader_read (n - length filled) rs = (rs1, res)" by force
  note step = 1(3) [unfolded read_next_chunk.simps [of n filled rs]]
  show ?case
  proof (cases "length filled < n")
    case True
    then have "0 < n - length filled" by simp
    note read = reader_read_delivered [OF r 1(4) this]
    show ?thesis
    proof (cases res)
      case (ReadOk bs)
      show ?thesis
      proof (cases "bs = []")
        case False
        with step True r ReadOk have rest: "read_next_chunk n (filled @ bs) rs1 = (rs', Inr buf)" by simp
        from 1(1) [OF True r [symmetric] ReadOk False rest read(1)] read(2) [OF ReadOk] show ?thesis by auto
      qed (use step True r ReadOk read(1) read(2) [OF ReadOk] in auto)
    next
      case ReadInterrupted
      with step True r have rest: "read_next_chunk n filled rs1 = (rs', Inr buf)" by simp
      from 1(2) [OF True r [symmetric] ReadInterrupted rest read(1)] read(3) [OF ReadInterrupted] show ?thesis by auto
    qed (use step True r in simp)
  qed (use step 1(4) in auto)
qed

text \<open>The chunks that the streaming loop reads.\<close>

function stream_parts :: "nat \<Rightarrow> delivery list \<Rightarrow> bytes list option" where
  "stream_parts n rs =
     (case read_next_chunk n [] rs of
        (rs', Inl e) \<Rightarrow> None
      | (rs', Inr buf) \<Rightarrow> if buf = [] then Some [] else map_option ((#) buf) (stream_parts n rs'))"
  by pat_completeness auto
termination
  by (relation "measure (\<lambda>(n, rs). reader_size rs)") (auto dest!: read_next_chunk_progress [OF sym])

declare stream_parts.simps [simp del]

lemma stream_parts_chunks:
  "stream_parts n rs = Some parts \<Longrightarrow> honest_reader rs \<Longrightarrow> 0 < n \<Longrightarrow> parts = chunks n (delivered rs)"
proof (induction n rs arbitrary: parts rule: stream_parts.induct)
  case (1 n rs)
  then obtain rs' buf where r: "read_next_chunk n [] rs = (rs', Inr buf)"
    by (subst (asm) (2) stream_parts.simps) (auto split: prod.splits sum.splits)
  note step = 1(2) [unfolded stream_parts.simps [of n rs] r, simplified]
  from read_next_chunk_delivered [OF r 1(3)] have d: "delivered rs = buf @ delivered rs'" "honest_reader rs'"
    "n \<le> length buf \<or> delivered rs' = []" by auto
  from read_next_chunk_size [OF r] have len: "length buf \<le> n" by auto
  show ?case
  proof (cases "buf = []")
    case True
    with step d 1(4) show ?thesis by simp
  next
    case False
    with step obtain rest where rest: "stream_parts n rs' = Some rest" "parts = buf # rest" by auto
    with 1(1) [OF r [symmetric] refl False rest(1) d(2) 1(4)] d len False 1(4) show ?thesis
      by (auto simp: chunks_step)
  qed
qed

section \<open>Streaming publication\<close>

fun stream_inv :: "stored_version \<Rightarrow> database \<Rightarrow> encrypted_chunk list \<Rightarrow> vault \<Rightarrow> stream_state \<Rightarrow> bool" where
  "stream_inv ph t cs v (p, d, count, len) \<longleftrightarrow>
     tables v = stored ph cs t \<and> sp_version_id p = sv_version_id ph \<and> sp_object_id p = sv_object_id ph
     \<and> sp_next_chunk_index p = count \<and> sp_plaintext_len p = len
     \<and> numbered cs \<and> length cs = unat count \<and> count \<le> MAX_CHUNKS_PER_VERSION
     \<and> d = hash_chunks cs digest_new
     \<and> list_all (\<lambda>chunk. length (nonce (ck_record chunk)) = 12) cs
     \<and> distinct (map ck_index cs) \<and> distinct (map (nonce \<circ> ck_record) cs)"

lemma stream_step:
  assumes inv: "stream_inv ph t cs v (p, d, count, len)"
    and app: "append_chunk \<lparr>ck_index = count, ck_record = r\<rparr> chunk_len p (v\<lparr>rng_state := g\<rparr>) = (v', Inr p')"
    and add: "checked_add len (ucast chunk_len) = Some len'" "checked_add count 1 = Some count'"
    and "count < MAX_CHUNKS_PER_VERSION"
  shows "stream_inv ph t (cs @ [\<lparr>ck_index = count, ck_record = r\<rparr>]) v' (p', digest_update count r d, count', len')"
proof -
  from inv have "tables (v\<lparr>rng_state := g\<rparr>) = stored ph cs t" "sp_version_id p = sv_version_id ph" by auto
  note app = append_chunk_Inr [OF app this]
  from add(2) have "unat count' = unat count + 1" using unat_checked_add by fastforce
  moreover have "count' \<le> MAX_CHUNKS_PER_VERSION"
    using assms(5) calculation by (simp add: word_less_nat_alt word_le_nat_alt)
  ultimately show ?thesis using inv app add by (auto simp: numbered_snoc)
qed

lemma stream_chunks_Inr:
  "aead_correct C \<Longrightarrow> stream_chunks C dek vid oid ver n rs (p, d, count, len) v = (v', Inr (p', d', count', len')) \<Longrightarrow>
    stream_inv ph t cs v (p, d, count, len) \<Longrightarrow>
    \<exists>new parts. stream_parts n rs = Some parts \<and> list_all2 (sealed_chunk C dek vid oid ver) new parts
      \<and> stream_inv ph t (cs @ new) v' (p', d', count', len')
      \<and> unat len' = unat len + length (concat parts)"
proof (induction C dek vid oid ver n rs "(p, d, count, len)" v arbitrary: p d count len cs rule: stream_chunks.induct)
  case (1 C dek vid oid ver n rs p d count len v)
  obtain rs' res where r: "read_next_chunk n [] rs = (rs', res)" by force
  note step = 1(3) [unfolded stream_chunks.simps [of C dek vid oid ver n rs] r, simplified]
  from step obtain buf where res: "res = Inr buf" by (cases res) auto
  show ?case
  proof (cases "buf = []")
    case True
    with step res have "v' = v" "(p', d', count', len') = (p, d, count, len)" by auto
    with True r res 1(4) show ?thesis
      by (intro exI [of _ "[]"]) (simp add: stream_parts.simps [of n rs])
  next
    case False
    with step res obtain cl sr g1 v2 p2 len2 n2 where cl: "try_from_nat (length buf) = Some cl"
      and max: "\<not> MAX_CHUNKS_PER_VERSION \<le> count"
      and sr: "seal C dek (chunk_aad vid oid ver count cl) buf (rng_state v) = (g1, Inr sr)"
      and app: "append_chunk \<lparr>ck_index = count, ck_record = sr\<rparr> cl p (v\<lparr>rng_state := g1\<rparr>) = (v2, Inr p2)"
      and add: "checked_add len (ucast cl) = Some len2" "checked_add count 1 = Some n2"
      and rest: "stream_chunks C dek vid oid ver n rs' (p2, digest_update count sr d, n2, len2) v2 = (v', Inr (p', d', count', len'))"
      by (auto simp: then_do_eq_Inr with_rng_def split: if_splits option.splits prod.splits)
    let ?ck = "\<lparr>ck_index = count, ck_record = sr\<rparr>"
    from stream_step [OF 1(4) app add] max have inv: "stream_inv ph t (cs @ [?ck]) v2 (p2, digest_update count sr d, n2, len2)"
      by (simp add: not_le)
    from 1(1) [OF r [symmetric] res False max cl add 1(2) rest inv] obtain new parts where
      IH: "stream_parts n rs' = Some parts" "list_all2 (sealed_chunk C dek vid oid ver) new parts"
      "stream_inv ph t ((cs @ [?ck]) @ new) v' (p', d', count', len')" "unat len' = unat len2 + length (concat parts)"
      by blast
    have "sealed_chunk C dek vid oid ver ?ck buf" by (rule seal_chunk_sealed [OF 1(2) sr cl])
    moreover have "stream_parts n rs = Some (buf # parts)"
      using r res False IH(1) by (simp add: stream_parts.simps [of n rs])
    moreover have "unat len2 = unat len + length buf"
      using unat_checked_add [OF add(1)] unat_try_from_nat [OF cl] by simp
    ultimately show ?thesis
      using IH by (intro exI [of _ "?ck # new"] exI [of _ "buf # parts"]) simp
  qed
qed

lemma identity_outside: "evolves same_outside m \<Longrightarrow> evolves same_identity m"
  by (auto simp: evolves_def same_identity_outside)

lemma identity_then_do:
  "evolves same_identity m \<Longrightarrow> (\<And>x. evolves same_identity (f x)) \<Longrightarrow> evolves same_identity (then_do m f)"
  by (rule evolves_then_do) (auto intro: same_identity_trans)

lemma identity_with_rng: "evolves same_identity (with_rng f)"
  by (rule evolvesI) (auto simp: with_rng_def split: prod.splits)

lemma identity_draw: "evolves same_identity (draw f)"
  by (rule evolvesI) (auto simp: draw_def split: prod.splits)

lemma identity_transaction:
  assumes "evolves same_identity body"
  shows "evolves same_identity (transaction body)"
proof (rule evolvesI)
  fix v v' r assume "transaction body v = (v', r)"
  moreover have "same_identity v (fst (body (fst (tick v))))"
    using assms by (auto simp: evolves_def same_identity_def tick_def)
  ultimately show "same_identity v v'"
    by (auto simp: transaction_def tick_def same_identity_def split: prod.splits sum.splits if_splits)
qed

lemmas identity_intros = identity_then_do identity_with_rng identity_draw identity_transaction

lemma outside_append_chunk [intro]: "evolves same_outside (append_chunk chunk len p)"
  unfolding append_chunk_def by (intro outside_intros) auto

lemma outside_begin [intro]: "evolves same_outside (begin_streaming_publication oid ver w sz)"
  unfolding begin_streaming_publication_def by (intro outside_intros) auto

lemma outside_finish [intro]: "evolves same_outside (finish m n p)"
  unfolding finish_def by (intro outside_intros) auto

lemma identity_stream_chunks: "stream_chunks C dek vid oid ver n rs st v = (v', r) \<Longrightarrow> same_identity v v'"
proof (induction C dek vid oid ver n rs st v arbitrary: v' r rule: stream_chunks.induct)
  case (1 C dek vid oid ver n rs p d count len v)
  obtain rs' res where rd: "read_next_chunk n [] rs = (rs', res)" by force
  note step = 1(2) [unfolded stream_chunks.simps [of C dek vid oid ver n rs] rd, simplified]
  show ?case
  proof (cases "\<exists>buf (cl :: u32). res = Inr buf \<and> buf \<noteq> [] \<and> \<not> MAX_CHUNKS_PER_VERSION \<le> count \<and> try_from_nat (length buf) = Some cl")
    case False
    with step show ?thesis by (auto split: sum.splits if_splits option.splits)
  next
    case True
    then obtain buf and cl :: u32 where b: "res = Inr buf" "buf \<noteq> []" "\<not> MAX_CHUNKS_PER_VERSION \<le> count"
      "try_from_nat (length buf) = Some cl" by blast
    obtain v1 sres where s: "with_rng (seal C dek (chunk_aad vid oid ver count cl) buf) v = (v1, sres)" by force
    then have i1: "same_identity v v1" by (rule evolvesD [OF identity_with_rng])
    show ?thesis
    proof (cases sres)
      case (Inl e)
      with step b s i1 show ?thesis by (simp add: then_do_def)
    next
      case (Inr sr)
      obtain v2 ares where a: "append_chunk \<lparr>ck_index = count, ck_record = sr\<rparr> cl p v1 = (v2, ares)" by force
      then have i2: "same_identity v v2"
        using evolvesD [OF identity_outside [OF outside_append_chunk]] i1 same_identity_trans by blast
      show ?thesis
      proof (cases "\<exists>p2 (len2 :: u64) (n2 :: u32). ares = Inr p2 \<and> checked_add len (ucast cl) = Some len2 \<and> checked_add count 1 = Some n2")
        case False
        with step b s Inr a i2 show ?thesis by (auto simp: then_do_def split: sum.splits option.splits)
      next
        case True
        then obtain p2 len2 n2 where c: "ares = Inr p2" "checked_add len (ucast cl) = Some len2" "checked_add count 1 = Some n2"
          by blast
        with step b s Inr a have "stream_chunks C dek vid oid ver n rs' (p2, digest_update count sr d, n2, len2) v2 = (v', r)"
          by (simp add: then_do_def)
        from 1(1) [OF rd [symmetric] b c(2,3) this] i2 show ?thesis by (blast intro: same_identity_trans)
      qed
    qed
  qed
qed

lemma identity_stream_version: "evolves same_identity (stream_version C dek vid oid ver w n sz rs)"
proof -
  have "evolves same_identity (stream_chunks C dek vid oid ver n rs st)" for st
    by (auto intro: evolvesI identity_stream_chunks)
  moreover have "evolves same_identity (begin_streaming_publication oid ver w sz)" "evolves same_identity (finish m k p)" for m k p
    by (auto intro: identity_outside)
  ultimately show ?thesis
    unfolding stream_version_def by (auto intro!: identity_intros split: prod.splits)
qed

text \<open>The version that a finished stream stores.\<close>

definition streams ::
    "crypto \<Rightarrow> bytes \<Rightarrow> vault_id \<Rightarrow> nat \<Rightarrow> delivery list \<Rightarrow> stored_version \<Rightarrow> encrypted_chunk list \<Rightarrow> bool" where
  "streams C rk vid n rs s cs \<longleftrightarrow> n = unat (sv_chunk_size s) \<and> (\<exists>parts. stream_parts n rs = Some parts)
     \<and> (honest_reader rs \<longrightarrow> encrypts C rk vid s cs (delivered rs))"

lemma stream_version_Inr:
  assumes laws: "aead_correct C" and body: "stream_version C dek vid oid ver w n sz rs v = (v', Inr u)"
    and dek: "length dek = 32" "wrap_dek C rk vid oid ver dek g = (g', Inr w)" and n: "0 < n" "unat sz = n"
  obtains s cs where "tables v' = published s cs None (tables v)" "publishable s cs (tables v)"
    "streams C rk vid n rs s cs" "sv_object_id s = oid" "sv_version_id s = ver"
proof -
  let ?ph = "placeholder oid ver w sz"
  from body obtain v1 p v2 p' d count len v3 m where
    b: "begin_streaming_publication oid ver w sz v = (v1, Inr p)"
    and cs: "stream_chunks C dek vid oid ver n rs (p, digest_new, 0, 0) v1 = (v2, Inr (p', d, count, len))"
    and m: "with_rng (seal_manifest C dek vid oid ver (new_manifest oid ver len sz count (digest_finalize C d))) v2 = (v3, Inr m)"
    and f: "finish m count p' v3 = (v', Inr u)"
    by (auto simp: stream_version_def then_do_eq_Inr split: prod.splits)
  note b = begin_streaming_Inr [OF b]
  then have "stream_inv ?ph (tables v) [] v1 (p, digest_new, 0, 0)"
    by (simp add: numbered_def placeholder_def)
  from stream_chunks_Inr [OF laws cs this] obtain new parts where
    parts: "stream_parts n rs = Some parts" "list_all2 (sealed_chunk C dek vid oid ver) new parts"
    and inv: "stream_inv ?ph (tables v) new v2 (p', d, count, len)" and len: "unat len = length (concat parts)" by auto
  let ?s = "?ph\<lparr>sv_manifest := m, sv_plaintext_len := len, sv_chunk_count := count\<rparr>"
  from m have v3: "tables v3 = tables v2" by (auto simp: with_rng_def split: prod.splits)
  have new: "\<not> version_exists (sv_version_id ?ph) (tables v)" using b by (simp add: placeholder_def)
  from finish_Inr [OF f, of ?ph new "tables v"] inv v3 b new
  have pub: "tables v' = published ?s new None (tables v)" "version_fits ?s" by auto
  from inv have lay: "numbered new" "length new = unat count" "count \<le> MAX_CHUNKS_PER_VERSION"
    "list_all (\<lambda>chunk. length (nonce (ck_record chunk)) = 12) new" "distinct (map ck_index new)"
    "distinct (map (nonce \<circ> ck_record) new)" "d = hash_chunks new digest_new" by simp_all
  have fields: "sv_object_id ?s = oid" "sv_version_id ?s = ver" "sv_wrapped_dek ?s = w" "sv_manifest ?s = m"
    "sv_plaintext_len ?s = len" "sv_chunk_size ?s = sz" "sv_chunk_count ?s = count"
    by (simp_all add: placeholder_def)
  have "publishable ?s new (tables v)" using pub(2) lay new fields by (simp add: publishable_def)
  moreover have "encrypts C rk vid ?s new (delivered rs)" if h: "honest_reader rs"
  proof -
    have "parts = chunks n (delivered rs)" by (rule stream_parts_chunks [OF parts(1) h n(1)])
    moreover from m obtain g2 g2' where "seal_manifest C dek vid oid ver
        (new_manifest oid ver len sz count (chunk_digest C new)) g2 = (g2', Inr m)"
      by (auto simp: with_rng_def lay(7) chunk_digest_fold split: prod.splits)
    ultimately show ?thesis
      using dek parts len lay n fields concat_chunks [OF n(1), of "delivered rs"]
      by (auto simp: encrypts_def)
  qed
  ultimately show thesis
    using pub(1) parts(1) fields n by (intro that [of ?s new]) (auto simp: streams_def)
qed

lemma put_from_reader_cases:
  assumes "aead_correct C" "put_from_reader_inner C oid rs n v = (v', r)"
  obtains (failed) e where "r = Inl e" "tables v' = tables v" "same_identity v v'"
  | (committed) rk s cs u where "vt_root_key v = Some rk" "streams C rk (vault_id_of v) n rs s cs" "sv_object_id s = oid"
      "publishable s cs (tables v)" "tables v' = published s cs None (tables v)" "same_identity v v'"
      "late_error u" "r = (case u of Inl e \<Rightarrow> Inl e | Inr _ \<Rightarrow> Inr (sv_version_id s))"
proof (cases "n \<noteq> 0 \<and> (\<exists>sz :: u32. try_from_nat n = Some sz) \<and> (\<exists>rk. vt_root_key v = Some rk)")
  case False
  with assms(2) failed show thesis
    by (auto simp: put_from_reader_inner_def require_root_key_def ok_or_def split: if_splits option.splits)
next
  case True
  then obtain sz :: u32 and rk where n: "0 < n" "try_from_nat n = Some sz" and rk: "vt_root_key v = Some rk" by auto
  let ?vid = "vault_id_of v"
  obtain ver g1 where ver: "random_id (rng_state v) = (ver, g1)" by force
  obtain dek g2 where dek: "generate_dek g1 = (dek, g2)" by force
  obtain g3 wres where w: "wrap_dek C rk ?vid oid ver dek g2 = (g3, wres)" by force
  let ?v = "v\<lparr>rng_state := g3\<rparr>"
  show thesis
  proof (cases wres)
    case (Inl e)
    with assms(2) n rk ver dek w have "r = Inl e" "v' = ?v"
      by (auto simp: put_from_reader_inner_def require_root_key_def then_do_def draw_def with_rng_def)
    then show thesis by (intro failed) auto
  next
    case (Inr wd)
    let ?body = "stream_version C dek ?vid oid ver wd n sz rs"
    obtain u where tx: "then_do (transaction ?body) (\<lambda>_. enforce_state_files) ?v = (v', u)"
      and r: "r = (case u of Inl e \<Rightarrow> Inl e | Inr _ \<Rightarrow> Inr ver)"
      using assms(2) n rk ver dek w Inr
      by (auto simp: put_from_reader_inner_def require_root_key_def then_do_def draw_def with_rng_def split: prod.splits sum.splits)
    have "evolves same_identity (then_do (transaction ?body) (\<lambda>_. enforce_state_files))"
      by (intro identity_intros identity_stream_version identity_outside [OF outside_enforce])
    from evolvesD [OF this tx] have id: "same_identity v v'" by (simp add: same_identity_def)
    from tx show thesis
    proof (cases rule: commit_cases)
      case (failed e)
      with r id show thesis by (intro that(1)) auto
    next
      case (committed v2 x)
      from stream_version_Inr [OF assms(1) committed(1) generate_dek_length [OF dek] w [unfolded Inr] n(1) unat_try_from_nat [OF n(2)]]
      obtain s cs where s: "tables v2 = published s cs None (tables v)" "publishable s cs (tables v)"
        "streams C rk ?vid n rs s cs" "sv_object_id s = oid" "sv_version_id s = ver" by auto
      with committed r id rk show thesis by (intro that(2)) auto
    qed
  qed
qed

end
