(* ===== verification/Vlt_Vault_Correct.thy ===== *)
theory Vlt_Vault_Correct
  imports Vlt_Vault_Publish
begin

text \<open>
  The properties of the vault without a witness: publication as a map update, the round trips of the
  buffered and of the streaming path, the read against its reference and the authenticity of what it
  returns, the locked state, what one fill of the chunk buffer reads, and the life of the root envelope from creation through rotation. The samples
  at the beginning are a vault over the toy primitives on which the properties are instantiated.
\<close>

section \<open>A concrete vault\<close>

definition sample_vault :: vault where
  "sample_vault = \<lparr>rng_state = sample_rng, faults = (\<lambda>_. False), files = sample_files, tables = empty_database,
     state_path = ''/v'',
     vt_envelope = \<lparr>env_vault_id = replicate 16 1, env_salt = replicate 16 0, env_params = interactive,
       env_record = \<lparr>nonce = replicate 12 0, ciphertext = []\<rparr>\<rparr>,
     vt_root_key = Some (replicate 32 7)\<rparr>"

lemma sample_vault_fields:
  "rng_state sample_vault = sample_rng" "vault_id_of sample_vault = replicate 16 1"
  "vt_root_key sample_vault = Some (replicate 32 7)"
  by (simp_all add: sample_vault_def vault_id_of_def)

lemma toy_seal: "length k = 32 \<Longrightarrow> \<exists>g' r. seal toy_crypto k a m g = (g', Inr r) \<and> length (nonce r) = 12"
  by (simp add: seal_def toy_crypto_def fill_bytes_def)

lemma toy_wrap: "\<exists>g' r. wrap_dek toy_crypto rk vid oid ver dek g = (g', Inr r) \<and> length (nonce r) = 12"
proof -
  obtain k where "derive_kek toy_crypto rk vid = Inr k" "length k = 32"
    by (simp add: derive_kek_def derive_domain_key_def toy_crypto_def)
  with toy_seal [of k] show ?thesis by (simp add: wrap_dek_def)
qed

lemma toy_manifest: "\<exists>g' r. seal_manifest toy_crypto dek vid oid ver m g = (g', Inr r) \<and> length (nonce r) = 12"
proof -
  obtain k where "derive_manifest_key toy_crypto dek ver = Inr k" "length k = 32"
    by (simp add: derive_manifest_key_def derive_domain_key_def toy_crypto_def)
  with toy_seal [of k] show ?thesis by (simp add: seal_manifest_def)
qed

lemma sample_layout: "check_layout [1, 2, 3] DEFAULT_CHUNK_SIZE = Inr (4194304, 3, 1)"
  by (simp add: check_layout_def DEFAULT_CHUNK_SIZE_def try_from_nat_def div_ceil_def MAX_CHUNKS_PER_VERSION_def)

lemma sample_prepare:
  "\<exists>v' s chunk. prepare_version toy_crypto (replicate 16 2) [1, 2, 3] DEFAULT_CHUNK_SIZE sample_vault
     = (v', Inr (s, [chunk])) \<and> publishable s [chunk] empty_database \<and> healthy v'"
proof -
  let ?vid = "replicate 16 1 :: bytes" and ?oid = "replicate 16 2 :: bytes" and ?rk = "replicate 32 7 :: bytes"
  obtain ver g1 where ver: "random_id sample_rng = (ver, g1)" by force
  obtain dek g2 where dek: "generate_dek g1 = (dek, g2)" by force
  note len = id_ok_random [OF ver] generate_dek_length [OF dek]
  have parts: "chunks DEFAULT_CHUNK_SIZE [1, 2, 3 :: u8] = [[1, 2, 3]]"
    by (simp add: DEFAULT_CHUNK_SIZE_def chunks_step)
  obtain g3 r where r: "seal toy_crypto dek (chunk_aad ?vid ?oid ver 0 3) [1, 2, 3] g2 = (g3, Inr r)" "length (nonce r) = 12"
    using toy_seal [OF len(2)] by blast
  let ?chunk = "\<lparr>ck_index = 0, ck_record = r\<rparr>" and ?d = "digest_update 0 r digest_new"
  obtain g4 m where m: "seal_manifest toy_crypto dek ?vid ?oid ver
      (new_manifest ?oid ver 3 4194304 1 (digest_finalize toy_crypto ?d)) g3 = (g4, Inr m)" "length (nonce m) = 12"
    using toy_manifest by blast
  obtain g5 w where w: "wrap_dek toy_crypto ?rk ?vid ?oid ver dek g4 = (g5, Inr w)" "length (nonce w) = 12"
    using toy_wrap by blast
  let ?s = "\<lparr>sv_object_id = ?oid, sv_version_id = ver, sv_wrapped_dek = w, sv_manifest = m,
     sv_plaintext_len = 3, sv_chunk_size = 4194304, sv_chunk_count = 1\<rparr>"
  have "seal_chunks toy_crypto dek ?vid ?oid ver [[1, 2, 3]] 0 [] digest_new g2 = (g3, Inr ([?chunk], ?d))"
    using r(1) by (simp add: try_from_nat_def)
  with ver dek m(1) w(1) parts have "encrypt_version toy_crypto ?rk ?vid ?oid [1, 2, 3] DEFAULT_CHUNK_SIZE 3 4194304 1 sample_rng
      = (g5, Inr (?s, [?chunk]))"
    by (simp add: encrypt_version_def)
  then have "prepare_version toy_crypto ?oid [1, 2, 3] DEFAULT_CHUNK_SIZE sample_vault
      = (sample_vault\<lparr>rng_state := g5\<rparr>, Inr (?s, [?chunk]))"
    by (simp add: prepare_version_def require_root_key_def sample_layout with_rng_def sample_vault_fields)
  moreover have "publishable ?s [?chunk] empty_database"
    using len r m w by (simp add: publishable_def version_fits_def empty_database_def version_exists_def id_ok_def)
  moreover have "healthy (sample_vault\<lparr>rng_state := g5\<rparr>)"
    by (rule healthy_sample_files) (simp_all add: sample_vault_def)
  ultimately show ?thesis by blast
qed

lemma sample_put:
  "\<exists>v' ver. put_with_chunk_size toy_crypto (replicate 16 2) [1, 2, 3] DEFAULT_CHUNK_SIZE sample_vault = (v', Inr ver)
     \<and> healthy v'"
proof -
  obtain v1 s chunk where p: "prepare_version toy_crypto (replicate 16 2) [1, 2, 3] DEFAULT_CHUNK_SIZE sample_vault
     = (v1, Inr (s, [chunk]))" "publishable s [chunk] empty_database" "healthy v1" using sample_prepare by blast
  have "tables v1 = empty_database" using prepare_version_state [OF p(1)] by (simp add: sample_vault_def)
  moreover have "foreign_keys_ok empty_database" using db_ok_empty by (simp add: db_ok_def)
  ultimately obtain v' where "publish s [chunk] v1 = (v', Inr ())" "healthy v'"
    using healthy_publish [OF p(3)] p(2) by auto
  with p(1) show ?thesis by (simp add: put_with_chunk_size_def put_inner_def)
qed

lemma sample_vault_simps:
  "db_ok (tables sample_vault)" "vt_root_key sample_vault = Some (replicate 32 7)"
  by (simp_all add: sample_vault_def db_ok_empty)

lemma sample_contents:
  assumes "put_inner toy_crypto (replicate 16 2) [1, 2, 3] DEFAULT_CHUNK_SIZE sample_vault = (v', Inr ver)"
  shows "contents toy_crypto (replicate 32 7) (vault_id_of v') (tables v') (replicate 16 2) = Some [1, 2, 3]"
    and "vt_root_key v' = Some (replicate 32 7)"
proof -
  from toy_crypto_laws(1) assms obtain s cs where s: "encrypts toy_crypto (replicate 32 7) (replicate 16 1) s cs [1, 2, 3]"
      "publishable s cs (tables sample_vault)" "tables v' = published s cs None (tables sample_vault)"
      "sv_object_id s = replicate 16 2" and id: "same_identity sample_vault v'"
    by (cases rule: put_inner_cases) (auto simp: sample_vault_fields)
  show "vt_root_key v' = Some (replicate 32 7)"
    using id by (simp add: same_identity_def sample_vault_fields)
  have "vault_id_of v' = replicate 16 1" using same_identity_id [OF id] by (simp add: sample_vault_fields)
  then show "contents toy_crypto (replicate 32 7) (vault_id_of v') (tables v') (replicate 16 2) = Some [1, 2, 3]"
    using contents_published [OF toy_crypto_laws(1,5) s(1,2) sample_vault_simps(1)] s(3,4) by simp
qed

section \<open>Publication and reading\<close>

text \<open>A successful buffered publication sets the contents of its object to the plaintext and keeps those
  of every other object: on the abstraction of the vault to a map from objects to plaintexts it is a map
  update. Earlier versions stay as they were, and the database stays well-formed.\<close>

theorem put_sets_contents:
  assumes "aead_correct C" and "hash_width C" and "db_ok (tables v)" and "vt_root_key v = Some rk"
    and "put_with_chunk_size C oid pt n v = (v', Inr ver)"
  shows "contents C rk (vault_id_of v) (tables v') = (contents C rk (vault_id_of v) (tables v))(oid \<mapsto> pt)
    \<and> db_ok (tables v') \<and> frozen (tables v) (tables v')"
proof -
  from assms(5) have "put_inner C oid pt n v = (v', Inr ver)" by (simp add: put_with_chunk_size_def)
  from assms(1) this show ?thesis
    by (cases rule: put_inner_cases)
      (use assms in \<open>auto simp: contents_published db_ok_published frozen_published publishable_def\<close>)
qed

theorem put_sets_contents_witness:
  "\<exists>v' ver. put_with_chunk_size toy_crypto (replicate 16 2) [1, 2, 3] DEFAULT_CHUNK_SIZE sample_vault = (v', Inr ver)
     \<and> contents toy_crypto (replicate 32 7) (vault_id_of sample_vault) (tables v') (replicate 16 2) = Some [1, 2, 3]"
proof -
  obtain v' ver where p: "put_with_chunk_size toy_crypto (replicate 16 2) [1, 2, 3] DEFAULT_CHUNK_SIZE sample_vault = (v', Inr ver)"
    using sample_put by blast
  with put_sets_contents [OF toy_crypto_laws(1,5) sample_vault_simps p] show ?thesis by simp
qed

text \<open>C4. The read is equivalent to its reference: on an unlocked vault whose engine calls do not fail, it
  returns a plaintext exactly when the chain of keys, manifest, receipt and chunks checks, and then that
  plaintext; the vault does not change.\<close>

theorem get_equals_contents:
  assumes "healthy v" and "vt_root_key v = Some rk"
  shows "(\<exists>v'. get C oid v = (v', Inr pt)) = (contents C rk (vault_id_of v) (tables v) oid = Some pt)
    \<and> ((\<exists>v'. get C oid v = (v', Inr pt)) = (get C oid v = (v, Inr pt)))"
proof -
  have "contents C rk (vault_id_of v) (tables v) oid = Some pt" if "get C oid v = (v', Inr pt)" for v'
    using get_inner_Inr [of C oid v v' pt] that assms(2) by (auto simp: get_def)
  moreover have "get C oid v = (v, Inr pt)" if "contents C rk (vault_id_of v) (tables v) oid = Some pt"
    using get_inner_healthy [OF assms that] by (simp add: get_def)
  ultimately show ?thesis by blast
qed

theorem get_equals_contents_witness:
  "\<exists>v pt. healthy v \<and> get toy_crypto (replicate 16 2) v = (v, Inr pt)"
proof -
  obtain v' ver where p: "put_inner toy_crypto (replicate 16 2) [1, 2, 3] DEFAULT_CHUNK_SIZE sample_vault = (v', Inr ver)"
    and h: "healthy v'" using sample_put by (auto simp: put_with_chunk_size_def)
  from get_equals_contents [OF h sample_contents(2) [OF p], of toy_crypto "replicate 16 2" "[1, 2, 3]"] sample_contents(1) [OF p] h
  show ?thesis by blast
qed

text \<open>C3. A published plaintext is read back: when publication reports success and the engine does not fail
  afterwards, reading the object returns exactly the published bytes.\<close>

theorem put_get_roundtrip:
  assumes "aead_correct C" and "hash_width C" and "db_ok (tables v)"
    and "put_with_chunk_size C oid pt n v = (v', Inr ver)" and "healthy v'"
  shows "get C oid v' = (v', Inr pt)"
proof -
  from assms(4) have "put_inner C oid pt n v = (v', Inr ver)" by (simp add: put_with_chunk_size_def)
  from assms(1) this show ?thesis
  proof (cases rule: put_inner_cases)
    case (committed rk s cs u)
    have "contents C rk (vault_id_of v') (tables v') oid = Some pt"
      using contents_published [OF assms(1,2) committed(2,4) assms(3)] committed(3,5) same_identity_id [OF committed(6)] by simp
    moreover have "vt_root_key v' = Some rk" using committed(1,6) by (simp add: same_identity_def)
    ultimately show ?thesis using get_inner_healthy [OF assms(5)] by (simp add: get_def)
  qed simp
qed

theorem put_get_roundtrip_witness:
  "\<exists>v'. get toy_crypto (replicate 16 2) v' = (v', Inr [1, 2, 3])"
  using sample_put put_get_roundtrip [OF toy_crypto_laws(1,5) sample_vault_simps(1)] by blast

text \<open>C2. Streaming publication stores what its reader delivers: whatever the sizes of the single reads and
  wherever they are interrupted, a successful streaming publication from a reader that signals the end
  only once is the same map update as a buffered publication of the delivered bytes.\<close>

theorem put_from_reader_sets_contents:
  assumes "aead_correct C" and "hash_width C" and "db_ok (tables v)" and "vt_root_key v = Some rk"
    and "honest_reader rs" and "put_from_reader_with_chunk_size C oid rs n v = (v', Inr ver)"
  shows "contents C rk (vault_id_of v) (tables v') = (contents C rk (vault_id_of v) (tables v))(oid \<mapsto> delivered rs)
    \<and> db_ok (tables v') \<and> frozen (tables v) (tables v')"
proof -
  from assms(6) have "put_from_reader_inner C oid rs n v = (v', Inr ver)"
    by (simp add: put_from_reader_with_chunk_size_def)
  from assms(1) this show ?thesis
    by (cases rule: put_from_reader_cases)
      (use assms in \<open>auto simp: streams_def contents_published db_ok_published frozen_published publishable_def\<close>)
qed

lemma healthy_rng [simp]: "healthy (c\<lparr>rng_state := g\<rparr>) = healthy c"
  by (simp add: healthy_def)

lemma healthy_append:
  assumes "healthy c" "tables c = stored ph cs t" "sp_version_id p = sv_version_id ph" "version_fits ph"
    and "ck_index chunk = sp_next_chunk_index p" "length (nonce (ck_record chunk)) = 12"
    and "no_clash (sv_version_id ph) [chunk] (tables c)"
    and "checked_add (sp_next_chunk_index p) 1 = Some i" "checked_add (sp_plaintext_len p) (ucast len) = Some k"
  shows "append_chunk chunk len p c =
    (c\<lparr>tables := stored ph (cs @ [chunk]) t\<rparr>, Inr (p\<lparr>sp_next_chunk_index := i, sp_plaintext_len := k\<rparr>))"
proof -
  have "insert_chunk (sp_version_id p) chunk (tables c) = Some (stored ph (cs @ [chunk]) t)"
    using insert_chunk_live [of "sv_version_id ph" "tables c" chunk] assms
    by (simp add: version_fits_def stored_def)
      (metis version_exists_stored stored_def)
  with assms show ?thesis by (simp add: append_chunk_def healthy_execute then_do_def)
qed

lemma healthy_finish:
  assumes "healthy c" "tables c = stored ph cs t" "\<not> version_exists (sv_version_id ph) t" "version_fits ph"
    and p: "sp_version_id p = sv_version_id ph" "sp_object_id p = sv_object_id ph" "sp_next_chunk_index p = n"
    and m: "length (nonce m) = 12" "uint (sp_plaintext_len p) < 2 ^ 63"
  shows "\<exists>t'. finish m n p c = (c\<lparr>tables := t'\<rparr>, Inr ())"
proof -
  let ?t = "the (finish_version m (sp_plaintext_len p) n (sv_version_id ph) (sv_object_id ph) (tables c))"
  have upd: "finish_version m (sp_plaintext_len p) n (sv_version_id ph) (sv_object_id ph) (tables c) = Some ?t"
    using m by (simp add: finish_version_def to_sql_u64_def)
  have "filter (\<lambda>row. vr_version_id row = sv_version_id ph \<and> vr_object_id row = sv_object_id ph) (versions t) = []"
    using assms(3) by (auto simp: filter_empty_conv version_exists_def)
  then have "length (matching_versions (sv_version_id ph) (sv_object_id ph) (tables c)) = 1"
    by (simp add: matching_versions_def assms(2) stored_def stored_row_def)
  moreover have "length (matching_versions (sv_version_id ph) (sv_object_id ph) ?t) =
      length (matching_versions (sv_version_id ph) (sv_object_id ph) (tables c))"
    using m by (simp add: matching_versions_def finish_version_def to_sql_u64_def filter_map comp_def)
      (rule arg_cong [of _ _ length], rule filter_cong, auto)
  moreover have "set_active (sv_object_id ph) (sv_version_id ph) ?t =
      Some (?t\<lparr>objects := activate (sv_object_id ph) (sv_version_id ph) (objects ?t)\<rparr>)"
    using assms(4) by (simp add: set_active_Some version_fits_def)
  ultimately show ?thesis
    using upd assms(1) p by (auto simp: finish_def then_do_def healthy_execute)
qed

lemma sample_read: "read_next_chunk DEFAULT_CHUNK_SIZE [] [Interrupted, Data [1, 2, 3]] = ([], Inr [1, 2, 3])"
  "read_next_chunk DEFAULT_CHUNK_SIZE [] [] = ([], Inr [])"
  "read_next_chunk DEFAULT_CHUNK_SIZE [] [Data [1, 2, 3]] = ([], Inr [1, 2, 3])"
proof -
  have fin: "read_next_chunk DEFAULT_CHUNK_SIZE filled [] = ([], Inr filled)" for filled
    by (subst read_next_chunk.simps) simp
  show "read_next_chunk DEFAULT_CHUNK_SIZE [] [] = ([], Inr [])" by (rule fin)
  show "read_next_chunk DEFAULT_CHUNK_SIZE [] [Data [1, 2, 3]] = ([], Inr [1, 2, 3])"
    by (subst read_next_chunk.simps) (simp add: fin, simp add: DEFAULT_CHUNK_SIZE_def)
  then show "read_next_chunk DEFAULT_CHUNK_SIZE [] [Interrupted, Data [1, 2, 3]] = ([], Inr [1, 2, 3])"
    by (subst read_next_chunk.simps) (simp, simp add: DEFAULT_CHUNK_SIZE_def)
qed

lemma sample_stream:
  assumes rd: "read_next_chunk DEFAULT_CHUNK_SIZE [] rs = ([], Inr [1, 2, 3])"
  shows "\<exists>v' ver. put_from_reader_with_chunk_size toy_crypto (replicate 16 2) rs DEFAULT_CHUNK_SIZE sample_vault = (v', Inr ver)
    \<and> healthy v'"
proof -
  let ?vid = "replicate 16 1 :: bytes" and ?oid = "replicate 16 2 :: bytes" and ?rk = "replicate 32 7 :: bytes"
  obtain ver g1 where ver: "random_id sample_rng = (ver, g1)" by force
  obtain dek g2 where dek: "generate_dek g1 = (dek, g2)" by force
  note len = id_ok_random [OF ver] generate_dek_length [OF dek]
  obtain g3 w where w: "wrap_dek toy_crypto ?rk ?vid ?oid ver dek g2 = (g3, Inr w)" "length (nonce w) = 12"
    using toy_wrap by blast
  obtain g4 r where r: "seal toy_crypto dek (chunk_aad ?vid ?oid ver 0 3) [1, 2, 3] g3 = (g4, Inr r)" "length (nonce r) = 12"
    using toy_seal [OF len(2)] by blast
  let ?chunk = "\<lparr>ck_index = 0, ck_record = r\<rparr>" and ?d = "digest_update 0 r digest_new"
  obtain g5 m where m: "seal_manifest toy_crypto dek ?vid ?oid ver
      (new_manifest ?oid ver 3 4194304 1 (digest_finalize toy_crypto ?d)) g4 = (g5, Inr m)" "length (nonce m) = 12"
    using toy_manifest by blast
  let ?ph = "placeholder ?oid ver w 4194304" and ?v = "sample_vault\<lparr>rng_state := g3\<rparr>"
  have fits: "version_fits ?ph" using len w by (simp add: placeholder_def version_fits_def id_ok_def)
  have h: "healthy sample_vault" by (rule healthy_sample_files) (simp_all add: sample_vault_def)
  have t: "tables sample_vault = empty_database" by (simp add: sample_vault_def)
  have none: "\<not> version_exists x empty_database" for x by (simp add: version_exists_def empty_database_def)
  let ?p = "\<lambda>i n. \<lparr>sp_object_id = ?oid, sp_version_id = ver, sp_next_chunk_index = i, sp_plaintext_len = n\<rparr>"
  let ?v1 = "?v\<lparr>tables := stored ?ph [] empty_database\<rparr>"
  let ?v2 = "?v1\<lparr>rng_state := g4, tables := stored ?ph [?chunk] empty_database\<rparr>"
  have b: "begin_streaming_publication ?oid ver w 4194304 ?v = (?v1, Inr (?p 0 0))"
    using h fits none [of "sv_version_id ?ph"]
    by (simp add: begin_streaming_publication_def insert_streaming_placeholder_eq then_do_def healthy_execute
        insert_version_eq t stored_def)
  have a: "append_chunk ?chunk 3 (?p 0 0) (?v1\<lparr>rng_state := g4\<rparr>) = (?v2, Inr (?p 1 3))"
    using healthy_append [of "?v1\<lparr>rng_state := g4\<rparr>" ?ph "[]" empty_database "?p 0 0" ?chunk 1 3 3] h fits r(2)
    by (simp add: checked_add_def no_clash_def stored_def empty_database_def) (simp add: placeholder_def)
  have fin: "stream_chunks toy_crypto dek ?vid ?oid ver DEFAULT_CHUNK_SIZE [] st u = (u, Inr st)" for st u
    by (cases st) (simp add: stream_chunks.simps sample_read)
  have sc: "stream_chunks toy_crypto dek ?vid ?oid ver DEFAULT_CHUNK_SIZE rs
      (?p 0 0, digest_new, 0, 0) ?v1 = (?v2, Inr (?p 1 3, ?d, 1, 3))"
    using r(1) a
    by (subst stream_chunks.simps)
      (simp add: rd MAX_CHUNKS_PER_VERSION_def try_from_nat_def with_rng_def then_do_def checked_add_def fin)
  obtain t' where f: "finish m 1 (?p 1 3) (?v2\<lparr>rng_state := g5\<rparr>) = (?v2\<lparr>rng_state := g5, tables := t'\<rparr>, Inr ())"
    using healthy_finish [of "?v2\<lparr>rng_state := g5\<rparr>" ?ph "[?chunk]" empty_database "?p 1 3" 1 m] h fits m(2) none
    by (auto simp: placeholder_def)
  have "stream_version toy_crypto dek ?vid ?oid ver w DEFAULT_CHUNK_SIZE 4194304 rs ?v
      = (?v2\<lparr>rng_state := g5, tables := t'\<rparr>, Inr ())"
    using b sc m(1) f by (simp add: stream_version_def then_do_def with_rng_def)
  then have tx: "transaction (stream_version toy_crypto dek ?vid ?oid ver w DEFAULT_CHUNK_SIZE 4194304 rs) ?v
      = (?v2\<lparr>rng_state := g5, tables := t'\<rparr>, Inr ())"
    using h by (intro healthy_transaction) simp_all
  have h2: "healthy (?v2\<lparr>rng_state := g5, tables := t'\<rparr>)" using h by simp
  obtain v' where e: "enforce_state_files (?v2\<lparr>rng_state := g5, tables := t'\<rparr>) = (v', Inr ())"
    using healthy_enforce [OF h2] by auto
  with tx ver dek w(1) have "put_from_reader_inner toy_crypto ?oid rs DEFAULT_CHUNK_SIZE sample_vault = (v', Inr ver)"
    by (simp add: put_from_reader_inner_def require_root_key_def then_do_def draw_def with_rng_def sample_vault_fields
        try_from_nat_def DEFAULT_CHUNK_SIZE_def)
  with healthy_after_enforce [OF h2 e] show ?thesis by (simp add: put_from_reader_with_chunk_size_def)
qed

theorem put_from_reader_sets_contents_witness:
  "\<exists>v' ver. put_from_reader_with_chunk_size toy_crypto (replicate 16 2) [Interrupted, Data [1, 2, 3]] DEFAULT_CHUNK_SIZE
     sample_vault = (v', Inr ver)
     \<and> contents toy_crypto (replicate 32 7) (vault_id_of sample_vault) (tables v') (replicate 16 2) = Some [1, 2, 3]"
proof -
  obtain v' ver where p: "put_from_reader_with_chunk_size toy_crypto (replicate 16 2) [Interrupted, Data [1, 2, 3]]
    DEFAULT_CHUNK_SIZE sample_vault = (v', Inr ver)" using sample_stream [OF sample_read(1)] by blast
  have "honest_reader [Interrupted, Data [1, 2, 3]]" by (simp add: honest_reader_def)
  from put_from_reader_sets_contents [OF toy_crypto_laws(1,5) sample_vault_simps this p] p show ?thesis by simp
qed

section \<open>Authenticity of a read\<close>

lemma open_parts_tidy:
  assumes "aead_tidy C"
  shows "open_parts C dek vid oid ver m cs = Some parts \<Longrightarrow>
    list_all2 (\<lambda>chunk part. length part < 2 ^ 32 \<and> aes_encrypt C dek (nonce (ck_record chunk))
      (chunk_aad vid oid ver (ck_index chunk) (word_of_nat (length part))) part = Some (ciphertext (ck_record chunk))) cs parts"
proof (induction cs arbitrary: parts)
  case (Cons c cs)
  then obtain len part rest where len: "expected_plaintext_chunk_len m (ck_index c) = Inr len"
    and part: "open_record C dek (chunk_aad vid oid ver (ck_index c) len) (ck_record c) = Inr part"
    and l: "length part = unat len" and rest: "open_parts C dek vid oid ver m cs = Some rest" "parts = part # rest"
    by (auto split: sum.splits if_splits)
  have "unat len < 2 ^ 32" using unsigned_less [of len, where 'a = nat] by simp
  with Cons.IH [OF rest(1)] open_record_tidy [OF assms part] rest(2) l show ?case by simp
qed simp

text \<open>C5. What a read returns is authentic: the bytes are the concatenation of parts whose encryptions under
  one data key are the stored chunks of the object's active version, each bound to the vault, the object,
  the version, its index and its length; the data key is the one wrapped under the root key for this
  version; the manifest sealed for this version carries the digest of exactly these chunks and the length
  of the plaintext. The tables are not touched.\<close>

theorem get_authentic:
  assumes "aead_tidy C" and "get C oid v = (v', Inr pt)"
  shows "tables v' = tables v \<and> (\<exists>rk s dek kek m cs parts.
    vt_root_key v = Some rk \<and> lookup_active oid (tables v) = Inr s \<and> sv_object_id s = oid
    \<and> derive_kek C rk (vault_id_of v) = Inr kek
    \<and> aes_encrypt C kek (nonce (sv_wrapped_dek s)) (wrapped_dek_aad (vault_id_of v) oid (sv_version_id s)) dek
        = Some (ciphertext (sv_wrapped_dek s))
    \<and> open_manifest C dek (vault_id_of v) oid s = Inr m
    \<and> row_chunks (version_chunks (sv_version_id s) (tables v)) = Some cs
    \<and> numbered cs \<and> length cs = unat (mf_chunk_count m) \<and> mf_chunk_digest m = chunk_digest C cs
    \<and> pt = concat parts \<and> length pt = unat (mf_plaintext_len m)
    \<and> list_all2 (\<lambda>chunk part. length part < 2 ^ 32 \<and> aes_encrypt C dek (nonce (ck_record chunk))
        (chunk_aad (vault_id_of v) oid (sv_version_id s) (ck_index chunk) (word_of_nat (length part))) part
        = Some (ciphertext (ck_record chunk))) cs parts)"
proof -
  from assms(2) have g: "get_inner C oid v = (v', Inr pt)" by (simp add: get_def)
  then have "get_to_writer_inner C write_vec oid v [] = (v', pt, Inr ())"
    by (auto simp: get_inner_def split: prod.splits sum.splits)
  from get_to_writer_frame [OF this] have tables: "tables v' = tables v" ..
  from get_inner_Inr [OF g] obtain rk s dek m cs parts where rk: "vt_root_key v = Some rk"
    and ov: "opened_version C rk (vault_id_of v) (tables v) oid s dek m cs"
    and parts: "open_parts C dek (vault_id_of v) oid (sv_version_id s) m cs = Some parts"
    and pt: "length (concat parts) = unat (mf_plaintext_len m)" "pt = concat parts"
    unfolding contents_Some by blast
  from ov have "unwrap_dek C rk (vault_id_of v) oid s = Inr dek" by (simp add: opened_version_def)
  then obtain kek where kek: "derive_kek C rk (vault_id_of v) = Inr kek"
    "open_record C kek (wrapped_dek_aad (vault_id_of v) oid (sv_version_id s)) (sv_wrapped_dek s) = Inr dek"
    by (auto simp: unwrap_dek_def and_then_eq_Inr split: if_splits)
  from kek open_record_tidy [OF assms(1) kek(2)] open_parts_tidy [OF assms(1) parts] ov rk pt tables show ?thesis
    by (auto simp: opened_version_def)
qed

theorem get_authentic_witness:
  "\<exists>v' pt. get toy_crypto (replicate 16 2) v' = (v', Inr pt)
     \<and> (\<exists>s. lookup_active (replicate 16 2) (tables v') = Inr s \<and> sv_object_id s = replicate 16 2)"
proof -
  obtain v' ver where p: "put_inner toy_crypto (replicate 16 2) [1, 2, 3] DEFAULT_CHUNK_SIZE sample_vault = (v', Inr ver)"
    and h: "healthy v'" using sample_put by (auto simp: put_with_chunk_size_def)
  from sample_contents [OF p] get_inner_healthy [OF h, of "replicate 32 7" toy_crypto "replicate 16 2"] have "get toy_crypto (replicate 16 2) v' = (v', Inr [1, 2, 3])"
    by (simp add: get_def)
  with get_authentic [OF toy_crypto_laws(2) this] show ?thesis by blast
qed

section \<open>The locked state\<close>

lemma lock_after_Locked [simp]: "lock_after_failure (v, Inl Locked) = (v, Inl Locked)"
  by (simp add: lock_after_failure_def)

lemma lock_after_failure_locks:
  "lock_after_failure res = (v, Inl e) \<Longrightarrow> requires_lock e \<Longrightarrow> vt_root_key v = None"
  by (cases res) (auto simp: lock_after_failure_def lock_def split: sum.splits)

lemma lock_pair_locks: "lock_pair res = ((v, p), Inl e) \<Longrightarrow> requires_lock e \<Longrightarrow> vt_root_key v = None"
  by (auto simp: lock_pair_def split: prod.splits dest: lock_after_failure_locks)

text \<open>A locked vault refuses every operation that needs the root key, before it touches the store, the
  random source or the witness, and stays as it is.\<close>

theorem locked_refuses:
  assumes "vt_root_key v = None"
  shows "put_with_chunk_size C oid pt n v = (v, Inl Locked)
    \<and> (0 < n \<and> n < 2 ^ 32 \<longrightarrow> put_from_reader_with_chunk_size C oid rs n v = (v, Inl Locked))
    \<and> get C oid v = (v, Inl Locked) \<and> get_to_writer C write_all oid v w = (v, w, Inl Locked)
    \<and> verify_active_objects C v = (v, Inl Locked) \<and> full_checkpoint busy v = (v, Inl Locked)
    \<and> put_with_witness C issue oid pt (v, p) = ((v, p), Inl Locked)
    \<and> recover_pending_witness_publications C issue (v, p) = ((v, p), Inl Locked)
    \<and> verify_active_objects_with_witness C head (v, p) = ((v, p), Inl Locked)"
proof -
  have k: "require_root_key v = Inl Locked" using assms by (simp add: require_root_key_def)
  have "put_from_reader_inner C oid rs n v = (v, Inl Locked)" if "0 < n" "n < 2 ^ 32"
    using that k by (simp add: put_from_reader_inner_def try_from_nat_def)
  with k show ?thesis
    by (simp add: put_with_chunk_size_def put_inner_def prepare_version_def put_from_reader_with_chunk_size_def
        get_def get_inner_def get_to_writer_def get_to_writer_inner_def open_version_def verify_active_objects_def
        verify_active_objects_inner_def full_checkpoint_def put_with_witness_def put_with_witness_inner_def on_vault_def
        recover_pending_witness_publications_def recover_pending_witness_publications_inner_def
        verify_active_objects_with_witness_def verify_active_objects_with_witness_inner_def lock_pair_def then_do_def)
qed

theorem locked_refuses_witness:
  "vt_root_key (lock sample_vault) = None \<and> get toy_crypto [] (lock sample_vault) = (lock sample_vault, Inl Locked)"
proof -
  have k: "vt_root_key (lock sample_vault) = None" by (simp add: lock_def)
  with locked_refuses [OF k, THEN conjunct2, THEN conjunct2, THEN conjunct1] show ?thesis by (intro conjI)
qed

lemma operation_locks:
  assumes "requires_lock e"
  shows "put_with_chunk_size C oid pt n v = (v', Inl e) \<Longrightarrow> vt_root_key v' = None"
    "put_from_reader_with_chunk_size C oid rs n v = (v', Inl e) \<Longrightarrow> vt_root_key v' = None"
    "get C oid v = (v', Inl e) \<Longrightarrow> vt_root_key v' = None"
    "get_to_writer C write_all oid v w = (v', w', Inl e) \<Longrightarrow> vt_root_key v' = None"
    "verify_active_objects C v = (v', Inl e) \<Longrightarrow> vt_root_key v' = None"
    "full_checkpoint busy v = (v', Inl e) \<Longrightarrow> vt_root_key v' = None"
    "rotate_passphrase C current replacement v = (v', Inl e) \<Longrightarrow> vt_root_key v' = None"
    "put_with_witness C issue oid pt (v, p) = ((v', p'), Inl e) \<Longrightarrow> vt_root_key v' = None"
    "recover_pending_witness_publications C issue (v, p) = ((v', p'), Inl e) \<Longrightarrow> vt_root_key v' = None"
    "verify_active_objects_with_witness C head (v, p) = ((v', p'), Inl e) \<Longrightarrow> vt_root_key v' = None"
proof -
  note locks = lock_after_failure_locks [OF _ assms] lock_pair_locks [OF _ assms]
  show "get_to_writer C write_all oid v w = (v', w', Inl e) \<Longrightarrow> vt_root_key v' = None"
    using locks(1) by (auto simp: get_to_writer_def split: prod.splits)
  show "rotate_passphrase C current replacement v = (v', Inl e) \<Longrightarrow> vt_root_key v' = None"
    using assms by (auto simp: rotate_passphrase_def validate_passphrase_def intro: locks(1) split: if_splits)
qed (auto simp: put_with_chunk_size_def put_from_reader_with_chunk_size_def get_def verify_active_objects_def
      full_checkpoint_def put_with_witness_def recover_pending_witness_publications_def
      verify_active_objects_with_witness_def
    intro: lock_after_failure_locks [OF _ assms] lock_pair_locks [OF _ assms])

text \<open>C26. A failed publication leaves the vault readable as before or fully published: when publication, in
  either form, returns an error, then the tables are unchanged, or the whole version was committed and the
  error is one of the enforcement of file modes that follows the commit.\<close>

theorem put_failure_atomic:
  assumes "aead_correct C"
    and "put_with_chunk_size C oid pt n v = (v', Inl e) \<or> put_from_reader_with_chunk_size C oid rs n v = (v', Inl e)"
  shows "tables v' = tables v
    \<or> ((\<exists>s cs. sv_object_id s = oid \<and> publishable s cs (tables v) \<and> tables v' = published s cs None (tables v))
       \<and> (e = Storage \<or> e = InvalidInput ''VLT/1 state file type''))"
proof -
  have lock: "\<exists>u. res = (u, Inl e) \<and> tables v' = tables u" if "lock_after_failure res = (v', Inl e)" for res :: "vault \<times> bytes result"
    using that by (cases res) (auto simp: lock_after_failure_def lock_def split: sum.splits if_splits)
  from assms(2) show ?thesis
  proof
    assume "put_with_chunk_size C oid pt n v = (v', Inl e)"
    then obtain u where u: "put_inner C oid pt n v = (u, Inl e)" "tables v' = tables u"
      using lock unfolding put_with_chunk_size_def by blast
    from assms(1) u(1) show ?thesis by (cases rule: put_inner_cases) (use u(2) in auto)
  next
    assume "put_from_reader_with_chunk_size C oid rs n v = (v', Inl e)"
    then obtain u where u: "put_from_reader_inner C oid rs n v = (u, Inl e)" "tables v' = tables u"
      using lock unfolding put_from_reader_with_chunk_size_def by blast
    from assms(1) u(1) show ?thesis by (cases rule: put_from_reader_cases) (use u(2) in auto)
  qed
qed

theorem put_failure_atomic_witness:
  "\<exists>v'. put_with_chunk_size toy_crypto [] [] 0 sample_vault = (v', Inl (InvalidInput ''invalid chunk size''))
     \<and> tables v' = tables sample_vault"
proof -
  have p: "put_with_chunk_size toy_crypto [] [] 0 sample_vault = (sample_vault, Inl (InvalidInput ''invalid chunk size''))"
    by (simp add: put_with_chunk_size_def put_inner_def prepare_version_def require_root_key_def sample_vault_fields
        check_layout_def lock_after_failure_def then_do_def)
  with put_failure_atomic [OF toy_crypto_laws(1), of "[]" "[]" 0 sample_vault sample_vault "InvalidInput ''invalid chunk size''" "[]"]
  show ?thesis by auto
qed

section \<open>The root envelope\<close>

lemma reopen_root_key:
  assumes "aead_correct C" "length rk = 32" "seal_root_key C pw vid rk p g = (g', Inr env)"
  shows "open_root_key C pw env = Inr rk" "env_vault_id env = vid" "length (nonce (env_record env)) = 12"
    "length (env_salt env) = 16" "validate_persisted C (env_params env) = Inr ()"
proof -
  from assms(3) obtain pk g1 where e: "validate_persisted C p = Inr ()" "env_vault_id env = vid" "env_params env = p"
    "length (env_salt env) = 16" "derive_passphrase_key C pw (env_salt env) p = Inr pk"
    "seal C pk (root_aad vid) rk g1 = (g', Inr (env_record env))" by (rule seal_root_key_Inr)
  note o = open_seal [OF assms(1) e(6)]
  show "open_root_key C pw env = Inr rk" "env_vault_id env = vid" "length (nonce (env_record env)) = 12"
    "length (env_salt env) = 16" "validate_persisted C (env_params env) = Inr ()"
    using e o assms(2) by (simp_all add: open_root_key_def sealed_ok_def)
qed

text \<open>The row that holds an envelope.\<close>

definition holds_envelope :: "crypto \<Rightarrow> vault \<Rightarrow> bool" where
  "holds_envelope C v \<longleftrightarrow> select_envelope C (tables v) = Inr (vt_envelope v)"

lemma contents_meta [simp]: "contents C rk vid (t\<lparr>vault_meta := m\<rparr>) = contents C rk vid t"
  by (rule ext, rule contents_cong)
    (simp_all add: select_active_def select_version_def version_chunks_def select_receipt_def)

lemma db_ok_meta [simp]: "db_ok (t\<lparr>vault_meta := m\<rparr>) = db_ok t"
  by (simp add: db_ok_def foreign_keys_ok_def active_pointers_ok_def version_exists_def)

lemma select_envelope_update:
  assumes "select_envelope C t = Inr old" "update_envelope_row env t = Some t'" "envelope_matches env t'"
    and "env_vault_id env = env_vault_id old" "validate_persisted C (env_params env) = Inr ()"
    and "length (env_salt env) = 16" "length (nonce (env_record env)) = 12"
  shows "select_envelope C t' = Inr env \<and> (\<exists>m. t' = t\<lparr>vault_meta := m\<rparr>)"
proof -
  from assms(1) obtain row where row: "vault_meta t = Some row" "mr_vault_id row = env_vault_id old"
    "from_sql_u32 (mr_format_version row) = Some FORMAT_VERSION" "length (mr_vault_id row) = 16"
    by (auto simp: select_envelope_def Let_def and_then_eq_Inr ok_or_eq_Inr from_slice_def split: option.splits if_splits)
  then have "t' = t\<lparr>vault_meta := Some (row\<lparr>mr_root_salt := env_salt env,
             mr_argon_memory_kib := to_sql_u32 (memory_kib (env_params env)),
             mr_argon_iterations := to_sql_u32 (iterations (env_params env)),
             mr_argon_lanes := to_sql_u32 (lanes (env_params env)),
             mr_root_nonce := nonce (env_record env), mr_root_ciphertext := ciphertext (env_record env)\<rparr>)\<rparr>"
    using assms(2,4,6,7) by (simp add: update_envelope_row_def)
  with row assms(4-7) show ?thesis
    by (cases env; cases "env_params env"; cases "env_record env") (auto simp: select_envelope_def Let_def)
qed

text \<open>C30. Rotation re-wraps the unchanged root key: after a successful rotation the vault is locked, the new
  passphrase opens the new envelope to the root key the old passphrase opened the old one to, the stored
  envelope is the one in memory, the vault keeps its identity, and every object keeps its contents.\<close>

theorem rotate_passphrase_rewraps:
  assumes "aead_correct C" and "holds_envelope C v" and "rotate_passphrase C current replacement v = (v', Inr ())"
  shows "\<exists>rk. open_root_key C current (vt_envelope v) = Inr rk
    \<and> unlock C replacement v' = (v'\<lparr>vt_root_key := Some rk\<rparr>, Inr ()) \<and> status v' = StatusLocked
    \<and> holds_envelope C v' \<and> vault_id_of v' = vault_id_of v
    \<and> contents C rk (vault_id_of v') (tables v') = contents C rk (vault_id_of v) (tables v)"
proof -
  from assms(3) have ne: "replacement \<noteq> []" by (auto simp: rotate_passphrase_def validate_passphrase_def)
  with assms(3) obtain rk g env v1 where rk: "open_root_key C current (vt_envelope v) = Inr rk"
    and env: "seal_root_key C replacement (vault_id_of v) rk interactive (rng_state v) = (g, Inr env)"
    and rep: "replace_root_envelope env (v\<lparr>rng_state := g\<rparr>) = (v1, Inr ())"
    and v': "v' = v1\<lparr>vt_envelope := env, vt_root_key := None\<rparr>"
    by (auto simp: rotate_passphrase_def validate_passphrase_def then_do_eq_Inr with_rng_def split: sum.splits prod.splits)
  note e = reopen_root_key [OF assms(1) open_root_key_length [OF rk] env]
  from rep obtain t where upd: "update_envelope_row env (tables v) = Some t" "envelope_matches env t"
    and enf: "enforce_state_files ((fst (tick (v\<lparr>rng_state := g\<rparr>)))\<lparr>tables := t\<rparr>) = (v1, Inr ())"
    by (auto simp: replace_root_envelope_def then_do_eq_Inr sql_execute_Inr split: if_splits)
  have t: "tables v1 = t" using enforce_state_files_frame [OF enf] by simp
  have "env_vault_id env = env_vault_id (vt_envelope v)" using e(2) by (simp add: vault_id_of_def)
  from select_envelope_update [OF assms(2) [unfolded holds_envelope_def] upd this e(5,4,3)] t v' e(1,2) rk ne show ?thesis
    by (auto simp: unlock_def validate_passphrase_def status_def holds_envelope_def vault_id_of_def)
qed

lemma open_connection_Inr:
  "open_connection E path c = (c', Inr ()) \<Longrightarrow> tables c' = tables c \<and> state_path c' = path"
  by (auto simp: open_connection_def then_do_eq_Inr sql_open_def sql_query_Inr tick_def split: if_splits)

lemma vault_create_Inr:
  assumes "aead_correct C" and "vault_create C E path pw c = (c', Inr v)"
  shows "\<exists>rk. pw \<noteq> [] \<and> vt_root_key v = Some rk \<and> open_root_key C pw (vt_envelope v) = Inr rk
    \<and> holds_envelope C v \<and> vault_meta (tables c) = None \<and> (\<exists>m. tables v = (tables c)\<lparr>vault_meta := m\<rparr>)"
proof -
  from assms(2) have ne: "pw \<noteq> []" by (auto simp: vault_create_def validate_passphrase_def)
  with assms(2) obtain vid g1 rk g2 g3 env where vid: "random_id (rng_state c) = (vid, g1)"
    and rk: "generate_root_key g1 = (rk, g2)" and env: "seal_root_key C pw vid rk interactive g2 = (g3, Inr env)"
    and st: "storage_create E path env (c\<lparr>rng_state := g3\<rparr>) = (c', Inr ())" and v: "v = vault_of c' env (Some rk)"
    by (auto simp: vault_create_def validate_passphrase_def then_do_eq_Inr draw_def with_rng_def split: prod.splits)
  have l: "length rk = 32" using rk by (auto simp: generate_root_key_def fill_bytes_def)
  note e = reopen_root_key [OF assms(1) l env]
  from st obtain c1 c2 t where o: "open_connection E path (c\<lparr>rng_state := g3\<rparr>) = (c1, Inr ())"
    and c2: "insert_envelope_row env (tables c1) = Some t" and enf: "enforce_state_files (c2\<lparr>tables := t\<rparr>) = (c', Inr ())"
    by (auto simp: storage_create_def then_do_eq_Inr initialize_schema_def insert_envelope_def sql_execute_Inr split: sum.splits)
  have t: "tables c1 = tables c" "tables c' = t"
    using open_connection_Inr [OF o] enforce_state_files_frame [OF enf] by simp_all
  have "length vid = 16" using id_ok_random [OF vid] by (simp add: id_ok_def)
  with c2 t e have "holds_envelope C v" "vault_meta (tables c) = None" "\<exists>m. tables v = (tables c)\<lparr>vault_meta := m\<rparr>"
    by (cases env; cases "env_params env"; cases "env_record env";
        auto simp: v vault_of_def insert_envelope_row_def holds_envelope_def select_envelope_def Let_def
          from_slice_def split: if_splits)+
  with e(1) ne show ?thesis by (auto simp: v vault_of_def)
qed

lemma storage_open_Inr: "storage_open E path c = (c', Inr ()) \<Longrightarrow> tables c' = tables c"
  by (auto simp: storage_open_def then_do_eq_Inr initialize_schema_def sql_execute_Inr split: sum.splits
      dest!: open_connection_Inr enforce_state_files_frame)

lemma vault_open_Inr:
  assumes "vault_open C E integrity_check path c = (c', Inr v)"
  shows "tables v = tables c \<and> vt_root_key v = None \<and> holds_envelope C v \<and> integrity_check (tables c) = ''ok''
    \<and> foreign_keys_ok (tables c) \<and> active_pointers_ok (tables c)
    \<and> list_all (\<lambda>row. version_exists (pr_version_id row) (tables c)) (pending_rows (tables c))"
  using assms
  by (auto simp: vault_open_def then_do_eq_Inr startup_integrity_check_def root_envelope_of_def sql_query_Inr
      vault_of_def holds_envelope_def split: if_splits dest!: storage_open_Inr)

text \<open>C31. A vault survives a restart: opening the database that a creation left, whatever was published in it
  since, gives a locked vault with the same identity, which the creation passphrase unlocks to the root key
  of the creation, so that every object has the contents it had. An opened database passed the integrity
  checks: its references resolve and its active pointers name versions of their objects.\<close>

theorem create_open_unlock:
  assumes "aead_correct C" and "vault_create C E path pw c = (c', Inr v)"
    and "vault_meta (tables d) = vault_meta (tables v)" and "vault_open C E integrity_check path d = (d', Inr w)"
  shows "status v = StatusUnlocked \<and> status w = StatusLocked \<and> vault_id_of w = vault_id_of v
    \<and> unlock C pw w = (w\<lparr>vt_root_key := vt_root_key v\<rparr>, Inr ()) \<and> tables w = tables d
    \<and> foreign_keys_ok (tables w) \<and> active_pointers_ok (tables w)"
proof -
  obtain rk where v: "pw \<noteq> []" "vt_root_key v = Some rk" "open_root_key C pw (vt_envelope v) = Inr rk" "holds_envelope C v"
    using vault_create_Inr [OF assms(1,2)] by blast
  note w = vault_open_Inr [OF assms(4)]
  have "select_envelope C (tables w) = select_envelope C (tables v)"
    using w assms(3) by (simp add: select_envelope_def)
  with v(4) w have "vt_envelope w = vt_envelope v" by (simp add: holds_envelope_def)
  with v w show ?thesis by (simp add: status_def vault_id_of_def unlock_def validate_passphrase_def)
qed

text \<open>An engine that creates a missing database file, and a directory without one.\<close>

definition sample_engine :: engine where
  "sample_engine = \<lparr>open_file = (\<lambda>path fs. fs\<lparr>lookup := (lookup fs)(path := Inr 1)\<rparr>), journal_mode = ''wal''\<rparr>"

definition sample_connection :: "database connection" where
  "sample_connection = \<lparr>rng_state = sample_rng, faults = (\<lambda>_. False),
     files = sample_files\<lparr>lookup := \<lambda>p. if p = ''/'' then Inr 0 else Inl NotFoundError\<rparr>,
     tables = empty_database, state_path = []\<rparr>"

lemma select_envelope_row:
  "select_envelope C t = Inr env \<Longrightarrow> \<exists>row. vault_meta t = Some row \<and> mr_vault_id row = env_vault_id env"
  by (auto simp: select_envelope_def Let_def and_then_eq_Inr from_slice_def split: option.splits if_splits)

lemma toy_seal_root_key: "\<exists>g' env. seal_root_key toy_crypto pw vid rk interactive g = (g', Inr env)"
  by (simp add: seal_root_key_def validate_for_creation_def derive_passphrase_key_def
        validate_persisted_def within_resource_policy_def interactive_def toy_crypto_def seal_def Let_def
        DEFAULT_ARGON2_MEMORY_KIB_def DEFAULT_ARGON2_ITERATIONS_def DEFAULT_ARGON2_LANES_def
        MAX_ARGON2_MEMORY_KIB_def MAX_ARGON2_ITERATIONS_def MAX_ARGON2_LANES_def fill_bytes_def
        then_do_def)

lemma sample_opening:
  assumes "faults c = (\<lambda>_. False)" "files c = sample_files \<or> files c = files sample_connection"
  shows "\<exists>c'. open_connection sample_engine ''/v'' c = (c', Inr ()) \<and> healthy c' \<and> tables c' = tables c"
proof -
  have f: "open_file sample_engine ''/v'' (files c) = sample_files"
    using assms(2) by (auto simp: sample_engine_def sample_connection_def sample_files_def fun_eq_iff)
  then have "open_connection sample_engine ''/v'' c
    = (c\<lparr>faults := \<lambda>_. False, files := sample_files, state_path := ''/v''\<rparr>, Inr ())"
    using assms(1) by (simp add: open_connection_def then_do_def sql_open_def tick_def sql_query_def is_wal_def sample_engine_def)
  moreover have "healthy (c\<lparr>faults := \<lambda>_. False, files := sample_files, state_path := ''/v''\<rparr>)"
    by (rule healthy_sample_files) simp_all
  ultimately show ?thesis by simp
qed

lemma sample_create:
  "\<exists>c v. vault_create toy_crypto sample_engine ''/v'' ''pw'' sample_connection = (c, Inr v) \<and> healthy v"
proof -
  obtain vid g1 where vid: "random_id sample_rng = (vid, g1)" by force
  obtain rk g2 where rk: "generate_root_key g1 = (rk, g2)" by force
  obtain g3 env where env: "seal_root_key toy_crypto ''pw'' vid rk interactive g2 = (g3, Inr env)"
    using toy_seal_root_key by blast
  have l: "length rk = 32" using rk by (auto simp: generate_root_key_def fill_bytes_def)
  note e = reopen_root_key [OF toy_crypto_laws(1) l env]
  let ?c = "sample_connection\<lparr>rng_state := g3\<rparr>"
  obtain c1 where c1: "open_connection sample_engine ''/v'' ?c = (c1, Inr ())" "healthy c1" "tables c1 = empty_database"
    using sample_opening [of ?c] by (auto simp: sample_connection_def)
  obtain t where t: "insert_envelope_row env (tables c1) = Some t"
    using c1(3) e id_ok_random [OF vid] by (simp add: insert_envelope_row_def empty_database_def id_ok_def)
  have h: "healthy (c1\<lparr>tables := t\<rparr>)" using c1(2) by simp
  obtain c2 where c2: "enforce_state_files (c1\<lparr>tables := t\<rparr>) = (c2, Inr ())"
    using healthy_enforce [OF h] by blast
  have "validate_new_regular_file (files ?c) ''/v'' ''vault database path'' = Inr ()"
    by code_simp
  with c1 t c2 have "storage_create sample_engine ''/v'' env ?c = (c2, Inr ())"
    by (simp add: storage_create_def then_do_def initialize_schema_def insert_envelope_def healthy_execute)
  with vid rk env have "vault_create toy_crypto sample_engine ''/v'' ''pw'' sample_connection = (c2, Inr (vault_of c2 env (Some rk)))"
    by (simp add: vault_create_def validate_passphrase_def then_do_def draw_def with_rng_def sample_connection_def)
  moreover have "healthy (vault_of c2 env (Some rk))" using healthy_after_enforce [OF h c2] by (simp add: healthy_def vault_of_def)
  ultimately show ?thesis by blast
qed

theorem create_open_unlock_witness:
  "\<exists>c v d w. vault_create toy_crypto sample_engine ''/v'' ''pw'' sample_connection = (c, Inr v)
     \<and> vault_open toy_crypto sample_engine (\<lambda>_. ''ok'') ''/v'' (sample_connection\<lparr>files := sample_files, tables := tables v\<rparr>) = (d, Inr w)
     \<and> unlock toy_crypto ''pw'' w = (w\<lparr>vt_root_key := vt_root_key v\<rparr>, Inr ())"
proof -
  obtain c v where v: "vault_create toy_crypto sample_engine ''/v'' ''pw'' sample_connection = (c, Inr v)"
    using sample_create by blast
  obtain m where m: "tables v = empty_database\<lparr>vault_meta := m\<rparr>" "holds_envelope toy_crypto v"
    using vault_create_Inr [OF toy_crypto_laws(1) v] by (auto simp: sample_connection_def)
  let ?d = "sample_connection\<lparr>files := sample_files, tables := tables v\<rparr>"
  obtain d1 where d1: "open_connection sample_engine ''/v'' ?d = (d1, Inr ())" "healthy d1" "tables d1 = tables v"
    using sample_opening [of ?d] by (auto simp: sample_connection_def)
  obtain d2 where d2: "enforce_state_files d1 = (d2, Inr ())" using healthy_enforce [OF d1(2)] by blast
  have d2': "healthy d2" "tables d2 = tables v"
    using healthy_after_enforce [OF d1(2) d2] enforce_state_files_frame [OF d2] d1(3) by simp_all
  have "validate_existing_regular_file (files ?d) ''/v'' ''vault database path'' = Inr ()"
    by code_simp
  moreover have "initialize_schema d1 = (d1, Inr ())" using d1(2) by (simp add: initialize_schema_def healthy_execute)
  ultimately have "storage_open sample_engine ''/v'' ?d = (d2, Inr ())"
    using d1(1) d2 by (simp add: storage_open_def then_do_def)
  moreover have "startup_integrity_check (\<lambda>_. ''ok'') d2 = (d2, Inr ())"
    using d2' m db_ok_empty
    by (simp add: startup_integrity_check_def healthy_query then_do_def db_ok_def)
       (simp add: foreign_keys_ok_def active_pointers_ok_def empty_database_def)
  ultimately have o: "vault_open toy_crypto sample_engine (\<lambda>_. ''ok'') ''/v'' ?d = (d2, Inr (vault_of d2 (vt_envelope v) None))"
    using d2' m(2) by (simp add: vault_open_def then_do_def root_envelope_of_def healthy_query holds_envelope_def)
  from create_open_unlock [OF toy_crypto_laws(1) v _ o] v o show ?thesis by auto
qed

theorem rotate_passphrase_rewraps_witness:
  "\<exists>c v v' rk. vault_create toy_crypto sample_engine ''/v'' ''pw'' sample_connection = (c, Inr v)
     \<and> rotate_passphrase toy_crypto ''pw'' ''new'' v = (v', Inr ())
     \<and> open_root_key toy_crypto ''pw'' (vt_envelope v) = Inr rk
     \<and> unlock toy_crypto ''new'' v' = (v'\<lparr>vt_root_key := Some rk\<rparr>, Inr ())"
proof -
  obtain c v where v: "vault_create toy_crypto sample_engine ''/v'' ''pw'' sample_connection = (c, Inr v)" "healthy v"
    using sample_create by blast
  obtain rk where rk: "open_root_key toy_crypto ''pw'' (vt_envelope v) = Inr rk" "holds_envelope toy_crypto v"
    using vault_create_Inr [OF toy_crypto_laws(1) v(1)] by blast
  obtain g env where env: "seal_root_key toy_crypto ''new'' (vault_id_of v) rk interactive (rng_state v) = (g, Inr env)"
    using toy_seal_root_key by blast
  note e = reopen_root_key [OF toy_crypto_laws(1) open_root_key_length [OF rk(1)] env]
  let ?v = "v\<lparr>rng_state := g\<rparr>"
  obtain row where "vault_meta (tables v) = Some row" "mr_vault_id row = vault_id_of v"
    using select_envelope_row [OF rk(2) [unfolded holds_envelope_def]] by (auto simp: vault_id_of_def)
  then obtain t where t: "update_envelope_row env (tables v) = Some t" "envelope_matches env t"
    using e by (simp add: update_envelope_row_def envelope_matches_def)
  have h: "healthy ?v" "healthy (?v\<lparr>tables := t\<rparr>)" using v(2) by (simp_all add: healthy_def)
  then obtain v1 where v1: "enforce_state_files (?v\<lparr>tables := t\<rparr>) = (v1, Inr ())"
    using healthy_enforce [of "?v\<lparr>tables := t\<rparr>"] by blast
  with h t have "replace_root_envelope env ?v = (v1, Inr ())"
    by (simp add: replace_root_envelope_def healthy_execute then_do_def)
  with env rk(1) have r: "rotate_passphrase toy_crypto ''pw'' ''new'' v = (v1\<lparr>vt_envelope := env, vt_root_key := None\<rparr>, Inr ())"
    by (simp add: rotate_passphrase_def validate_passphrase_def then_do_def with_rng_def lock_after_failure_def)
  from rotate_passphrase_rewraps [OF toy_crypto_laws(1) rk(2) r] v(1) r rk(1) show ?thesis by auto
qed

section \<open>Bounds\<close>

text \<open>C39. The length a manifest demands of a chunk is exact and computed without wrap-around: an index outside the
  manifest has none, every chunk but the last has the chunk size, and the last one has what remains of the
  plaintext length.\<close>

theorem expected_chunk_len_exact:
  assumes "expected_plaintext_chunk_len m i = Inr len"
  shows "unat i < unat (mf_chunk_count m)
    \<and> (unat i + 1 < unat (mf_chunk_count m) \<longrightarrow> len = mf_chunk_size m)
    \<and> (unat i + 1 = unat (mf_chunk_count m) \<longrightarrow>
         unat (mf_plaintext_len m) = unat (mf_chunk_size m) * (unat (mf_chunk_count m) - 1) + unat len)"
proof -
  let ?n = "mf_chunk_count m" and ?sz = "mf_chunk_size m" and ?l = "mf_plaintext_len m"
  have lt: "\<not> ?n \<le> i" using assms by (auto simp: expected_plaintext_chunk_len_def split: if_splits)
  then have i: "unat i < unat ?n" by (simp add: word_le_nat_alt)
  moreover have "unat ?n < 2 ^ 32" using unsigned_less [of ?n, where 'a = nat] by simp
  ultimately have suc: "unat (i + 1) = unat i + 1" by (subst unat_add_lem [THEN iffD1]) simp_all
  have "1 \<le> ?n" using i by (simp add: word_le_nat_alt)
  then have n1: "unat (?n - 1) = unat ?n - 1" by (simp add: unat_sub)
  have b: "unat ?sz < 2 ^ 32" "unat (?n - 1) < 2 ^ 32"
    using unsigned_less [of ?sz, where 'a = nat] unsigned_less [of "?n - 1", where 'a = nat] by simp_all
  have "unat ?sz * unat (?n - 1) < 2 ^ 32 * 2 ^ 32" using b by (intro mult_strict_mono) auto
  then have prefix: "unat (ucast ?sz * ucast (?n - 1) :: u64) = unat ?sz * (unat ?n - 1)"
    by (subst unat_mult_lem [THEN iffD1]) (simp_all add: n1)
  show ?thesis
  proof (cases "unat i + 1 < unat ?n")
    case True
    then have "i + 1 < ?n" by (simp add: word_less_nat_alt suc)
    with assms lt have "len = ?sz" by (simp add: expected_plaintext_chunk_len_def)
    with i True show ?thesis by simp
  next
    case False
    then have "\<not> i + 1 < ?n" by (simp add: word_less_nat_alt suc)
    with assms lt obtain tail where t: "checked_sub ?l (ucast ?sz * ucast (?n - 1)) = Some tail" "u32_try_from_u64 tail = Some len"
      by (auto simp: expected_plaintext_chunk_len_def Let_def and_then_eq_Inr ok_or_eq_Inr)
    then have "unat (ucast ?sz * ucast (?n - 1) :: u64) \<le> unat ?l"
      by (simp add: checked_sub_def word_le_nat_alt split: if_splits)
    with t have "unat ?l = unat (ucast ?sz * ucast (?n - 1) :: u64) + unat len"
      using unat_checked_sub [OF t(1)] by (simp add: u32_try_from_u64_eq_Some)
    with prefix i False show ?thesis by simp
  qed
qed

theorem expected_chunk_len_exact_witness:
  "expected_plaintext_chunk_len (new_manifest [] [] 7 4 2 []) 1 = Inr 3
   \<and> unat (mf_plaintext_len (new_manifest [] [] 7 4 2 [])) = 4 * (2 - 1) + unat (3 :: u32)"
proof -
  have e: "expected_plaintext_chunk_len (new_manifest [] [] 7 4 2 []) 1 = Inr 3"
    by code_simp
  from expected_chunk_len_exact [OF e] e show ?thesis by (simp add: new_manifest_def)
qed

text \<open>\<open>readable rs\<close> are the bytes that arrive before the reader ends or fails, \<open>breaks rs\<close> says that it fails there; a
  read of zero bytes is the end.\<close>

fun readable :: "delivery list \<Rightarrow> bytes" where
  "readable [] = []"
| "readable (Interrupted # rs) = readable rs"
| "readable (Failed # rs) = []"
| "readable (Data bs # rs) = (if bs = [] then [] else bs @ readable rs)"

fun breaks :: "delivery list \<Rightarrow> bool" where
  "breaks [] = False"
| "breaks (Interrupted # rs) = breaks rs"
| "breaks (Failed # rs) = True"
| "breaks (Data bs # rs) = (bs \<noteq> [] \<and> breaks rs)"

lemma reader_read_readable:
  assumes "reader_read k rs = (rs', res)" "0 < k"
  shows "res = ReadOk bs \<Longrightarrow> length bs \<le> k \<and>
      (if bs = [] then readable rs = [] \<and> \<not> breaks rs else readable rs = bs @ readable rs' \<and> breaks rs' = breaks rs)"
    and "res = ReadInterrupted \<Longrightarrow> readable rs' = readable rs \<and> breaks rs' = breaks rs"
    and "res = ReadFailed \<Longrightarrow> readable rs = [] \<and> breaks rs"
  using assms by (induction k rs rule: reader_read.induct) (auto split: if_splits)

lemma read_next_chunk_readable:
  assumes "length filled \<le> n"
  shows "snd (read_next_chunk n filled rs) =
      (if length (filled @ readable rs) < n \<and> breaks rs then Inl Storage else Inr (take n (filled @ readable rs)))
    \<and> (n \<le> length (filled @ readable rs) \<longrightarrow>
      readable (fst (read_next_chunk n filled rs)) = drop (n - length filled) (readable rs)
      \<and> breaks (fst (read_next_chunk n filled rs)) = breaks rs)"
  using assms
proof (induction n filled rs rule: read_next_chunk.induct)
  case (1 n filled rs)
  obtain rs1 res where r: "reader_read (n - length filled) rs = (rs1, res)" by force
  show ?case
  proof (cases "length filled < n")
    case True
    then have "0 < n - length filled" by simp
    note read = reader_read_readable [OF r this]
    show ?thesis
    proof (cases res)
      case (ReadOk bs)
      note b = read(1) [OF ReadOk]
      show ?thesis
      proof (cases "bs = []")
        case False
        from b have "length bs \<le> n - length filled" by simp
        with True have "length (filled @ bs) \<le> n" by simp
        from 1(1) [OF True r [symmetric] ReadOk False this] b False True r ReadOk show ?thesis
          by (subst (1 2 3) read_next_chunk.simps) auto
      qed (use b True r ReadOk in \<open>subst (1 2 3) read_next_chunk.simps; auto\<close>)
    next
      case ReadInterrupted
      from 1(2) [OF True r [symmetric] ReadInterrupted 1(3)] read(2) [OF ReadInterrupted] True r ReadInterrupted
      show ?thesis by (subst (1 2 3) read_next_chunk.simps) auto
    next
      case ReadFailed
      with read(3) True r show ?thesis by (subst (1 2 3) read_next_chunk.simps) auto
    qed
  next
    case False
    with 1(3) show ?thesis by (subst (1 2 3) read_next_chunk.simps) auto
  qed
qed

text \<open>C40. One fill of the chunk buffer takes the next bytes and nothing else, whatever the deliveries are: over any list of
  deliveries the source's loop returns; it reports the storage error exactly when the reader fails before the
  buffer is full, and else the first \<open>n\<close> bytes that arrive before the end, short only at the end, with
  interruptions skipped. After a full buffer the reader is left at the next byte. Over a reader that reports an
  interruption for ever the loop does not return.\<close>

theorem read_next_chunk_exact:
  "fill_buffer reader_read n [] rs = Some (read_next_chunk n [] rs)
   \<and> snd (read_next_chunk n [] rs) =
       (if length (readable rs) < n \<and> breaks rs then Inl Storage else Inr (take n (readable rs)))
   \<and> (n \<le> length (readable rs) \<longrightarrow>
        readable (fst (read_next_chunk n [] rs)) = drop n (readable rs) \<and> breaks (fst (read_next_chunk n [] rs)) = breaks rs)
   \<and> fill_buffer (\<lambda>_ s. (s, ReadInterrupted)) (Suc m) [] (s :: 's) = None"
  using read_next_chunk_readable [of "[]" n rs] fill_buffer_deliveries fill_buffer_interrupted [of "[]" "Suc m" s] by simp

theorem read_next_chunk_exact_witness:
  "2 \<le> length (readable [Interrupted, Data [1, 2, 3], Failed])
   \<and> read_next_chunk 2 [] [Interrupted, Data [1, 2, 3], Failed] = ([Data [3], Failed], Inr [1, 2])
   \<and> readable [Data [3], Failed] = [3] \<and> breaks [Data [3], Failed]
   \<and> snd (read_next_chunk 4 [] [Interrupted, Data [1, 2, 3], Failed]) = Inl Storage"
proof -
  let ?rs = "[Interrupted, Data [1, 2, 3], Failed]"
  have r: "read_next_chunk 2 [] ?rs = ([Data [3], Failed], Inr [1, 2])"
    by (simp add: read_next_chunk.simps [of 2 "[]" ?rs] read_next_chunk.simps [of 2 "[]" "[Data [1, 2, 3], Failed]"]
        read_next_chunk.simps [of 2 "[1, 2]" "[Data [3], Failed]"])
  show ?thesis
    using read_next_chunk_exact [of 2 ?rs 0 "()"] read_next_chunk_exact [of 4 ?rs 0 "()"] r by simp
qed

end
