(* ===== verification/Vlt_Witness_Service.thy ===== *)
theory Vlt_Witness_Service
  imports Vlt_Witness Vlt_Sql
begin

text \<open>
  The durable witness, \<open>crates/vlt1-witness/src/lib.rs\<close> and the request dispatch of
  \<open>crates/vlt1-witness/src/main.rs\<close>: the two tables, the conditional issue transaction, signed
  heads, and the HTTP mapping of results to status codes. The hexadecimal crate and the JSON codec are
  parameters. The theory shows that the daemon's HTTPS client talking to this service is a
  \<open>witness_provider\<close>: epochs are conditional, unique and monotonic per vault, errors after an
  uncertain outcome can be retried, and a superseded receipt is never reported again.
\<close>

section \<open>State\<close>

record head_row =
  hw_vault_id :: bytes
  hw_object_id :: bytes
  hw_version_id :: bytes
  hw_witness_epoch :: int
  hw_commitment :: bytes
  hw_signature :: bytes

record witness_tables =
  vault_epochs :: "(bytes \<times> int) list"
  object_heads :: "head_row list"

record witness_service = "witness_tables connection" +
  ws_signing_key :: bytes

text \<open>\<open>hex::encode\<close> and \<open>hex::decode\<close>.\<close>

record hex_crate =
  hx_encode :: "bytes \<Rightarrow> string"
  hx_decode :: "string \<Rightarrow> bytes option"

section \<open>Opening the state\<close>

definition validate_state_path :: "file_system \<Rightarrow> string \<Rightarrow> unit result" where
  "validate_state_path fs path =
     and_then (ok_or (InvalidInput ''witness state path'') (parent (components path))) (\<lambda>p.
     let p = (if p = [] then components ''.'' else p) in
     and_then (check_directories fs ''witness state path'' (filter (\<lambda>a. a \<noteq> []) (ancestors p))) (\<lambda>_.
     case symlink_metadata fs path of
       Inr m \<Rightarrow> if file_type m = RegularFile \<and> file_type m \<noteq> Symlink then Inr ()
                else Inl (InvalidInput ''witness state path'')
     | Inl NotFoundError \<Rightarrow> Inr ()
     | Inl OtherIoError \<Rightarrow> Inl Storage))"

text \<open>\<open>t\<close> is what the database file holds, or the empty tables when there is no file yet. The three
  calls into the engine open the file, switch it to write-ahead logging, and create missing tables.\<close>

definition ws_open ::
    "engine \<Rightarrow> string \<Rightarrow> bytes \<Rightarrow> witness_tables \<Rightarrow> env \<Rightarrow> env \<times> witness_service result" where
  "ws_open E path signing_key t s =
     (case validate_state_path (files s) path of
        Inl e \<Rightarrow> (s, Inl e)
      | Inr _ \<Rightarrow>
          then_do (sql_open E path) (\<lambda>_ s.
           case tick s of (s, f2) \<Rightarrow> if f2 \<or> \<not> is_wal (journal_mode E) then (s, Inl Storage) else
           case tick s of (s, f3) \<Rightarrow> if f3 then (s, Inl Storage) else
           then_do (with_files (enforce_owner_private_sqlite_state path)) (\<lambda>_ s. (s, Inr
             \<lparr>rng_state = rng_state s, faults = faults s, files = files s, tables = t, state_path = path,
              ws_signing_key = signing_key\<rparr>)) s) s)"

section \<open>Parsing requests\<close>

definition ws_fixed :: "nat \<Rightarrow> bytes \<Rightarrow> bytes result" where
  "ws_fixed n value = (if length value = n then Inr value else Inl (invalid_format ''witness fixed-width field''))"

definition parse_id :: "hex_crate \<Rightarrow> nat \<Rightarrow> string \<Rightarrow> string \<Rightarrow> bytes result" where
  "parse_id H n value error =
     (if length value \<noteq> n * 2 \<or> \<not> list_all lower_hexdigit value then Inl (invalid_format error)
      else and_then (ok_or (invalid_format error) (hx_decode H value)) (ws_fixed n))"

record parsed_issue =
  pi_request :: witness_request
  pi_expected_epoch :: u64

record parsed_head =
  ph_vault_id :: vault_id
  ph_object_id :: object_id
  ph_challenge :: bytes

definition parse_issue :: "hex_crate \<Rightarrow> issue_wire_request \<Rightarrow> parsed_issue result" where
  "parse_issue H w =
     and_then (parse_id H 16 (iq_vault_id w) ''witness vault ID'') (\<lambda>vid.
     and_then (parse_id H 16 (iq_object_id w) ''witness object ID'') (\<lambda>oid.
     and_then (parse_id H 16 (iq_version_id w) ''witness version ID'') (\<lambda>ver.
     and_then (from_slice vid) (\<lambda>vid.
     and_then (from_slice oid) (\<lambda>oid.
     and_then (from_slice ver) (\<lambda>ver.
     and_then (parse_id H 32 (iq_commitment w) ''witness commitment'') (\<lambda>commitment.
     Inr \<lparr>pi_request = \<lparr>rq_vault_id = vid, rq_object_id = oid, rq_version_id = ver,
            rq_commitment = commitment\<rparr>,
          pi_expected_epoch = iq_expected_epoch w\<rparr>)))))))"

definition parse_head :: "hex_crate \<Rightarrow> head_wire_request \<Rightarrow> parsed_head result" where
  "parse_head H w =
     and_then (and_then (parse_id H 16 (hq_vault_id w) ''witness vault ID'') from_slice) (\<lambda>vid.
     and_then (and_then (parse_id H 16 (hq_object_id w) ''witness object ID'') from_slice) (\<lambda>oid.
     and_then (parse_id H 32 (hq_challenge w) ''witness challenge'') (\<lambda>challenge.
     Inr \<lparr>ph_vault_id = vid, ph_object_id = oid, ph_challenge = challenge\<rparr>)))"

section \<open>Responses\<close>

definition issue_response :: "hex_crate \<Rightarrow> witness_receipt \<Rightarrow> issue_wire_response" where
  "issue_response H r =
     \<lparr>ir_vault_id = to_hex (rc_vault_id r), ir_object_id = to_hex (rc_object_id r),
      ir_version_id = to_hex (rc_version_id r), ir_witness_epoch = rc_witness_epoch r,
      ir_commitment = hx_encode H (rc_commitment r), ir_public_key = hx_encode H (rc_public_key r),
      ir_signature = hx_encode H (rc_signature r)\<rparr>"

definition head_response :: "hex_crate \<Rightarrow> witness_head \<Rightarrow> head_wire_response" where
  "head_response H h =
     \<lparr>hr_vault_id = to_hex (hd_vault_id h), hr_object_id = to_hex (hd_object_id h),
      hr_present = hd_present h, hr_version_id = map_option to_hex (hd_version_id h),
      hr_witness_epoch = hd_witness_epoch h, hr_commitment = map_option (hx_encode H) (hd_commitment h),
      hr_challenge = hx_encode H (hd_challenge h), hr_public_key = hx_encode H (hd_public_key h),
      hr_signature = hx_encode H (hd_signature h)\<rparr>"

section \<open>Issue and head\<close>

definition ws_public_key :: "crypto \<Rightarrow> 'z witness_service_scheme \<Rightarrow> bytes" where
  "ws_public_key C s = ed25519_public C (ws_signing_key s)"

definition same_head :: "vault_id \<Rightarrow> object_id \<Rightarrow> head_row \<Rightarrow> bool" where
  "same_head vid oid row \<longleftrightarrow> hw_vault_id row = vid \<and> hw_object_id row = oid"

definition load_receipt ::
    "crypto \<Rightarrow> vault_id \<Rightarrow> object_id \<Rightarrow> bytes \<Rightarrow> witness_tables \<Rightarrow> witness_receipt option result" where
  "load_receipt C vid oid public_key t =
     (case find (same_head vid oid) (object_heads t) of
        None \<Rightarrow> Inr None
      | Some row \<Rightarrow>
          and_then (ok_or Storage (from_sql_u64 (hw_witness_epoch row))) (\<lambda>epoch.
          and_then (from_slice (hw_version_id row)) (\<lambda>ver.
          and_then (ws_fixed 32 (hw_commitment row)) (\<lambda>commitment.
          and_then (ws_fixed 64 (hw_signature row)) (\<lambda>signature.
          and_then (receipt_new C \<lparr>rc_vault_id = vid, rc_object_id = oid, rc_version_id = ver,
            rc_witness_epoch = epoch, rc_commitment = commitment, rc_public_key = public_key,
            rc_signature = signature\<rparr>) (\<lambda>r. Inr (Some r)))))))"

definition put_epoch :: "vault_id \<Rightarrow> u64 \<Rightarrow> witness_tables \<Rightarrow> witness_tables option" where
  "put_epoch vid after t =
     (case to_sql_u64 after of
        None \<Rightarrow> None
      | Some v \<Rightarrow>
          if length vid \<noteq> 16 \<or> v \<le> 0 then None
          else Some (t\<lparr>vault_epochs := upsert (\<lambda>row. fst row = vid) (\<lambda>row. (fst row, v)) (vid, v) (vault_epochs t)\<rparr>))"

definition select_epoch :: "vault_id \<Rightarrow> witness_tables \<Rightarrow> u64 option result" where
  "select_epoch vid t =
     (case map_of (vault_epochs t) vid of
        None \<Rightarrow> Inr None
      | Some i \<Rightarrow> and_then (ok_or Storage (from_sql_u64 i)) (\<lambda>n. Inr (Some n)))"

definition next_epoch :: "vault_id \<Rightarrow> witness_service \<Rightarrow> witness_service \<times> u64 result" where
  "next_epoch vid =
     then_do (sql_query (select_epoch vid)) (\<lambda>next s.
     let epoch = (case next of None \<Rightarrow> 1 | Some n \<Rightarrow> n) in
     case checked_add epoch 1 of
       None \<Rightarrow> (s, Inl (Invariant ''witness epoch exhausted''))
     | Some after \<Rightarrow> then_do (sql_execute (put_epoch vid after)) (\<lambda>_ s. (s, Inr epoch)) s)"

definition put_head :: "witness_receipt \<Rightarrow> witness_tables \<Rightarrow> witness_tables option" where
  "put_head r t =
     (case to_sql_u64 (rc_witness_epoch r) of
        None \<Rightarrow> None
      | Some epoch \<Rightarrow>
          if length (rc_vault_id r) \<noteq> 16 \<or> length (rc_object_id r) \<noteq> 16 \<or> length (rc_version_id r) \<noteq> 16
             \<or> epoch \<le> 0 \<or> length (rc_commitment r) \<noteq> 32 \<or> length (rc_signature r) \<noteq> 64
          then None
          else Some (t\<lparr>object_heads := upsert (same_head (rc_vault_id r) (rc_object_id r))
            (\<lambda>row. row\<lparr>hw_version_id := rc_version_id r, hw_witness_epoch := epoch,
               hw_commitment := rc_commitment r, hw_signature := rc_signature r\<rparr>)
            \<lparr>hw_vault_id = rc_vault_id r, hw_object_id = rc_object_id r, hw_version_id = rc_version_id r,
             hw_witness_epoch = epoch, hw_commitment = rc_commitment r, hw_signature = rc_signature r\<rparr>
            (object_heads t)\<rparr>))"

text \<open>The transaction of \<open>issue_wire\<close>: \<open>Inl\<close> a recorded receipt that answers the request again, for
  which the transaction is dropped, or \<open>Inr\<close> the new receipt, for which it commits.\<close>

definition decide_issue ::
    "crypto \<Rightarrow> parsed_issue \<Rightarrow> bytes \<Rightarrow> witness_service \<Rightarrow> witness_service \<times> (witness_receipt option) result" where
  "decide_issue C q public_key =
     then_do (sql_query (load_receipt C (rq_vault_id (pi_request q)) (rq_object_id (pi_request q)) public_key))
       (\<lambda>current s.
        (s, case current of
              Some r \<Rightarrow>
                if rc_version_id r = rq_version_id (pi_request q)
                   \<and> rc_commitment r = rq_commitment (pi_request q)
                   \<and> rc_witness_epoch r > pi_expected_epoch q
                then Inr (Some r)
                else if rc_witness_epoch r \<noteq> pi_expected_epoch q then Inl WitnessConflict
                else Inr None
            | None \<Rightarrow> if pi_expected_epoch q \<noteq> 0 then Inl WitnessConflict else Inr None))"

definition advance_head ::
    "crypto \<Rightarrow> witness_request \<Rightarrow> witness_service \<Rightarrow> witness_service \<times> witness_receipt result" where
  "advance_head C rq =
     then_do (next_epoch (rq_vault_id rq)) (\<lambda>epoch s.
     let receipt = receipt_issue C rq epoch (ws_signing_key s) in
     then_do (sql_execute (put_head receipt)) (\<lambda>_ s. (s, Inr receipt)) s)"

text \<open>The rest of the transaction: advance, commit, and put the old tables back on any failure.\<close>

definition commit_head ::
    "crypto \<Rightarrow> witness_request \<Rightarrow> witness_tables \<Rightarrow> witness_service \<Rightarrow> witness_service \<times> witness_receipt result" where
  "commit_head C rq t s =
     (case advance_head C rq s of
        (s, Inl e) \<Rightarrow> (s\<lparr>tables := t\<rparr>, Inl e)
      | (s, Inr r) \<Rightarrow>
          (case tick s of (s, failed) \<Rightarrow>
             if failed then (s\<lparr>tables := t\<rparr>, Inl Storage)
             else then_do enforce_state_files (\<lambda>_ s. (s, Inr r)) s))"

definition issue_parsed ::
    "crypto \<Rightarrow> parsed_issue \<Rightarrow> witness_service \<Rightarrow> witness_service \<times> witness_receipt result" where
  "issue_parsed C q s =
     (case tick s of (s1, failed) \<Rightarrow>
        if failed then (s1, Inl Storage) else
        case decide_issue C q (ws_public_key C s) s1 of
          (s2, Inl e) \<Rightarrow> (s2, Inl e)
        | (s2, Inr (Some r)) \<Rightarrow> (s2, Inr r)
        | (s2, Inr None) \<Rightarrow> commit_head C (pi_request q) (tables s) s2)"

definition issue_wire ::
    "crypto \<Rightarrow> hex_crate \<Rightarrow> issue_wire_request \<Rightarrow> witness_service \<Rightarrow> witness_service \<times> issue_wire_response result" where
  "issue_wire C H w s =
     (case parse_issue H w of
        Inl e \<Rightarrow> (s, Inl e)
      | Inr q \<Rightarrow> then_do (issue_parsed C q) (\<lambda>r s. (s, Inr (issue_response H r))) s)"

definition head_wire ::
    "crypto \<Rightarrow> hex_crate \<Rightarrow> head_wire_request \<Rightarrow> witness_service \<Rightarrow> witness_service \<times> head_wire_response result" where
  "head_wire C H w s =
     (case parse_head H w of
        Inl e \<Rightarrow> (s, Inl e)
      | Inr q \<Rightarrow>
          then_do (sql_query (load_receipt C (ph_vault_id q) (ph_object_id q) (ws_public_key C s)))
            (\<lambda>r s. (s, Inr (head_response H
               (head_issue C (ph_vault_id q) (ph_object_id q) r (ph_challenge q) (ws_signing_key s))))) s)"

section \<open>HTTP dispatch\<close>

definition MAX_WIRE_BODY :: nat where "MAX_WIRE_BODY = 16 * 1024"

datatype http_method = GetMethod | PostMethod | OtherMethod

record http_request =
  hp_method :: http_method
  hp_url :: string
  hp_authorization :: "string option"
  hp_body :: http_body

record http_response =
  status_code :: nat
  response_body :: bytes

text \<open>The JSON codec of the service.\<close>

record json_codec =
  parse_issue_request :: "bytes \<Rightarrow> issue_wire_request option"
  parse_head_request :: "bytes \<Rightarrow> head_wire_request option"
  write_issue_response :: "issue_wire_response \<Rightarrow> bytes option"
  write_head_response :: "head_wire_response \<Rightarrow> bytes option"

definition json_response :: "nat \<Rightarrow> bytes \<Rightarrow> http_response" where
  "json_response status body = \<lparr>status_code = status, response_body = body\<rparr>"

definition ws_read_json :: "(bytes \<Rightarrow> 'a option) \<Rightarrow> http_body \<Rightarrow> 'a option" where
  "ws_read_json decode body =
     (let bs = take (MAX_WIRE_BODY + 1) (body_bytes body) in
      if length bs < MAX_WIRE_BODY + 1 \<and> body_fails body then None
      else if length bs > MAX_WIRE_BODY then None
      else decode bs)"

definition serialize_response :: "nat \<Rightarrow> bytes option \<Rightarrow> http_response" where
  "serialize_response status encoded =
     (case encoded of
        Some body \<Rightarrow> json_response status body
      | None \<Rightarrow> json_response 500 (lit ''{\"error\":\"internal\"}''))"

definition dispatch ::
    "crypto \<Rightarrow> hex_crate \<Rightarrow> json_codec \<Rightarrow> http_request \<Rightarrow> witness_service \<Rightarrow> witness_service \<times> http_response" where
  "dispatch C H J req s =
     (if hp_method req = GetMethod \<and> hp_url req = ''/healthz''
      then (s, json_response 200 (lit ''{\"status\":\"ok\"}''))
      else if hp_method req = PostMethod \<and> hp_url req = ''/v1/issue'' then
        (case ws_read_json (parse_issue_request J) (hp_body req) of
           None \<Rightarrow> (s, json_response 400 (lit ''{\"error\":\"invalid_request\"}''))
         | Some body \<Rightarrow>
             (case issue_wire C H body s of
                (s', Inr response) \<Rightarrow> (s', serialize_response 200 (write_issue_response J response))
              | (s', Inl WitnessConflict) \<Rightarrow> (s', json_response 409 (lit ''{\"error\":\"witness_conflict\"}''))
              | (s', Inl _) \<Rightarrow> (s', json_response 400 (lit ''{\"error\":\"invalid_request\"}''))))
      else if hp_method req = PostMethod \<and> hp_url req = ''/v1/head'' then
        (case ws_read_json (parse_head_request J) (hp_body req) of
           None \<Rightarrow> (s, json_response 400 (lit ''{\"error\":\"invalid_request\"}''))
         | Some body \<Rightarrow>
             (case head_wire C H body s of
                (s', Inr response) \<Rightarrow> (s', serialize_response 200 (write_head_response J response))
              | (s', Inl _) \<Rightarrow> (s', json_response 400 (lit ''{\"error\":\"invalid_request\"}''))))
      else (s, json_response 404 (lit ''{\"error\":\"not_found\"}'')))"

definition authorized :: "http_request \<Rightarrow> string \<Rightarrow> bool" where
  "authorized req token =
     (case hp_authorization req of None \<Rightarrow> False | Some value \<Rightarrow> value = ''Bearer '' @ token)"

definition handle_request ::
    "crypto \<Rightarrow> hex_crate \<Rightarrow> json_codec \<Rightarrow> string \<Rightarrow> http_request \<Rightarrow> witness_service \<Rightarrow> witness_service \<times> http_response" where
  "handle_request C H J token req s =
     (if authorized req token then dispatch C H J req s
      else (s, json_response 401 (lit ''{\"error\":\"unauthorized\"}'')))"

section \<open>The recorded heads\<close>

definition row_receipt :: "bytes \<Rightarrow> head_row \<Rightarrow> witness_receipt" where
  "row_receipt pk row = \<lparr>rc_vault_id = hw_vault_id row, rc_object_id = hw_object_id row,
     rc_version_id = hw_version_id row, rc_witness_epoch = word_of_int (hw_witness_epoch row),
     rc_commitment = hw_commitment row, rc_public_key = pk, rc_signature = hw_signature row\<rparr>"

definition heads_view :: "bytes \<Rightarrow> witness_tables \<Rightarrow> vault_id \<Rightarrow> object_id \<Rightarrow> witness_receipt option" where
  "heads_view pk t v b = map_option (row_receipt pk) (find (same_head v b) (object_heads t))"

text \<open>A head row as the schema and the issue transaction leave it: fixed widths, an epoch of the positive
  range below the next epoch of its vault, and a signature under the service's key.\<close>

definition row_ok :: "crypto \<Rightarrow> bytes \<Rightarrow> (bytes \<rightharpoonup> int) \<Rightarrow> head_row \<Rightarrow> bool" where
  "row_ok C pk epochs row \<longleftrightarrow>
     length (hw_version_id row) = 16 \<and> length (hw_commitment row) = 32 \<and> length (hw_signature row) = 64
     \<and> 0 < hw_witness_epoch row
     \<and> (\<exists>n. epochs (hw_vault_id row) = Some n \<and> hw_witness_epoch row < n)
     \<and> signed_by C pk (receipt_message (row_receipt pk row)) (hw_signature row)"

definition tables_ok :: "crypto \<Rightarrow> bytes \<Rightarrow> witness_tables \<Rightarrow> bool" where
  "tables_ok C pk t \<longleftrightarrow>
     list_all (row_ok C pk (map_of (vault_epochs t))) (object_heads t)
     \<and> (\<forall>v n. map_of (vault_epochs t) v = Some n \<longrightarrow> 0 < n \<and> n < 2 ^ 63)"

lemma find_same_head:
  "find (same_head v b) rows = Some row \<Longrightarrow> row \<in> set rows \<and> hw_vault_id row = v \<and> hw_object_id row = b"
  by (induction rows) (auto simp: same_head_def split: if_splits)

lemma tables_ok_row:
  assumes "tables_ok C pk t" "row \<in> set (object_heads t)"
  shows "row_ok C pk (map_of (vault_epochs t)) row" "0 < hw_witness_epoch row" "hw_witness_epoch row < 2 ^ 63"
proof -
  show ok: "row_ok C pk (map_of (vault_epochs t)) row"
    using assms by (auto simp: tables_ok_def list_all_iff)
  then show "0 < hw_witness_epoch row" by (simp add: row_ok_def)
  from ok obtain n where "map_of (vault_epochs t) (hw_vault_id row) = Some n" "hw_witness_epoch row < n"
    by (auto simp: row_ok_def)
  with assms(1) show "hw_witness_epoch row < 2 ^ 63"
    unfolding tables_ok_def by fastforce
qed

lemma from_sql_row:
  "0 < i \<Longrightarrow> i < 2 ^ 63 \<Longrightarrow> from_sql_u64 i = Some (word_of_int i)"
  by (simp add: from_sql_u64_def)

lemma uint_row: "0 < i \<Longrightarrow> i < 2 ^ 63 \<Longrightarrow> uint (word_of_int i :: u64) = i"
  by (simp add: unsigned_of_int take_bit_int_eq_self)

lemma load_receipt_view:
  assumes "tables_ok C pk t"
  shows "load_receipt C v b pk t = Inr (heads_view pk t v b)"
proof (cases "find (same_head v b) (object_heads t)")
  case (Some row)
  from find_same_head [OF Some] have row: "row \<in> set (object_heads t)" "hw_vault_id row = v" "hw_object_id row = b"
    by simp_all
  note ok = tables_ok_row [OF assms row(1)]
  have "receipt_new C (row_receipt pk row) = Inr (row_receipt pk row)"
    using ok(1) by (simp add: row_ok_def receipt_new_iff row_receipt_def)
  with Some row ok show ?thesis
    by (simp add: load_receipt_def heads_view_def from_sql_row row_ok_def ws_fixed_def from_slice_def
        row_receipt_def)
qed (simp add: load_receipt_def heads_view_def)

section \<open>Advancing a head\<close>

definition current_epoch :: "witness_tables \<Rightarrow> vault_id \<Rightarrow> int" where
  "current_epoch t vid = (case map_of (vault_epochs t) vid of None \<Rightarrow> 1 | Some n \<Rightarrow> n)"

lemma current_epoch_bounds:
  "tables_ok C pk t \<Longrightarrow> 0 < current_epoch t vid \<and> current_epoch t vid < 2 ^ 63"
  by (auto simp: current_epoch_def tables_ok_def split: option.splits)

lemma same_outside_key: "same_outside s s' \<Longrightarrow> ws_signing_key s' = ws_signing_key (s :: witness_service)"
  by (cases s; cases s') (simp add: same_outside_def)

lemma outside_next_epoch [intro]: "evolves same_outside (next_epoch vid)"
  unfolding next_epoch_def Let_def
  by (intro outside_then_do outside_query, rule evolvesI)
     (auto split: option.splits dest!: evolvesD [OF outside_then_do [OF outside_execute outside_return]])

lemma uint_checked_plus_1: "checked_add w 1 = Some n \<Longrightarrow> uint n = uint w + 1" for w n :: u64
  using unat_checked_add [of w 1 n] unfolding uint_nat by simp

lemma next_epoch_Inr:
  assumes ok: "tables_ok C pk (tables s)" and e: "next_epoch vid s = (s', Inr e)"
  shows "uint e = current_epoch (tables s) vid" "length vid = 16"
    "object_heads (tables s') = object_heads (tables s)"
    "map_of (vault_epochs (tables s')) = (map_of (vault_epochs (tables s)))(vid \<mapsto> uint e + 1)"
    "uint e + 1 < 2 ^ 63"
proof -
  let ?i = "current_epoch (tables s) vid"
  from e obtain s1 nx where
    q: "sql_query (select_epoch vid) s = (s1, Inr nx)" and
    rest: "(let epoch = (case nx of None \<Rightarrow> 1 | Some n \<Rightarrow> n) in
      case checked_add epoch 1 of None \<Rightarrow> (s1, Inl (Invariant ''witness epoch exhausted''))
      | Some after \<Rightarrow> then_do (sql_execute (put_epoch vid after)) (\<lambda>_ s. (s, Inr epoch)) s1) = (s', Inr e)"
    unfolding next_epoch_def then_do_eq_Inr by blast
  from q have nx: "select_epoch vid (tables s) = Inr nx" and s1: "tables s1 = tables s"
    by (auto simp: sql_query_Inr)
  from rest have e': "e = (case nx of None \<Rightarrow> 1 | Some n \<Rightarrow> n)"
    by (auto simp: Let_def then_do_eq_Inr split: option.splits)
  from rest e' s1 obtain after where
    after: "checked_add e 1 = Some after" and put: "put_epoch vid after (tables s) = Some (tables s')"
    by (auto simp: Let_def then_do_eq_Inr sql_execute_Inr split: option.splits)
  from put obtain v where
    v: "to_sql_u64 after = Some v" and
    vid: "length vid = 16" and
    t': "tables s' = (tables s)\<lparr>vault_epochs := upsert (\<lambda>row. fst row = vid) (\<lambda>row. (fst row, v)) (vid, v)
       (vault_epochs (tables s))\<rparr>"
    by (auto simp: put_epoch_def split: option.splits if_splits)
  have i: "0 < ?i" "?i < 2 ^ 63" using current_epoch_bounds [OF ok] by auto
  have e_i: "uint e = ?i"
  proof (cases "map_of (vault_epochs (tables s)) vid")
    case None
    with nx e' show ?thesis by (simp add: select_epoch_def current_epoch_def)
  next
    case (Some n)
    with nx e' i show ?thesis
      by (auto simp: select_epoch_def current_epoch_def result_simps from_sql_row uint_row)
  qed
  have "v = uint e + 1" "v < 2 ^ 63"
    using to_sql_u64_Some [OF v] uint_checked_plus_1 [OF after] by auto
  with e_i vid t' show "uint e = ?i" "length vid = 16" "object_heads (tables s') = object_heads (tables s)"
    "map_of (vault_epochs (tables s')) = (map_of (vault_epochs (tables s)))(vid \<mapsto> uint e + 1)"
    "uint e + 1 < 2 ^ 63"
    by (simp_all add: map_of_upsert)
qed

definition receipt_row :: "witness_receipt \<Rightarrow> head_row" where
  "receipt_row r = \<lparr>hw_vault_id = rc_vault_id r, hw_object_id = rc_object_id r, hw_version_id = rc_version_id r,
     hw_witness_epoch = uint (rc_witness_epoch r), hw_commitment = rc_commitment r, hw_signature = rc_signature r\<rparr>"

lemma row_receipt_row: "rc_public_key r = pk \<Longrightarrow> row_receipt pk (receipt_row r) = r"
  by (simp add: row_receipt_def receipt_row_def)

lemma same_head_key: "same_head v b = (\<lambda>x. (hw_vault_id x, hw_object_id x) = (v, b))"
  by (auto simp: same_head_def)

text \<open>The upsert of a head replaces the row of its object by the row of the receipt.\<close>

lemma put_head_Some:
  assumes "put_head r t = Some t'"
  shows "length (rc_version_id r) = 16" "length (rc_commitment r) = 32" "length (rc_signature r) = 64"
    "vault_epochs t' = vault_epochs t" "set (object_heads t') \<subseteq> insert (receipt_row r) (set (object_heads t))"
    "find (same_head v b) (object_heads t') =
       (if v = rc_vault_id r \<and> b = rc_object_id r then Some (receipt_row r) else find (same_head v b) (object_heads t))"
proof -
  let ?f = "\<lambda>row. row\<lparr>hw_version_id := rc_version_id r, hw_witness_epoch := uint (rc_witness_epoch r),
     hw_commitment := rc_commitment r, hw_signature := rc_signature r\<rparr>"
  let ?key = "\<lambda>x. (hw_vault_id x, hw_object_id x)" and ?k = "(rc_vault_id r, rc_object_id r)"
  have f: "?f x = receipt_row r" if "?key x = ?k" for x
    using that by (cases x) (simp add: receipt_row_def)
  from assms have "length (rc_version_id r) = 16" "length (rc_commitment r) = 32" "length (rc_signature r) = 64"
    and t': "t' = t\<lparr>object_heads := upsert (\<lambda>x. ?key x = ?k) ?f (receipt_row r) (object_heads t)\<rparr>"
    by (auto simp: put_head_def receipt_row_def same_head_key dest!: to_sql_u64_Some split: option.splits if_splits)
  then show "length (rc_version_id r) = 16" "length (rc_commitment r) = 32" "length (rc_signature r) = 64"
    "vault_epochs t' = vault_epochs t" by simp_all
  show "set (object_heads t') \<subseteq> insert (receipt_row r) (set (object_heads t))"
    using f by (auto simp: t' upsert_def)
  show "find (same_head v b) (object_heads t') =
      (if v = rc_vault_id r \<and> b = rc_object_id r then Some (receipt_row r) else find (same_head v b) (object_heads t))"
    using find_upsert [of ?key ?k ?f "receipt_row r" "(v, b)" "object_heads t", OF f]
    unfolding t' same_head_key by (simp add: receipt_row_def)
qed

lemma row_ok_mono:
  "row_ok C pk m row \<Longrightarrow> (\<And>v n. m v = Some n \<Longrightarrow> \<exists>n'. m' v = Some n' \<and> n \<le> n') \<Longrightarrow> row_ok C pk m' row"
  unfolding row_ok_def by (meson order_less_le_trans)

lemma view_epoch_bound:
  assumes "tables_ok C pk t"
  shows "uint (epoch_of (heads_view pk t vid b)) < current_epoch t vid"
proof (cases "find (same_head vid b) (object_heads t)")
  case None
  with current_epoch_bounds [OF assms, of vid] show ?thesis
    by (simp add: heads_view_def epoch_of_def)
next
  case (Some row)
  from find_same_head [OF Some] have row: "row \<in> set (object_heads t)" "hw_vault_id row = vid" by simp_all
  note ok = tables_ok_row [OF assms row(1)]
  from ok(1) row(2) have "hw_witness_epoch row < current_epoch t vid"
    by (auto simp: row_ok_def current_epoch_def)
  with Some ok(2,3) show ?thesis
    by (simp add: heads_view_def epoch_of_def row_receipt_def uint_row)
qed

lemma advance_head_Inr:
  assumes law: "signature_law C" "length (ws_signing_key s) = 32"
    and ok: "tables_ok C (ws_public_key C s) (tables s)"
    and a: "advance_head C rq s = (s', Inr r)"
  shows "tables_ok C (ws_public_key C s) (tables s')"
    "heads_view (ws_public_key C s) (tables s') = record_receipt r (heads_view (ws_public_key C s) (tables s))"
    "binds r rq" "\<forall>b. epoch_of (heads_view (ws_public_key C s) (tables s) (rq_vault_id rq) b) < rc_witness_epoch r"
    "rc_public_key r = ws_public_key C s"
    "signed_by C (rc_public_key r) (receipt_message r) (rc_signature r)"
proof -
  let ?pk = "ws_public_key C s" and ?t = "tables s" and ?v = "rq_vault_id rq"
  from a obtain s1 e where n: "next_epoch ?v s = (s1, Inr e)"
      and r: "r = receipt_issue C rq e (ws_signing_key s1)" and put: "put_head r (tables s1) = Some (tables s')"
    by (auto simp: advance_head_def Let_def then_do_eq_Inr sql_execute_Inr)
  have key: "ws_signing_key s1 = ws_signing_key s"
    using evolvesD [OF outside_next_epoch n] by (rule same_outside_key)
  note n' = next_epoch_Inr [OF ok n] and p' = put_head_Some [OF put]
  have cur: "0 < current_epoch ?t ?v" using current_epoch_bounds [OF ok] by simp
  show bnd: "binds r rq" "rc_public_key r = ?pk" using r key by (simp_all add: ws_public_key_def)
  show sg: "signed_by C (rc_public_key r) (receipt_message r) (rc_signature r)"
    using receipt_issue_signed [OF law] r key by simp
  show "\<forall>b. epoch_of (heads_view ?pk ?t ?v b) < rc_witness_epoch r"
    using view_epoch_bound [OF ok, of ?v] n'(1) r by (simp add: word_less_def)
  show "heads_view ?pk (tables s') = record_receipt r (heads_view ?pk ?t)"
    using row_receipt_row [OF bnd(2)] by (auto simp: fun_eq_iff heads_view_def record_receipt_def p'(6) n'(3))
  let ?m = "map_of (vault_epochs ?t)" and ?m' = "map_of (vault_epochs (tables s'))"
  have m': "?m' = ?m(?v \<mapsto> uint e + 1)" using n'(4) p'(4) by simp
  have "row_ok C ?pk ?m' (receipt_row r)"
    using p'(1-3) sg bnd(2) row_receipt_row [OF bnd(2)] cur n'(1) r m'
    by (simp add: row_ok_def receipt_row_def)
  moreover have "row_ok C ?pk ?m' row" if "row \<in> set (object_heads ?t)" for row
  proof (rule row_ok_mono)
    show "row_ok C ?pk ?m row" using tables_ok_row(1) [OF ok that] .
    show "\<exists>n'. ?m' v = Some n' \<and> n \<le> n'" if "?m v = Some n" for v n
      using that n'(1) m' by (auto simp: current_epoch_def)
  qed
  ultimately have "list_all (row_ok C ?pk ?m') (object_heads (tables s'))"
    using p'(5) n'(3) by (auto simp: list_all_iff)
  moreover have "0 < n \<and> n < 2 ^ 63" if "?m' v = Some n" for v n
    using that m' n'(1,5) cur ok by (auto simp: tables_ok_def split: if_splits)
  ultimately show "tables_ok C ?pk (tables s')" by (simp add: tables_ok_def)
qed

section \<open>What one issue call does to the service\<close>

definition service_ok :: "crypto \<Rightarrow> witness_service \<Rightarrow> bool" where
  "service_ok C s \<longleftrightarrow> signature_law C \<and> length (ws_signing_key s) = 32
     \<and> tables_ok C (ws_public_key C s) (tables s)"

definition service_heads :: "crypto \<Rightarrow> witness_service \<Rightarrow> vault_id \<Rightarrow> object_id \<Rightarrow> witness_receipt option" where
  "service_heads C s = heads_view (ws_public_key C s) (tables s)"

lemma service_ok_cong:
  "ws_signing_key s' = ws_signing_key s \<Longrightarrow> tables s' = tables s \<Longrightarrow>
     service_ok C s' = service_ok C s \<and> service_heads C s' = service_heads C s"
  by (simp add: service_ok_def service_heads_def ws_public_key_def)

lemma service_heads_receipt:
  assumes "service_ok C s" "service_heads C s v b = Some r"
  shows "rc_vault_id r = v" "rc_object_id r = b" "rc_public_key r = ws_public_key C s"
    "signed_by C (rc_public_key r) (receipt_message r) (rc_signature r)"
proof -
  from assms(2) obtain row where f: "find (same_head v b) (object_heads (tables s)) = Some row"
      and r: "r = row_receipt (ws_public_key C s) row"
    by (auto simp: service_heads_def heads_view_def)
  from find_same_head [OF f] have row: "row \<in> set (object_heads (tables s))"
    "hw_vault_id row = v" "hw_object_id row = b" by simp_all
  have "row_ok C (ws_public_key C s) (map_of (vault_epochs (tables s))) row"
    using assms(1) row(1) tables_ok_row(1) by (auto simp: service_ok_def)
  then show "rc_vault_id r = v" "rc_object_id r = b" "rc_public_key r = ws_public_key C s"
    "signed_by C (rc_public_key r) (receipt_message r) (rc_signature r)"
    using r row by (simp_all add: row_ok_def row_receipt_def)
qed

lemma key_of_tick [simp]: "ws_signing_key (fst (tick s)) = ws_signing_key s"
  by (simp add: tick_def)

lemma key_of_enforce: "enforce_state_files s = (s', r) \<Longrightarrow> ws_signing_key s' = ws_signing_key s"
  by (auto simp: enforce_state_files_def with_files_def split: prod.splits)

lemma outside_advance_head: "evolves same_outside (advance_head C rq)"
  unfolding advance_head_def Let_def
  by (intro outside_then_do outside_next_epoch, rule evolvesI)
     (auto dest!: evolvesD [OF outside_then_do [OF outside_execute outside_return]])

lemma decide_issue_cases:
  assumes ok: "service_ok C s" and d: "decide_issue C q (ws_public_key C s) s = (s', res)"
  shows "tables s' = tables s \<and> ws_signing_key s' = ws_signing_key s
    \<and> (res = Inr None \<longrightarrow>
         epoch_of (service_heads C s (rq_vault_id (pi_request q)) (rq_object_id (pi_request q))) = pi_expected_epoch q)
    \<and> (\<forall>r. res = Inr (Some r) \<longrightarrow>
         service_heads C s (rq_vault_id (pi_request q)) (rq_object_id (pi_request q)) = Some r
         \<and> binds r (pi_request q) \<and> pi_expected_epoch q < rc_witness_epoch r)"
proof -
  let ?v = "rq_vault_id (pi_request q)" and ?b = "rq_object_id (pi_request q)"
  have load: "load_receipt C ?v ?b (ws_public_key C s) (tables s) = Inr (service_heads C s ?v ?b)"
    using ok load_receipt_view by (simp add: service_ok_def service_heads_def)
  note ids = service_heads_receipt [OF ok, of ?v ?b]
  show ?thesis
  proof (cases "faults s 0")
    case True
    with d show ?thesis by (auto simp: decide_issue_def then_do_def sql_query_def tick_def)
  next
    case False
    with d load have "s' = fst (tick s)" and res: "res = (case service_heads C s ?v ?b of
          Some r \<Rightarrow> if rc_version_id r = rq_version_id (pi_request q) \<and> rc_commitment r = rq_commitment (pi_request q)
                     \<and> rc_witness_epoch r > pi_expected_epoch q then Inr (Some r)
                  else if rc_witness_epoch r \<noteq> pi_expected_epoch q then Inl WitnessConflict else Inr None
        | None \<Rightarrow> if pi_expected_epoch q \<noteq> 0 then Inl WitnessConflict else Inr None)"
      by (auto simp: decide_issue_def then_do_def sql_query_def tick_def)
    with ids show ?thesis
      by (cases "service_heads C s ?v ?b") (auto simp: epoch_of_def binds_def)
  qed
qed

text \<open>Committing a head: either the service is as before and the call fails, or the new head is recorded,
  whose answer can still be lost to a failing permission check.\<close>

lemma commit_head_cases:
  assumes ok: "service_ok C s" and i: "commit_head C rq (tables s) s = (s', res)"
  obtains (failed) x where "tables s' = tables s" "ws_signing_key s' = ws_signing_key s" "res = Inl x"
  | (recorded) r where "service_ok C s'" "ws_public_key C s' = ws_public_key C s" "binds r rq"
      "\<And>b. epoch_of (service_heads C s (rq_vault_id rq) b) < rc_witness_epoch r"
      "service_heads C s' = record_receipt r (service_heads C s)"
      "res = Inr r \<or> (\<exists>x. res = Inl x \<and> x \<noteq> WitnessConflict)"
proof -
  obtain s3 ar where a: "advance_head C rq s = (s3, ar)" by force
  have k3: "ws_signing_key s3 = ws_signing_key s"
    using evolvesD [OF outside_advance_head a] same_outside_key by simp
  show thesis
  proof (cases "\<exists>r. ar = Inr r \<and> \<not> faults s3 0")
    case False
    with i a k3 failed show thesis
      by (cases ar) (auto simp: commit_head_def tick_def)
  next
    case True
    then obtain r where r: "ar = Inr r" "\<not> faults s3 0" by blast
    with i a have "then_do enforce_state_files (\<lambda>_ s. (s, Inr r)) (fst (tick s3)) = (s', res)"
      by (simp add: commit_head_def tick_def)
    then obtain fr where en: "enforce_state_files (fst (tick s3)) = (s', fr)"
        and fr: "res = Inr r \<or> (\<exists>x. res = Inl x \<and> fr = Inl x)"
      by (cases rule: then_do_cases [of enforce_state_files "fst (tick s3)" "\<lambda>_ s. (s, Inr r)"]) auto
    have s': "tables s' = tables s3" "ws_signing_key s' = ws_signing_key s"
      using enforce_state_files_frame [OF en] key_of_enforce [OF en] k3 by simp_all
    then have pk: "ws_public_key C s' = ws_public_key C s" by (simp add: ws_public_key_def)
    from ok have base: "signature_law C" "length (ws_signing_key s) = 32"
        "tables_ok C (ws_public_key C s) (tables s)"
      by (simp_all add: service_ok_def)
    note facts = advance_head_Inr [OF base a [unfolded r(1)]]
    have "res = Inr r \<or> (\<exists>x. res = Inl x \<and> x \<noteq> WitnessConflict)"
      using fr en enforce_state_files_errors by fastforce
    then show thesis
      using facts base s' pk recorded [of r] by (simp add: service_ok_def service_heads_def)
  qed
qed

text \<open>The outcomes of an issue call: nothing recorded, the recorded receipt again, or a new head.\<close>

lemma issue_parsed_cases:
  assumes ok: "service_ok C s" and i: "issue_parsed C q s = (s', res)"
  obtains (unchanged) "service_ok C s'" "ws_public_key C s' = ws_public_key C s"
      "service_heads C s' = service_heads C s"
      "\<And>r. res = Inr r \<Longrightarrow>
         service_heads C s (rq_vault_id (pi_request q)) (rq_object_id (pi_request q)) = Some r
         \<and> binds r (pi_request q) \<and> pi_expected_epoch q < rc_witness_epoch r"
  | (advanced) r where "service_ok C s'" "ws_public_key C s' = ws_public_key C s"
      "supersedes (service_heads C s) (pi_request q) (pi_expected_epoch q) r"
      "service_heads C s' = record_receipt r (service_heads C s)"
      "res = Inr r \<or> (\<exists>x. res = Inl x \<and> x \<noteq> WitnessConflict)"
proof -
  have keep: thesis
    if "tables s' = tables s" "ws_signing_key s' = ws_signing_key s"
      "\<And>r. res = Inr r \<Longrightarrow>
         service_heads C s (rq_vault_id (pi_request q)) (rq_object_id (pi_request q)) = Some r
         \<and> binds r (pi_request q) \<and> pi_expected_epoch q < rc_witness_epoch r"
    using unchanged ok service_ok_cong [OF that(2,1)] that by (simp add: ws_public_key_def)
  obtain s2 dec where d: "decide_issue C q (ws_public_key C s) (fst (tick s)) = (s2, dec)" by force
  have "service_ok C (fst (tick s))" "service_heads C (fst (tick s)) = service_heads C s"
    "ws_public_key C (fst (tick s)) = ws_public_key C s"
    using ok service_ok_cong [of "fst (tick s)" s] by (simp_all add: ws_public_key_def)
  with decide_issue_cases [of C "fst (tick s)" q s2 dec] d
  have s2: "tables s2 = tables s" "ws_signing_key s2 = ws_signing_key s"
    and none: "dec = Inr None \<Longrightarrow>
      epoch_of (service_heads C s (rq_vault_id (pi_request q)) (rq_object_id (pi_request q))) = pi_expected_epoch q"
    and again: "\<And>r. dec = Inr (Some r) \<Longrightarrow>
      service_heads C s (rq_vault_id (pi_request q)) (rq_object_id (pi_request q)) = Some r
      \<and> binds r (pi_request q) \<and> pi_expected_epoch q < rc_witness_epoch r"
    by auto
  have ok2: "service_ok C s2" "service_heads C s2 = service_heads C s" "ws_public_key C s2 = ws_public_key C s"
    using ok service_ok_cong [OF s2(2,1)] s2 by (simp_all add: ws_public_key_def)
  show thesis
  proof (cases "\<not> faults s 0 \<and> dec = Inr None")
    case False
    with i d s2 again keep show thesis
      by (cases dec) (auto simp: issue_parsed_def tick_def split: option.splits if_splits)
  next
    case True
    with i d s2 have "commit_head C (pi_request q) (tables s2) s2 = (s', res)"
      by (simp add: issue_parsed_def tick_def)
    with ok2(1) show thesis
    proof (cases rule: commit_head_cases)
      case (failed x)
      with s2 keep show thesis by simp
    next
      case (recorded r)
      with ok2 none True advanced [of r] show thesis by (simp add: supersedes_def)
    qed
  qed
qed

section \<open>The HTTPS client in front of the service\<close>

text \<open>The JSON codec on the client's side, and the agent that delivers its requests to the service.\<close>

record json_client =
  write_issue_request :: "issue_wire_request \<Rightarrow> bytes"
  write_head_request :: "head_wire_request \<Rightarrow> bytes"
  read_issue_response :: "bytes \<Rightarrow> issue_wire_response option"
  read_head_response :: "bytes \<Rightarrow> head_wire_response option"

definition hex_law :: "hex_crate \<Rightarrow> bool" where
  "hex_law H \<longleftrightarrow> (\<forall>bs. hx_encode H bs = hex_encode bs \<and> hx_decode H (hex_encode bs) = Some bs)"

text \<open>Neither side reads a value that the other did not write.\<close>

definition json_law :: "json_codec \<Rightarrow> json_client \<Rightarrow> bool" where
  "json_law J K \<longleftrightarrow>
     (\<forall>w w'. parse_issue_request J (write_issue_request K w) = Some w' \<longrightarrow> w' = w) \<and>
     (\<forall>w w'. parse_head_request J (write_head_request K w) = Some w' \<longrightarrow> w' = w) \<and>
     (\<forall>r bs r'. write_issue_response J r = Some bs \<longrightarrow> read_issue_response K bs = Some r' \<longrightarrow> r' = r) \<and>
     (\<forall>r bs r'. write_head_response J r = Some bs \<longrightarrow> read_head_response K bs = Some r' \<longrightarrow> r' = r)"

lemma json_lawD:
  assumes "json_law J K"
  shows "parse_issue_request J (write_issue_request K w) = Some w' \<Longrightarrow> w' = w"
    and "parse_head_request J (write_head_request K v) = Some v' \<Longrightarrow> v' = v"
    and "write_issue_response J r = Some bs \<Longrightarrow> read_issue_response K bs = Some r' \<Longrightarrow> r' = r"
    and "write_head_response J h = Some bs \<Longrightarrow> read_head_response K bs = Some h' \<Longrightarrow> h' = h"
  using assms unfolding json_law_def by metis+

definition post_to :: "string \<Rightarrow> string \<Rightarrow> bytes \<Rightarrow> http_request" where
  "post_to url auth body = \<lparr>hp_method = PostMethod, hp_url = url, hp_authorization = Some auth,
     hp_body = \<lparr>body_bytes = body, body_fails = False\<rparr>\<rparr>"

definition reply_of :: "http_response \<Rightarrow> http_reply" where
  "reply_of response =
     (if status_code response = 200 then HttpOk \<lparr>body_bytes = response_body response, body_fails = False\<rparr>
      else HttpStatus (status_code response))"

definition service_agent ::
    "crypto \<Rightarrow> hex_crate \<Rightarrow> json_codec \<Rightarrow> json_client \<Rightarrow> string \<Rightarrow> witness_service http_agent" where
  "service_agent C H J K token =
     \<lparr>send_issue = (\<lambda>_ auth w s.
        apsnd reply_of (handle_request C H J token (post_to ''/v1/issue'' auth (write_issue_request K w)) s)),
      send_head = (\<lambda>_ auth w s.
        apsnd reply_of (handle_request C H J token (post_to ''/v1/head'' auth (write_head_request K w)) s)),
      decode_issue_response = read_issue_response K,
      decode_head_response = read_head_response K\<rparr>"

lemma hex_encode_inject [simp]: "hex_encode a = hex_encode b \<longleftrightarrow> a = b"
  using parse_pairs_hex_encode by (metis sum.inject(2))

lemma parse_id_hex:
  assumes "hex_law H" "parse_id H n (hex_encode bs) error = Inr bs'"
  shows "bs' = bs \<and> length bs = n"
  using assms hex_encode_wf [of bs] by (auto simp: parse_id_def hex_law_def ws_fixed_def split: if_splits)

lemma parse_issue_from_request:
  assumes "hex_law H" "parse_issue H (from_request rq e) = Inr q"
  shows "pi_request q = rq \<and> pi_expected_epoch q = e"
  using assms(2)
  by (auto simp: parse_issue_def from_request_def to_hex_eq result_simps dest!: parse_id_hex [OF assms(1)])

lemma parse_issue_error: "parse_issue H w = Inl x \<Longrightarrow> x \<noteq> WitnessConflict"
  by (auto simp: parse_issue_def parse_id_def ws_fixed_def from_slice_def result_simps split: if_splits)

lemma ws_read_json_Some: "ws_read_json f \<lparr>body_bytes = bs, body_fails = False\<rparr> = Some w \<Longrightarrow> f bs = Some w"
  by (auto simp: ws_read_json_def Let_def split: if_splits)

lemma reply_json_Inr: "reply_json f (reply_of response) = Inr r \<Longrightarrow>
    status_code response = 200 \<and> f (response_body response) = Some r"
  by (auto simp: reply_json_def reply_of_def read_json_def Let_def result_simps split: if_splits)

lemma reply_json_conflict: "reply_json f (reply_of response) = Inl WitnessConflict \<Longrightarrow> status_code response = 409"
  by (auto simp: reply_json_def reply_of_def read_json_def Let_def result_simps split: if_splits)

text \<open>The status codes of the issue endpoint.\<close>

definition issue_status :: "hex_crate \<Rightarrow> json_codec \<Rightarrow> witness_receipt result \<Rightarrow> http_response" where
  "issue_status H J out =
     (case out of
        Inr r \<Rightarrow> serialize_response 200 (write_issue_response J (issue_response H r))
      | Inl x \<Rightarrow> if x = WitnessConflict then json_response 409 (lit ''{\"error\":\"witness_conflict\"}'')
                else json_response 400 (lit ''{\"error\":\"invalid_request\"}''))"

lemma dispatch_issue:
  "dispatch C H J (post_to ''/v1/issue'' auth body) s =
     (case ws_read_json (parse_issue_request J) \<lparr>body_bytes = body, body_fails = False\<rparr> of
        None \<Rightarrow> (s, json_response 400 (lit ''{\"error\":\"invalid_request\"}''))
      | Some w \<Rightarrow> (case parse_issue H w of
          Inl x \<Rightarrow> (s, json_response 400 (lit ''{\"error\":\"invalid_request\"}''))
        | Inr q \<Rightarrow> apsnd (issue_status H J) (issue_parsed C q s)))"
  by (auto simp: dispatch_def post_to_def issue_wire_def issue_status_def then_do_def dest: parse_issue_error
      split: option.splits sum.splits prod.splits vault_error.splits)

lemma issue_status_simps:
  "status_code (issue_status H J out) = 409 \<longleftrightarrow> out = Inl WitnessConflict"
  "status_code (issue_status H J out) = 200 \<Longrightarrow>
     \<exists>r. out = Inr r \<and> write_issue_response J (issue_response H r) = Some (response_body (issue_status H J out))"
  by (auto simp: issue_status_def json_response_def serialize_response_def split: sum.splits option.splits if_splits)

lemma service_agent_issue:
  assumes "post_issue (service_agent C H J K token) pr w s = (s', res)"
  obtains response where
    "handle_request C H J token (post_to ''/v1/issue'' (authorization pr) (write_issue_request K w)) s = (s', response)"
    "res = reply_json (read_issue_response K) (reply_of response)"
  using assms
  by (cases "handle_request C H J token (post_to ''/v1/issue'' (authorization pr) (write_issue_request K w)) s")
     (auto simp: post_issue_def service_agent_def)

text \<open>Running a request on the service: it refused before touching its state, or it ran the request.\<close>

lemma handle_issue_cases:
  assumes "hex_law H" "json_law J K"
    and h: "handle_request C H J token (post_to ''/v1/issue'' auth (write_issue_request K (from_request rq e))) s
      = (s', response)"
  obtains (refused) "s' = s" "status_code response = 400 \<or> status_code response = 401"
  | (ran) q out where "pi_request q = rq" "pi_expected_epoch q = e" "issue_parsed C q s = (s', out)"
      "response = issue_status H J out"
proof -
  let ?body = "write_issue_request K (from_request rq e)"
  let ?read = "ws_read_json (parse_issue_request J) \<lparr>body_bytes = ?body, body_fails = False\<rparr>"
  have w: "w = from_request rq e" if "?read = Some w" for w
    using ws_read_json_Some [OF that] by (rule json_lawD(1) [OF assms(2)])
  show thesis
  proof (cases "authorized (post_to ''/v1/issue'' auth ?body) token")
    case False
    with h refused show thesis by (auto simp: handle_request_def json_response_def)
  next
    case True
    with h have d: "dispatch C H J (post_to ''/v1/issue'' auth ?body) s = (s', response)"
      by (simp add: handle_request_def)
    show thesis
    proof (cases "?read = None \<or> (\<exists>x. parse_issue H (from_request rq e) = Inl x)")
      case True
      with d w refused show thesis
        by (cases ?read) (auto simp: dispatch_issue json_response_def)
    next
      case False
      then obtain q where q: "parse_issue H (from_request rq e) = Inr q" and rd: "?read = Some (from_request rq e)"
        using w by (cases "parse_issue H (from_request rq e)"; cases ?read) auto
      with d ran [of q] parse_issue_from_request [OF assms(1) q] show thesis
        by (cases "issue_parsed C q s") (auto simp: dispatch_issue)
    qed
  qed
qed

text \<open>What an issue call looks like from the client.\<close>

lemma post_issue_cases:
  assumes "hex_law H" "json_law J K"
    and p: "post_issue (service_agent C H J K token) pr (from_request rq e) s = (s', res)"
  obtains (refused) x where "s' = s" "res = Inl x" "x \<noteq> WitnessConflict"
  | (ran) q out where "pi_request q = rq" "pi_expected_epoch q = e" "issue_parsed C q s = (s', out)"
      "\<And>w. res = Inr w \<Longrightarrow> \<exists>r. out = Inr r \<and> w = issue_response H r"
      "res = Inl WitnessConflict \<Longrightarrow> out = Inl WitnessConflict"
proof -
  from p obtain response where
    h: "handle_request C H J token
      (post_to ''/v1/issue'' (authorization pr) (write_issue_request K (from_request rq e))) s = (s', response)"
    and res: "res = reply_json (read_issue_response K) (reply_of response)"
    by (rule service_agent_issue)
  note ok = reply_json_Inr [of "read_issue_response K" response]
    and conflict = reply_json_conflict [of "read_issue_response K" response]
  from assms(1,2) h show thesis
  proof (cases rule: handle_issue_cases)
    case refused
    with res ok conflict that(1) show thesis by (cases res) fastforce+
  next
    case (ran q out)
    show thesis
    proof (rule that(2) [OF ran(1-3)])
      show "\<exists>r. out = Inr r \<and> w = issue_response H r" if "res = Inr w" for w
      proof -
        from that res ran(4) ok have "status_code (issue_status H J out) = 200"
            and r: "read_issue_response K (response_body (issue_status H J out)) = Some w"
          by simp_all
        from issue_status_simps(2) [OF this(1)] r show ?thesis
          using json_lawD(3) [OF assms(2)] by blast
      qed
      show "out = Inl WitnessConflict" if "res = Inl WitnessConflict"
        using conflict res that ran(4) by (simp add: issue_status_simps(1))
    qed
  qed
qed

lemma into_receipt_response:
  assumes "hex_law H" "into_receipt C (issue_response H r) = Inr r'"
  shows "r' = r"
  using assms
  by (cases r)
     (auto simp: into_receipt_def issue_response_def hex_law_def to_hex_eq result_simps parse_fixed_iff parse_id_iff)

lemma into_receipt_no_conflict: "into_receipt C w \<noteq> Inl WitnessConflict"
  by (auto simp: into_receipt_def parse_vault_id_def parse_object_id_def parse_version_id_def from_slice_def
      receipt_new_def receipt_verify_signature_def verify_signature_def result_simps
      dest: parse_fixed_error split: if_splits)

lemma verify_request_no_conflict: "verify_request C r rq \<noteq> Inl WitnessConflict"
  by (simp add: verify_request_def receipt_verify_signature_def verify_signature_def)

lemma supersedesD:
  assumes "supersedes now rq e r"
  shows "binds r rq" "e < rc_witness_epoch r"
    "record_receipt r now (rq_vault_id rq) (rq_object_id rq) = Some r"
  using assms by (auto simp: supersedes_def record_receipt_def binds_def)

lemma issue_parsed_receipt:
  assumes ok: "service_ok C s" and i: "issue_parsed C q s = (s', Inr r)"
  shows "service_heads C s' (rq_vault_id (pi_request q)) (rq_object_id (pi_request q)) = Some r"
    "binds r (pi_request q)" "pi_expected_epoch q < rc_witness_epoch r"
    "rc_public_key r = ws_public_key C s" "signed_by C (rc_public_key r) (receipt_message r) (rc_signature r)"
proof -
  have "service_ok C s' \<and> ws_public_key C s' = ws_public_key C s
      \<and> service_heads C s' (rq_vault_id (pi_request q)) (rq_object_id (pi_request q)) = Some r
      \<and> binds r (pi_request q) \<and> pi_expected_epoch q < rc_witness_epoch r"
    using ok i
  proof (cases rule: issue_parsed_cases)
    case unchanged
    then show ?thesis by simp
  next
    case (advanced r')
    with supersedesD [OF advanced(3)] show ?thesis by simp
  qed
  then show "service_heads C s' (rq_vault_id (pi_request q)) (rq_object_id (pi_request q)) = Some r"
    "binds r (pi_request q)" "pi_expected_epoch q < rc_witness_epoch r"
    "rc_public_key r = ws_public_key C s" "signed_by C (rc_public_key r) (receipt_message r) (rc_signature r)"
    using service_heads_receipt [of C s' "rq_vault_id (pi_request q)" "rq_object_id (pi_request q)" r] by auto
qed

text \<open>A receipt the client returns is the one the service recorded; a conflict it reports is the service's.\<close>

lemma https_issue_cases:
  assumes H: "hex_law H" and K: "json_law J K" and ok: "service_ok C s" and tr: "trusted pr (ws_public_key C s)"
    and i: "https_issue_receipt C (service_agent C H J K token) pr rq e s = (s', res)"
  obtains (refused) x where "s' = s" "res = Inl x" "x \<noteq> WitnessConflict"
  | (ran) q out where "pi_request q = rq" "pi_expected_epoch q = e" "issue_parsed C q s = (s', out)"
      "\<And>r. res = Inr r \<Longrightarrow> out = Inr r" "res = Inl WitnessConflict \<Longrightarrow> out = Inl WitnessConflict"
proof -
  obtain post where p: "post_issue (service_agent C H J K token) pr (from_request rq e) s = (s', post)"
      and res: "res = and_then post (\<lambda>response. and_then (into_receipt C response) (\<lambda>receipt.
        and_then (check_trusted_key pr (rc_public_key receipt)) (\<lambda>_. and_then (verify_request C receipt rq) (\<lambda>_.
        if rc_witness_epoch receipt \<le> e then Inl WitnessConflict else Inr receipt))))"
    using i by (cases rule: then_do_cases [of "post_issue (service_agent C H J K token) pr (from_request rq e)" s])
      (auto simp: https_issue_receipt_def)
  from H K p show thesis
  proof (cases rule: post_issue_cases)
    case (refused x)
    with res that(1) show thesis by simp
  next
    case (ran q out)
    show thesis
    proof (rule that(2) [OF ran(1-3)])
      fix r assume "res = Inr r"
      with res ran(4) into_receipt_response [OF H] show "out = Inr r"
        by (fastforce simp: result_simps split: if_splits)
    next
      assume conflict: "res = Inl WitnessConflict"
      show "out = Inl WitnessConflict"
      proof (cases post)
        case (Inl x)
        with conflict res ran(5) show ?thesis by simp
      next
        case (Inr w)
        then obtain r where r: "out = Inr r" "w = issue_response H r" using ran(4) by blast
        note f = issue_parsed_receipt [OF ok ran(3) [unfolded r(1)]]
        have "check_trusted_key pr (rc_public_key r) \<noteq> Inl WitnessConflict"
          using f(4) tr by (auto simp: check_trusted_key_def trusted_def)
        with conflict res Inr r into_receipt_response [OF H, of C r] into_receipt_no_conflict [of C w]
          verify_request_no_conflict [of C r rq] f(3) ran(2)
        show ?thesis by (auto simp: result_simps split: if_splits)
      qed
    qed
  qed
qed

lemma parse_head_hex:
  assumes "hex_law H"
    and "parse_head H \<lparr>hq_vault_id = to_hex v, hq_object_id = to_hex b, hq_challenge = hex_encode ch\<rparr> = Inr q"
  shows "q = \<lparr>ph_vault_id = v, ph_object_id = b, ph_challenge = ch\<rparr>"
  using assms(2) by (auto simp: parse_head_def to_hex_eq result_simps dest!: parse_id_hex [OF assms(1)])

lemma into_head_response:
  assumes "hex_law H" "into_head C (head_response H h) = Inr h'"
  shows "h' = h"
  using assms
  by (cases h)
     (auto simp: into_head_def head_response_def hex_law_def to_hex_eq result_simps parse_fixed_iff parse_id_iff
       parse_optional_def split: option.splits)

lemma same_service_tick: "service_ok C s \<Longrightarrow> service_ok C (fst (tick s))
    \<and> ws_public_key C (fst (tick s)) = ws_public_key C s \<and> service_heads C (fst (tick s)) = service_heads C s"
  using service_ok_cong [of "fst (tick s)" s C] by (simp add: ws_public_key_def)

text \<open>The head endpoint reads one receipt and changes nothing but the failure schedule.\<close>

lemma head_wire_state: "head_wire C H w s = (s', out) \<Longrightarrow> s' = s \<or> s' = fst (tick s)"
  by (auto simp: head_wire_def then_do_def sql_query_def tick_def split: sum.splits if_splits)

lemma head_wire_Inr:
  assumes "head_wire C H w s = (s', Inr response)"
  shows "\<exists>q r. parse_head H w = Inr q
    \<and> load_receipt C (ph_vault_id q) (ph_object_id q) (ws_public_key C s) (tables s) = Inr r
    \<and> response = head_response H (head_issue C (ph_vault_id q) (ph_object_id q) r (ph_challenge q) (ws_signing_key s))"
  using assms by (auto simp: head_wire_def then_do_def sql_query_def tick_def split: sum.splits if_splits)

lemma handle_head_state:
  assumes "handle_request C H J token (post_to ''/v1/head'' auth body) s = (s', response)"
  shows "s' = s \<or> s' = fst (tick s)"
  using assms head_wire_state [of C H]
  by (auto simp: handle_request_def dispatch_def post_to_def split: if_splits option.splits prod.splits sum.splits)

lemma handle_head_response:
  assumes "json_law J K"
    and "handle_request C H J token (post_to ''/v1/head'' auth (write_head_request K w)) s = (s', response)"
    and "status_code response = 200"
  shows "\<exists>q r. parse_head H w = Inr q
    \<and> load_receipt C (ph_vault_id q) (ph_object_id q) (ws_public_key C s) (tables s) = Inr r
    \<and> write_head_response J (head_response H
      (head_issue C (ph_vault_id q) (ph_object_id q) r (ph_challenge q) (ws_signing_key s))) = Some (response_body response)"
proof -
  let ?body = "\<lparr>body_bytes = write_head_request K w, body_fails = False\<rparr>"
  from assms(2,3) obtain v hr where v: "ws_read_json (parse_head_request J) ?body = Some v"
      and h: "head_wire C H v s = (s', Inr hr)"
      and b: "write_head_response J hr = Some (response_body response)"
    by (auto simp: handle_request_def dispatch_def post_to_def json_response_def serialize_response_def
        split: if_splits option.splits prod.splits sum.splits)
  from ws_read_json_Some [OF v] have "v = w" by (rule json_lawD(2) [OF assms(1)])
  with head_wire_Inr [OF h] b show ?thesis by auto
qed

text \<open>A head the client accepts was computed from the receipt the service loaded, whatever rows the service holds.\<close>

lemma https_head_loaded:
  assumes H: "hex_law H" and K: "json_law J K"
    and h: "https_object_head C (service_agent C H J K token) pr v b ch s = (s', Inr h)"
  shows "\<exists>r. load_receipt C v b (ws_public_key C s) (tables s) = Inr r \<and> h = head_issue C v b r ch (ws_signing_key s)"
proof -
  let ?w = "\<lparr>hq_vault_id = to_hex v, hq_object_id = to_hex b, hq_challenge = hex_encode ch\<rparr>"
  let ?req = "post_to ''/v1/head'' (authorization pr) (write_head_request K ?w)"
  obtain response where hr: "handle_request C H J token ?req s = (s', response)"
      and rj: "\<exists>wr. reply_json (read_head_response K) (reply_of response) = Inr wr \<and> into_head C wr = Inr h"
    using h
    by (cases "handle_request C H J token ?req s")
       (auto simp: https_object_head_def post_head_def service_agent_def result_simps split: if_splits)
  then obtain wr where wr: "status_code response = 200" "read_head_response K (response_body response) = Some wr"
      "into_head C wr = Inr h"
    using reply_json_Inr by metis
  from handle_head_response [OF K hr wr(1)] obtain q r where q: "parse_head H ?w = Inr q"
      and r: "load_receipt C (ph_vault_id q) (ph_object_id q) (ws_public_key C s) (tables s) = Inr r"
      and b: "write_head_response J (head_response H
        (head_issue C (ph_vault_id q) (ph_object_id q) r (ph_challenge q) (ws_signing_key s))) = Some (response_body response)"
    by blast
  from parse_head_hex [OF H q] r b json_lawD(4) [OF K b wr(2)] into_head_response [OF H] wr(3)
  show ?thesis by auto
qed

lemma https_head_view:
  assumes "hex_law H" "json_law J K" "service_ok C s"
    and "https_object_head C (service_agent C H J K token) pr v b ch s = (s', Inr h)"
  shows "h = head_issue C v b (service_heads C s v b) ch (ws_signing_key s)"
  using https_head_loaded [OF assms(1,2,4)] assms(3) load_receipt_view by (auto simp: service_ok_def service_heads_def)

lemma https_head_state:
  assumes "https_object_head C (service_agent C H J K token) pr v b ch s = (s', res)"
  shows "s' = s \<or> s' = fst (tick s)"
proof -
  let ?w = "\<lparr>hq_vault_id = to_hex v, hq_object_id = to_hex b, hq_challenge = hex_encode ch\<rparr>"
  let ?req = "post_to ''/v1/head'' (authorization pr) (write_head_request K ?w)"
  have "fst (handle_request C H J token ?req s) = s'"
    using assms
    by (cases "handle_request C H J token ?req s")
       (auto simp: https_object_head_def post_head_def service_agent_def then_do_def split: sum.splits)
  with handle_head_state show ?thesis by (metis prod.collapse)
qed

section \<open>A service under another key\<close>

text \<open>The service keeps the signature of a head but not its signer, and reads a row as signed by the key it holds now.
  A row that this key did not sign is an error of both endpoints, and neither changes it.\<close>

lemma ws_open_key: "ws_open E path key t s = (s', Inr service) \<Longrightarrow> ws_signing_key service = key \<and> tables service = t"
  by (auto simp: ws_open_def result_simps tick_def split: sum.splits if_splits)

lemma load_receipt_other_key:
  assumes "load_receipt C v b pk t = Inr (Some r)" "\<not> signed_by C pk' (receipt_message r) (rc_signature r)"
  shows "\<exists>x. load_receipt C v b pk' t = Inl x"
  using assms
  by (cases "load_receipt C v b pk' t")
     (auto simp: load_receipt_def result_simps receipt_new_iff receipt_message_def split: option.splits)

lemma https_issue_unreadable:
  assumes "hex_law H" "json_law J K"
    and "load_receipt C (rq_vault_id rq) (rq_object_id rq) (ws_public_key C s) (tables s) = Inl x"
    and "https_issue_receipt C (service_agent C H J K token) pr rq e s = (s', res)"
  shows "(\<exists>y. res = Inl y) \<and> tables s' = tables s"
proof -
  obtain post where p: "post_issue (service_agent C H J K token) pr (from_request rq e) s = (s', post)"
      and res: "\<And>y. post = Inl y \<Longrightarrow> res = Inl y"
    using assms(4) by (auto simp: https_issue_receipt_def then_do_def split: prod.splits sum.splits)
  from assms(1,2) p show ?thesis
  proof (cases rule: post_issue_cases)
    case (ran q out)
    then have "(\<exists>y. out = Inl y) \<and> tables s' = tables s"
      using assms(3) by (auto simp: issue_parsed_def decide_issue_def then_do_def sql_query_def tick_def split: if_splits)
    with ran(4) res show ?thesis by (cases post) auto
  qed (use res in auto)
qed

section \<open>The contract of a witness\<close>

definition service_inv ::
    "crypto \<Rightarrow> hex_crate \<Rightarrow> json_codec \<Rightarrow> json_client \<Rightarrow> https_provider \<Rightarrow> witness_service \<Rightarrow> bool" where
  "service_inv C H J K pr s \<longleftrightarrow> hex_law H \<and> json_law J K \<and> service_ok C s \<and> trusted pr (ws_public_key C s)"

lemma https_issue_effect:
  assumes "service_inv C H J K pr s" "https_issue_receipt C (service_agent C H J K token) pr rq e s = (s', res)"
  shows "service_ok C s' \<and> ws_public_key C s' = ws_public_key C s
    \<and> (service_heads C s' = service_heads C s
       \<or> (\<exists>r. supersedes (service_heads C s) rq e r \<and> service_heads C s' = record_receipt r (service_heads C s)
            \<and> res \<noteq> Inl WitnessConflict))"
proof -
  from assms(1) have inv: "hex_law H" "json_law J K" "service_ok C s" "trusted pr (ws_public_key C s)"
    by (simp_all add: service_inv_def)
  from inv assms(2) show ?thesis
  proof (cases rule: https_issue_cases)
    case (refused x)
    with inv show ?thesis by simp
  next
    case (ran q out)
    from inv(3) ran(3) show ?thesis
    proof (cases rule: issue_parsed_cases)
      case unchanged
      then show ?thesis by simp
    next
      case (advanced r)
      with ran show ?thesis by auto
    qed
  qed
qed

interpretation ws: witness_provider C "https_issue_receipt C (service_agent C H J K token) pr"
  "https_object_head C (service_agent C H J K token) pr" "service_heads C" "ws_public_key C"
  "service_inv C H J K pr" for C H J K token pr
proof unfold_locales
  fix s rq e s' and res :: "witness_receipt result"
  assume inv: "service_inv C H J K pr s"
    and i: "https_issue_receipt C (service_agent C H J K token) pr rq e s = (s', res)"
  note eff = https_issue_effect [OF this]
  from eff inv show "service_inv C H J K pr s' \<and> ws_public_key C s' = ws_public_key C s"
    by (simp add: service_inv_def)
  from eff show "service_heads C s' = service_heads C s
      \<or> (\<exists>r. supersedes (service_heads C s) rq e r \<and> service_heads C s' = record_receipt r (service_heads C s))"
    by blast
next
  fix s rq e s' r
  assume inv: "service_inv C H J K pr s"
    and i: "https_issue_receipt C (service_agent C H J K token) pr rq e s = (s', Inr r)"
  from inv have l: "hex_law H" "json_law J K" "service_ok C s" "trusted pr (ws_public_key C s)"
    by (simp_all add: service_inv_def)
  from l i show "service_heads C s' (rq_vault_id rq) (rq_object_id rq) = Some r \<and> binds r rq \<and> e < rc_witness_epoch r
      \<and> rc_public_key r = ws_public_key C s
      \<and> signed_by C (rc_public_key r) (receipt_message r) (rc_signature r)"
  proof (cases rule: https_issue_cases)
    case (ran q out)
    with issue_parsed_receipt [OF l(3), of q s' r] show ?thesis by simp
  qed simp
next
  fix s rq e s'
  assume inv: "service_inv C H J K pr s"
    and i: "https_issue_receipt C (service_agent C H J K token) pr rq e s = (s', Inl WitnessConflict)"
  from https_issue_effect [OF this] show "service_heads C s' = service_heads C s" by blast
next
  fix s rq r e s' and res :: "witness_receipt result"
  assume inv: "service_inv C H J K pr s" and c: "service_heads C s (rq_vault_id rq) (rq_object_id rq) = Some r"
    and e: "e < rc_witness_epoch r"
    and i: "https_issue_receipt C (service_agent C H J K token) pr rq e s = (s', res)"
  from https_issue_effect [OF inv i] c e show "service_heads C s' = service_heads C s"
    by (auto simp: supersedes_def epoch_of_def)
next
  fix s v b ch s' h
  assume "service_inv C H J K pr s" "https_object_head C (service_agent C H J K token) pr v b ch s = (s', Inr h)"
  then have "h = head_issue C v b (service_heads C s v b) ch (ws_signing_key s)"
    using https_head_view by (auto simp: service_inv_def)
  then show "reports h (service_heads C s v b) \<and> hd_vault_id h = v \<and> hd_object_id h = b \<and> hd_challenge h = ch
      \<and> hd_public_key h = ws_public_key C s"
    using head_issue_reports by (simp add: ws_public_key_def)
next
  fix s v b ch s' and hres :: "witness_head result"
  assume inv: "service_inv C H J K pr s"
    and h: "https_object_head C (service_agent C H J K token) pr v b ch s = (s', hres)"
  from https_head_state [OF h] have "s' = s \<or> s' = fst (tick s)" .
  with inv same_service_tick [of C s]
  show "service_inv C H J K pr s' \<and> ws_public_key C s' = ws_public_key C s \<and> service_heads C s' = service_heads C s"
    by (auto simp: service_inv_def)
qed

section \<open>The service answers\<close>

definition signature_width :: "crypto \<Rightarrow> bool" where
  "signature_width C \<longleftrightarrow> (\<forall>k m. length (ed25519_sign C k m) = 64) \<and> (\<forall>k. length k = 32 \<longrightarrow> length (ed25519_public C k) = 32)"

lemma next_epoch_live:
  assumes "healthy s" "tables_ok C pk (tables s)" "length vid = 16" "current_epoch (tables s) vid + 1 < 2 ^ 63"
  shows "\<exists>t. next_epoch vid s = (s\<lparr>tables := t\<rparr>, Inr (word_of_int (current_epoch (tables s) vid)))"
proof -
  let ?i = "current_epoch (tables s) vid" and ?e = "word_of_int (current_epoch (tables s) vid) :: u64"
  have i: "0 < ?i" "?i < 2 ^ 63" using current_epoch_bounds [OF assms(2)] by auto
  obtain n where n: "select_epoch vid (tables s) = Inr n" "(case n of None \<Rightarrow> 1 | Some n \<Rightarrow> n) = ?e"
    using i by (cases "map_of (vault_epochs (tables s)) vid")
      (auto simp: select_epoch_def current_epoch_def from_sql_row)
  have "uint ?e = ?i" using i by (simp add: uint_row)
  then have "unat ?e = nat ?i" by (metis nat_uint_eq)
  then have "checked_add ?e 1 = Some (?e + 1)"
    using assms(4) i by (simp add: checked_add_def)
  moreover have "uint (?e + 1) = ?i + 1"
    using uint_checked_plus_1 [OF calculation] \<open>uint ?e = ?i\<close> by simp
  ultimately show ?thesis
    using n assms i
    by (auto simp: next_epoch_def then_do_def healthy_query Let_def sql_execute_def healthy_tick put_epoch_def
        to_sql_u64_def)
qed

lemma advance_head_live:
  assumes "healthy s" "service_ok C s" "signature_width C" "request_ok rq"
    "current_epoch (tables s) (rq_vault_id rq) + 1 < 2 ^ 63"
  shows "\<exists>t. advance_head C rq s = (s\<lparr>tables := t\<rparr>,
    Inr (receipt_issue C rq (word_of_int (current_epoch (tables s) (rq_vault_id rq))) (ws_signing_key s)))"
proof -
  let ?i = "current_epoch (tables s) (rq_vault_id rq)"
  let ?r = "receipt_issue C rq (word_of_int ?i) (ws_signing_key s)"
  from assms(2) have ok: "tables_ok C (ws_public_key C s) (tables s)" by (simp add: service_ok_def)
  obtain t where n: "next_epoch (rq_vault_id rq) s = (s\<lparr>tables := t\<rparr>, Inr (word_of_int ?i))"
    using next_epoch_live [OF assms(1) ok _ assms(5)] assms(4) by (auto simp: request_ok_def id_ok_def)
  have i: "0 < ?i" "?i < 2 ^ 63" using current_epoch_bounds [OF ok] by auto
  then have "to_sql_u64 (word_of_int ?i) = Some ?i" by (simp add: to_sql_u64_def uint_row)
  then obtain t' where "put_head ?r t = Some t'"
    using i assms(3,4) by (auto simp: put_head_def receipt_issue_def request_ok_def id_ok_def signature_width_def)
  then have "sql_execute (put_head ?r) (s\<lparr>tables := t\<rparr>) = (s\<lparr>tables := t'\<rparr>, Inr ())"
    using assms(1) by (simp add: healthy_execute)
  with n show ?thesis by (auto simp: advance_head_def then_do_def Let_def)
qed

lemma issue_parsed_live:
  assumes h: "healthy s" and ok: "service_ok C s" and sw: "signature_width C" and rq: "request_ok (pi_request q)"
    and room: "current_epoch (tables s) (rq_vault_id (pi_request q)) + 1 < 2 ^ 63"
    and e: "epoch_of (service_heads C s (rq_vault_id (pi_request q)) (rq_object_id (pi_request q))) = pi_expected_epoch q"
  shows "\<exists>s'. issue_parsed C q s = (s', Inr (receipt_issue C (pi_request q)
    (word_of_int (current_epoch (tables s) (rq_vault_id (pi_request q)))) (ws_signing_key s))) \<and> faults s' = (\<lambda>_. False)"
proof -
  let ?v = "rq_vault_id (pi_request q)" and ?b = "rq_object_id (pi_request q)"
  have "load_receipt C ?v ?b (ws_public_key C s) (tables s) = Inr (service_heads C s ?v ?b)"
    using ok load_receipt_view by (simp add: service_ok_def service_heads_def)
  then have "decide_issue C q (ws_public_key C s) s = (s, Inr None)"
    using e h by (auto simp: decide_issue_def then_do_def healthy_query epoch_of_def split: option.splits)
  moreover obtain t where "advance_head C (pi_request q) s = (s\<lparr>tables := t\<rparr>,
      Inr (receipt_issue C (pi_request q) (word_of_int (current_epoch (tables s) ?v)) (ws_signing_key s)))"
    using advance_head_live [OF h ok sw rq room] by blast
  moreover obtain s' where en: "enforce_state_files (s\<lparr>tables := t\<rparr>) = (s', Inr ())"
    using healthy_enforce [of "s\<lparr>tables := t\<rparr>"] h by auto
  moreover have "faults s' = (\<lambda>_. False)"
    using enforce_state_files_frame [OF en] h by (simp add: healthy_def)
  ultimately show ?thesis
    using h healthy_tick [OF h] healthy_tick [of "s\<lparr>tables := t\<rparr>"]
    by (auto simp: issue_parsed_def commit_head_def then_do_def)
qed

lemma parse_id_ok: "hex_law H \<Longrightarrow> length bs = n \<Longrightarrow> parse_id H n (hex_encode bs) error = Inr bs"
  using hex_encode_wf [of bs] by (simp add: parse_id_def hex_law_def ws_fixed_def)

lemma parse_issue_ok:
  "hex_law H \<Longrightarrow> request_ok rq \<Longrightarrow>
     parse_issue H (from_request rq e) = Inr \<lparr>pi_request = rq, pi_expected_epoch = e\<rparr>"
  by (cases rq) (simp add: parse_issue_def from_request_def to_hex_eq request_ok_def id_ok_def parse_id_ok from_slice_def)

lemma into_receipt_ok_response:
  assumes "hex_law H" "receipt_ok r" "signed_by C (rc_public_key r) (receipt_message r) (rc_signature r)"
  shows "into_receipt C (issue_response H r) = Inr r"
  using assms
  by (cases r) (simp add: into_receipt_def issue_response_def hex_law_def receipt_ok_def receipt_new_iff)

lemma https_issue_answers:
  assumes inv: "service_inv C H J K pr s" and sw: "signature_width C" and h: "healthy s"
    and auth: "authorization pr = ''Bearer '' @ token" and rq: "request_ok rq"
    and e: "epoch_of (service_heads C s (rq_vault_id rq) (rq_object_id rq)) = e"
    and room: "current_epoch (tables s) (rq_vault_id rq) + 1 < 2 ^ 63"
    and r: "r = receipt_issue C rq (word_of_int (current_epoch (tables s) (rq_vault_id rq))) (ws_signing_key s)"
    and out: "parse_issue_request J (write_issue_request K (from_request rq e)) = Some (from_request rq e)"
      "length (write_issue_request K (from_request rq e)) \<le> MAX_WIRE_BODY"
    and reply: "write_issue_response J (issue_response H r) = Some bs" "length bs \<le> MAX_HTTP_BODY"
      "read_issue_response K bs = Some (issue_response H r)"
  shows "\<exists>s'. https_issue_receipt C (service_agent C H J K token) pr rq e s = (s', Inr r) \<and> faults s' = (\<lambda>_. False)"
proof -
  let ?q = "\<lparr>pi_request = rq, pi_expected_epoch = e\<rparr>"
  let ?req = "post_to ''/v1/issue'' (authorization pr) (write_issue_request K (from_request rq e))"
  from inv have l: "hex_law H" "service_ok C s" "trusted pr (ws_public_key C s)" by (simp_all add: service_inv_def)
  obtain s' where run: "issue_parsed C ?q s = (s', Inr r)" and nf: "faults s' = (\<lambda>_. False)"
    using issue_parsed_live [OF h l(2) sw, of ?q] rq e room r by auto
  note f = issue_parsed_receipt [OF l(2) run]
  have "handle_request C H J token ?req s = (s', json_response 200 bs)"
    using auth out reply(1) parse_issue_ok [OF l(1) rq, of e] run
    by (simp add: handle_request_def authorized_def post_to_def [of "''/v1/issue''"] dispatch_issue [unfolded post_to_def]
        ws_read_json_def Let_def issue_status_def serialize_response_def)
  then have post: "post_issue (service_agent C H J K token) pr (from_request rq e) s = (s', Inr (issue_response H r))"
    using reply(2,3)
    by (simp add: post_issue_def service_agent_def reply_json_def reply_of_def json_response_def read_json_def Let_def)
  have "receipt_ok r"
    using r rq sw l(2) by (auto simp: receipt_ok_def receipt_issue_def request_ok_def signature_width_def service_ok_def)
  then have "into_receipt C (issue_response H r) = Inr r"
    using into_receipt_ok_response l(1) f(5) by blast
  with post f l(3) nf show ?thesis
    by (auto simp: https_issue_receipt_def then_do_def check_trusted_key_def trusted_def verify_request_def
        receipt_verify_signature_def verify_signature_def signed_by_def binds_def)
qed

lemma https_head_answers:
  assumes inv: "service_inv C H J K pr s" and sw: "signature_width C" and h: "faults s = (\<lambda>_. False)"
    and auth: "authorization pr = ''Bearer '' @ token" and ids: "id_ok v" "id_ok b" "length ch = 32"
    and wf: "\<And>r. service_heads C s v b = Some r \<Longrightarrow> receipt_ok r"
    and w: "w = \<lparr>hq_vault_id = to_hex v, hq_object_id = to_hex b, hq_challenge = hex_encode ch\<rparr>"
    and hv: "hv = head_issue C v b (service_heads C s v b) ch (ws_signing_key s)"
    and out: "parse_head_request J (write_head_request K w) = Some w" "length (write_head_request K w) \<le> MAX_WIRE_BODY"
    and reply: "write_head_response J (head_response H hv) = Some bs" "length bs \<le> MAX_HTTP_BODY"
      "read_head_response K bs = Some (head_response H hv)"
  shows "\<exists>s'. https_object_head C (service_agent C H J K token) pr v b ch s = (s', Inr hv)"
proof -
  let ?req = "post_to ''/v1/head'' (authorization pr) (write_head_request K w)"
  from inv have l: "hex_law H" "service_ok C s" "trusted pr (ws_public_key C s)" by (simp_all add: service_inv_def)
  have load: "load_receipt C v b (ws_public_key C s) (tables s) = Inr (service_heads C s v b)"
    using l(2) load_receipt_view by (simp add: service_ok_def service_heads_def)
  have "parse_head H w = Inr \<lparr>ph_vault_id = v, ph_object_id = b, ph_challenge = ch\<rparr>"
    using ids l(1) by (simp add: w parse_head_def to_hex_eq id_ok_def parse_id_ok from_slice_def)
  then obtain s' where "head_wire C H w s = (s', Inr (head_response H hv))"
    using load h hv by (auto simp: head_wire_def then_do_def sql_query_def tick_def)
  then have "handle_request C H J token ?req s = (s', json_response 200 bs)"
    using auth out reply(1)
    by (simp add: handle_request_def authorized_def post_to_def dispatch_def ws_read_json_def Let_def
        serialize_response_def)
  then have post: "post_head (service_agent C H J K token) pr w s = (s', Inr (head_response H hv))"
    using reply(2,3)
    by (simp add: post_head_def service_agent_def reply_json_def reply_of_def json_response_def read_json_def Let_def)
  have "into_head C (head_response H hv) = Inr hv"
    using ids l wf sw hv
    by (cases "service_heads C s v b")
       (auto simp: into_head_def head_response_def hex_law_def head_issue_def Let_def parse_optional_def
         receipt_ok_def signature_width_def service_ok_def head_new_def head_verify_signature_def verify_signature_def
         signature_law_def head_message_def)
  with post hv l(3) w show ?thesis
    by (auto simp: https_object_head_def then_do_def check_trusted_key_def trusted_def head_issue_def Let_def
        ws_public_key_def)
qed

section \<open>A sample service\<close>

text \<open>A service that has recorded one receipt, and a codec that carries the next request and its answers.\<close>

definition sample_hex :: hex_crate where
  "sample_hex = \<lparr>hx_encode = hex_encode,
     hx_decode = (\<lambda>s. case parse_pairs [] s of Inl _ \<Rightarrow> None | Inr bs \<Rightarrow> Some bs)\<rparr>"

definition next_request :: witness_request where
  "next_request = sample_request\<lparr>rq_version_id := replicate 16 7\<rparr>"

definition next_receipt :: witness_receipt where
  "next_receipt = receipt_issue toy_crypto next_request 2 (replicate 32 5)"

definition next_head :: witness_head where
  "next_head = head_issue toy_crypto (replicate 16 1) (replicate 16 2) (Some next_receipt)
     (replicate 32 6) (replicate 32 5)"

definition head_query :: head_wire_request where
  "head_query = \<lparr>hq_vault_id = to_hex (replicate 16 1), hq_object_id = to_hex (replicate 16 2),
     hq_challenge = hex_encode (replicate 32 6)\<rparr>"

definition sample_json :: json_codec where
  "sample_json = \<lparr>
     parse_issue_request = (\<lambda>bs. if bs = [1] then Some (from_request next_request 1) else None),
     parse_head_request = (\<lambda>bs. if bs = [1] then Some head_query else None),
     write_issue_response = (\<lambda>r. if r = issue_response sample_hex next_receipt then Some [1] else None),
     write_head_response = (\<lambda>h. if h = head_response sample_hex next_head then Some [1] else None)\<rparr>"

definition sample_json_client :: json_client where
  "sample_json_client = \<lparr>
     write_issue_request = (\<lambda>w. if w = from_request next_request 1 then [1] else []),
     write_head_request = (\<lambda>w. if w = head_query then [1] else []),
     read_issue_response = (\<lambda>bs. if bs = [1] then Some (issue_response sample_hex next_receipt) else None),
     read_head_response = (\<lambda>bs. if bs = [1] then Some (head_response sample_hex next_head) else None)\<rparr>"

definition sample_service :: witness_service where
  "sample_service = \<lparr>rng_state = sample_rng, faults = (\<lambda>_. False), files = sample_files,
     tables = \<lparr>vault_epochs = [(replicate 16 1, 2)], object_heads = [receipt_row sample_receipt]\<rparr>,
     state_path = ''/v'', ws_signing_key = replicate 32 5\<rparr>"

abbreviation (input) sample_witness :: "witness_service http_agent" where
  "sample_witness \<equiv> service_agent toy_crypto sample_hex sample_json sample_json_client ''t''"

abbreviation (input) sample_issue :: "witness_request \<Rightarrow> u64 \<Rightarrow> witness_service \<Rightarrow> witness_service \<times> witness_receipt result" where
  "sample_issue \<equiv> https_issue_receipt toy_crypto sample_witness sample_provider"

lemma sample_public_key: "ws_public_key toy_crypto sample_service = replicate 32 5"
  by (simp add: ws_public_key_def toy_crypto_def sample_service_def)

lemma toy_signature_width: "signature_width toy_crypto"
  by (simp add: signature_width_def toy_crypto_def)

lemma sample_receipt_public_key: "rc_public_key sample_receipt = replicate 32 5"
  by (simp add: sample_receipt_def receipt_issue_def toy_crypto_def)

lemma sample_receipt_signed: "signed_by toy_crypto (replicate 32 5) (receipt_message sample_receipt) (rc_signature sample_receipt)"
  using receipt_issue_signed [OF toy_signature_law, of "replicate 32 5" sample_request 1]
  by (simp add: sample_receipt_def toy_crypto_def)

lemma sample_service_heads:
  "service_heads toy_crypto sample_service (replicate 16 1) (replicate 16 2) = Some sample_receipt"
proof -
  have "object_heads (tables sample_service) = [receipt_row sample_receipt]"
    by (simp add: sample_service_def)
  moreover have "same_head (replicate 16 1) (replicate 16 2) (receipt_row sample_receipt)"
    by (simp add: same_head_def receipt_row_def sample_receipt_def sample_request_def)
  ultimately show ?thesis
    using row_receipt_row [OF sample_receipt_public_key]
    by (simp add: service_heads_def sample_public_key heads_view_def)
qed

lemma sample_service_ok: "service_ok toy_crypto sample_service"
proof -
  have "row_ok toy_crypto (replicate 32 5) (map_of [(replicate 16 1, 2)]) (receipt_row sample_receipt)"
    using sample_receipt_signed row_receipt_row [OF sample_receipt_public_key]
    by (simp add: row_ok_def receipt_row_def sample_receipt_def receipt_issue_def sample_request_def toy_crypto_def)
  then show ?thesis
    by (simp add: service_ok_def toy_signature_law sample_public_key tables_ok_def)
       (simp add: sample_service_def)
qed

lemma sample_laws: "hex_law sample_hex" "json_law sample_json sample_json_client"
  by (auto simp: hex_law_def sample_hex_def parse_pairs_hex_encode json_law_def sample_json_def sample_json_client_def
      split: if_splits)

lemma sample_inv: "service_inv toy_crypto sample_hex sample_json sample_json_client sample_provider sample_service"
  by (simp add: service_inv_def sample_laws sample_service_ok sample_public_key trusted_def sample_provider_def)

lemma sample_healthy: "healthy sample_service"
  by (simp add: healthy_def sample_service_def enforce_owner_private_sqlite_state_def enforce_owner_private_file_def
      enforce_owner_private_optional_file_def symlink_metadata_def set_permissions_def sample_files_def then_do_def)

lemma next_request_simps:
  "request_ok next_request" "rq_vault_id next_request = replicate 16 1" "rq_object_id next_request = replicate 16 2"
  by (simp_all add: request_ok_def next_request_def sample_request_def id_ok_def)

lemma sample_epoch:
  "epoch_of (service_heads toy_crypto sample_service (replicate 16 1) (replicate 16 2)) = 1"
  "current_epoch (tables sample_service) (replicate 16 1) = 2"
proof -
  show "epoch_of (service_heads toy_crypto sample_service (replicate 16 1) (replicate 16 2)) = 1"
    by (simp add: sample_service_heads epoch_of_def) (simp add: sample_receipt_def)
  show "current_epoch (tables sample_service) (replicate 16 1) = 2"
    by (simp add: current_epoch_def sample_service_def)
qed

lemma next_receipt_eq:
  "next_receipt = receipt_issue toy_crypto next_request (word_of_int (current_epoch (tables sample_service) (rq_vault_id next_request)))
     (ws_signing_key sample_service)"
  by (simp add: next_receipt_def next_request_simps sample_epoch) (simp add: sample_service_def)

lemma sample_codec:
  "parse_issue_request sample_json (write_issue_request sample_json_client (from_request next_request 1))
     = Some (from_request next_request 1)"
  "length (write_issue_request sample_json_client (from_request next_request 1)) \<le> MAX_WIRE_BODY"
  "write_issue_response sample_json (issue_response sample_hex next_receipt) = Some [1]"
  "length [1 :: u8] \<le> MAX_HTTP_BODY"
  "read_issue_response sample_json_client [1] = Some (issue_response sample_hex next_receipt)"
  by (simp_all add: sample_json_def sample_json_client_def MAX_WIRE_BODY_def MAX_HTTP_BODY_def)

lemma sample_issued:
  obtains s1 where "sample_issue next_request 1 sample_service = (s1, Inr next_receipt)" "faults s1 = (\<lambda>_. False)"
  using https_issue_answers [OF sample_inv toy_signature_width sample_healthy _ next_request_simps(1) _ _ next_receipt_eq sample_codec, of "''t''"]
  by (auto simp: next_request_simps sample_epoch sample_provider_def)

lemma sample_head_answer:
  assumes "sample_issue next_request 1 sample_service = (s1, Inr next_receipt)" "faults s1 = (\<lambda>_. False)"
  shows "\<exists>s'. https_object_head toy_crypto sample_witness sample_provider (replicate 16 1) (replicate 16 2)
    (replicate 32 6) s1 = (s', Inr next_head)"
proof -
  note r = ws.issue_receipt [OF sample_inv assms(1)]
  have inv: "service_inv toy_crypto sample_hex sample_json sample_json_client sample_provider s1"
    and key: "ws_public_key toy_crypto s1 = replicate 32 5"
    using ws.issue_inv [OF sample_inv assms(1)] sample_public_key by simp_all
  then have sk: "ws_signing_key s1 = replicate 32 5" by (simp add: ws_public_key_def toy_crypto_def)
  have heads: "service_heads toy_crypto s1 (replicate 16 1) (replicate 16 2) = Some next_receipt"
    using r by (simp add: next_request_simps)
  have wf: "receipt_ok next_receipt"
    by (simp add: receipt_ok_def next_receipt_def receipt_issue_def next_request_def sample_request_def id_ok_def
        toy_crypto_def)
  have "next_head = head_issue toy_crypto (replicate 16 1) (replicate 16 2)
      (service_heads toy_crypto s1 (replicate 16 1) (replicate 16 2)) (replicate 32 6) (ws_signing_key s1)"
    by (simp add: next_head_def heads sk)
  from https_head_answers [OF inv toy_signature_width assms(2) _ _ _ _ _ head_query_def this, of "''t''" "[1]"]
  show ?thesis
    using heads wf
    by (simp add: sample_provider_def id_ok_def sample_json_def sample_json_client_def MAX_WIRE_BODY_def MAX_HTTP_BODY_def)
qed

section \<open>The promises of the durable witness\<close>

text \<open>C34. The witness answers: when no call fails, the credentials match, the caller knows the current epoch
  of the object and the vault has an epoch left, the client obtains the receipt with the next epoch.\<close>

theorem https_issue_live:
  assumes "service_inv C H J K pr s" and "signature_width C" and "healthy s"
    and "authorization pr = ''Bearer '' @ token" and "request_ok rq"
    and "epoch_of (service_heads C s (rq_vault_id rq) (rq_object_id rq)) = e"
    and "current_epoch (tables s) (rq_vault_id rq) + 1 < 2 ^ 63"
    and "r = receipt_issue C rq (word_of_int (current_epoch (tables s) (rq_vault_id rq))) (ws_signing_key s)"
    and "parse_issue_request J (write_issue_request K (from_request rq e)) = Some (from_request rq e)"
    and "length (write_issue_request K (from_request rq e)) \<le> MAX_WIRE_BODY"
    and "write_issue_response J (issue_response H r) = Some bs" and "length bs \<le> MAX_HTTP_BODY"
    and "read_issue_response K bs = Some (issue_response H r)"
  shows "\<exists>s'. https_issue_receipt C (service_agent C H J K token) pr rq e s = (s', Inr r)"
  using https_issue_answers [OF assms] by blast

theorem https_issue_live_witness:
  "\<exists>s'. sample_issue next_request 1 sample_service = (s', Inr next_receipt)"
  using https_issue_live [OF sample_inv toy_signature_width sample_healthy _ next_request_simps(1) _ _ next_receipt_eq sample_codec, of "''t''"]
  by (auto simp: next_request_simps sample_epoch sample_provider_def)

text \<open>Epochs never move backwards: whatever issue requests clients send through the HTTPS protocol, in
  whatever order and with whatever failures of the service's storage, the recorded epoch of an object
  only grows.\<close>

theorem witness_epochs_monotonic:
  assumes "service_inv C H J K pr s"
  shows "epoch_of (service_heads C s v b) \<le> epoch_of (service_heads C
    (fold (\<lambda>(rq, e) s. fst (https_issue_receipt C (service_agent C H J K token) pr rq e s)) calls s) v b)"
  by (rule ws.run_epoch [OF assms])

theorem witness_epochs_monotonic_witness:
  "epoch_of (service_heads toy_crypto sample_service (replicate 16 1) (replicate 16 2)) = 1
   \<and> 1 \<le> epoch_of (service_heads toy_crypto (fst (sample_issue next_request 1 sample_service)) (replicate 16 1) (replicate 16 2))"
  using witness_epochs_monotonic [OF sample_inv, of "replicate 16 1" "replicate 16 2" "''t''" "[(next_request, 1)]"]
  by (simp add: sample_epoch)

text \<open>C14. Rollback evidence: once calls have moved an object past a receipt, no later signed head of that
  object, after any further calls, carries the old receipt's epoch.\<close>

theorem witness_superseded_forever:
  assumes "service_inv C H J K pr s" and "service_heads C s v b = Some old"
    and "epoch_of (service_heads C s v b) < epoch_of (service_heads C
      (fold (\<lambda>(rq, e) s. fst (https_issue_receipt C (service_agent C H J K token) pr rq e s)) calls s) v b)"
    and "https_object_head C (service_agent C H J K token) pr v b ch
      (fold (\<lambda>(rq, e) s. fst (https_issue_receipt C (service_agent C H J K token) pr rq e s)) later
        (fold (\<lambda>(rq, e) s. fst (https_issue_receipt C (service_agent C H J K token) pr rq e s)) calls s)) = (s', Inr h)"
  shows "hd_witness_epoch h \<noteq> rc_witness_epoch old"
  by (rule ws.superseded_forever [OF assms])

theorem witness_superseded_forever_witness:
  "\<exists>s'. https_object_head toy_crypto sample_witness sample_provider (replicate 16 1) (replicate 16 2) (replicate 32 6)
     (fst (sample_issue next_request 1 sample_service)) = (s', Inr next_head)
   \<and> hd_witness_epoch next_head \<noteq> rc_witness_epoch sample_receipt"
proof -
  obtain s1 where s1: "sample_issue next_request 1 sample_service = (s1, Inr next_receipt)" "faults s1 = (\<lambda>_. False)"
    by (rule sample_issued)
  have heads: "service_heads toy_crypto s1 (replicate 16 1) (replicate 16 2) = Some next_receipt"
    using ws.issue_receipt [OF sample_inv s1(1)] by (simp add: next_request_simps)
  obtain s' where s': "https_object_head toy_crypto sample_witness sample_provider (replicate 16 1) (replicate 16 2)
      (replicate 32 6) s1 = (s', Inr next_head)"
    using sample_head_answer [OF s1] by blast
  have "epoch_of (service_heads toy_crypto s1 (replicate 16 1) (replicate 16 2)) = 2"
    unfolding heads by (simp add: epoch_of_def next_receipt_def)
  then have "hd_witness_epoch next_head \<noteq> rc_witness_epoch sample_receipt"
    using witness_superseded_forever [OF sample_inv sample_service_heads, of "''t''" "[(next_request, 1)]" "replicate 32 6" "[]"]
      s1(1) s' by (simp add: sample_epoch)
  with s1(1) s' show ?thesis by auto
qed

text \<open>An issue request whose answer was lost can be repeated: the repetition leaves the recorded heads as
  they are and returns either an error or the very receipt of the first attempt.\<close>

theorem witness_retry_idempotent:
  assumes "service_inv C H J K pr s"
    and "https_issue_receipt C (service_agent C H J K token) pr rq e s = (s1, Inr r)"
    and "https_issue_receipt C (service_agent C H J K token) pr rq e s1 = (s2, res)"
  shows "service_heads C s2 = service_heads C s1 \<and> (res = Inr r \<or> (\<exists>x. res = Inl x))"
  using ws.retry_idempotent [OF assms] by (cases res) auto

theorem witness_retry_idempotent_witness:
  "\<exists>s1 s2 res. sample_issue next_request 1 sample_service = (s1, Inr next_receipt)
     \<and> sample_issue next_request 1 s1 = (s2, res)
     \<and> service_heads toy_crypto s2 = service_heads toy_crypto s1"
proof -
  obtain s1 where s1: "sample_issue next_request 1 sample_service = (s1, Inr next_receipt)"
    by (rule sample_issued)
  obtain s2 res where s2: "sample_issue next_request 1 s1 = (s2, res)" by force
  from witness_retry_idempotent [OF sample_inv s1 s2] s1 s2 show ?thesis by blast
qed

text \<open>A stale request conflicts and changes nothing: when the caller's epoch is not the recorded one and the
  recorded receipt is not for the requested version, the service issues no receipt and its tables stay as
  they were.\<close>

theorem stale_issue_conflicts:
  assumes "service_ok C s" and "issue_parsed C q s = (s', res)"
    and "epoch_of (service_heads C s (rq_vault_id (pi_request q)) (rq_object_id (pi_request q))) \<noteq> pi_expected_epoch q"
    and "\<And>r. service_heads C s (rq_vault_id (pi_request q)) (rq_object_id (pi_request q)) = Some r \<Longrightarrow>
      \<not> (binds r (pi_request q) \<and> pi_expected_epoch q < rc_witness_epoch r)"
  shows "service_heads C s' = service_heads C s \<and> (res = Inl WitnessConflict \<or> res = Inl Storage)"
proof -
  let ?v = "rq_vault_id (pi_request q)" and ?b = "rq_object_id (pi_request q)"
  have "load_receipt C ?v ?b (ws_public_key C s) (tables s) = Inr (service_heads C s ?v ?b)"
    using assms(1) load_receipt_view by (simp add: service_ok_def service_heads_def)
  moreover note ids = service_heads_receipt [OF assms(1), of ?v ?b]
  ultimately have "\<exists>s2. decide_issue C q (ws_public_key C s) (fst (tick s)) = (s2, Inl WitnessConflict) \<and> tables s2 = tables s
      \<and> ws_signing_key s2 = ws_signing_key s
    \<or> decide_issue C q (ws_public_key C s) (fst (tick s)) = (s2, Inl Storage) \<and> tables s2 = tables s
      \<and> ws_signing_key s2 = ws_signing_key s"
    using assms(3,4)
    by (cases "service_heads C s ?v ?b")
       (auto simp: decide_issue_def then_do_def sql_query_def tick_def epoch_of_def binds_def)
  with assms(2) service_ok_cong [of s' s C] show ?thesis
    by (auto simp: issue_parsed_def tick_def split: if_splits)
qed

theorem stale_issue_conflicts_witness:
  "\<exists>s' res. issue_parsed toy_crypto \<lparr>pi_request = next_request, pi_expected_epoch = 0\<rparr> sample_service = (s', res)
     \<and> service_heads toy_crypto s' = service_heads toy_crypto sample_service \<and> (res = Inl WitnessConflict \<or> res = Inl Storage)"
proof -
  let ?q = "\<lparr>pi_request = next_request, pi_expected_epoch = 0\<rparr>"
  obtain s' res where i: "issue_parsed toy_crypto ?q sample_service = (s', res)" by force
  have "\<not> binds sample_receipt next_request"
    by (simp add: binds_def sample_receipt_def receipt_issue_def next_request_def sample_request_def)
  with stale_issue_conflicts [OF sample_service_ok i] i show ?thesis
    using sample_epoch(1) by (auto simp: next_request_simps sample_service_heads)
qed

end
