(* ===== verification/Vlt_Vault_Witness.thy ===== *)
theory Vlt_Vault_Witness
  imports Vlt_Vault_Correct Vlt_Witness_Service
begin

text \<open>
  The vault under a freshness witness: publication in two phases with an acknowledgement in between, the
  recovery of a publication that was interrupted, and the sweep that compares every active object with the
  witness. The lemmas are proved once in the contract of a witness provider, for whatever the provider is;
  the properties state them for the HTTPS client in front of the durable service and for the in-process
  provider. They show that a rolled-back database does not pass the sweep, and
  that neither does a database whose service was given another key.
\<close>

section \<open>The receipt of the active version\<close>

definition lookup_receipt :: "crypto \<Rightarrow> object_id \<Rightarrow> database \<Rightarrow> witness_receipt option result" where
  "lookup_receipt C oid t =
     (case lookup_active oid t of
        Inl e \<Rightarrow> if e = NotFound then Inr None else Inl e
      | Inr s \<Rightarrow> select_receipt C (sv_version_id s) t)"

lemma active_version_cases:
  "active_version oid c = (c', r) \<Longrightarrow> tables c' = tables c \<and> (r = lookup_active oid (tables c) \<or> r = Inl Storage)"
  by (auto simp: active_version_def lookup_active_def version_of_def then_do_def sql_query_def tick_def and_then_def
      split: sum.splits if_splits)

lemma active_receipt_frame:
  assumes "active_receipt C oid c = (c', r)"
  shows "same_outside c c' \<and> tables c' = tables c"
proof (cases "active_version oid c")
  case (Pair c1 a)
  then have "same_outside c c1" "tables c1 = tables c"
    using evolvesD [OF outside_active_version] active_version_cases by blast+
  then show ?thesis using assms Pair
    by (auto simp: active_receipt_def receipt_of_def sql_query_def tick_def same_outside_trans split: sum.splits vault_error.splits if_splits)
qed

lemma active_receipt_Inr: "active_receipt C oid c = (c', Inr r) \<Longrightarrow> lookup_receipt C oid (tables c) = Inr r"
  by (auto simp: active_receipt_def lookup_receipt_def receipt_of_def sql_query_Inr split: prod.splits sum.splits vault_error.splits
      dest!: active_version_cases)

lemma lookup_receipt_cong:
  assumes "select_active oid t' = select_active oid t"
    and "\<And>ver. select_active oid t = Inr ver \<Longrightarrow> select_version ver t' = select_version ver t
      \<and> select_receipt C ver t' = select_receipt C ver t"
  shows "lookup_receipt C oid t' = lookup_receipt C oid t"
proof (cases "select_active oid t")
  case (Inl e)
  with assms(1) show ?thesis by (simp add: lookup_receipt_def lookup_active_def and_then_def)
next
  case (Inr ver)
  from assms(2) [OF this] assms(1) Inr show ?thesis
    by (auto simp: lookup_receipt_def lookup_active_def and_then_def from_slice_def split: sum.split dest: select_version_id)
qed

text \<open>\<open>witnessed C heads vid t oid\<close>: the receipt stored for the object's active version is the one the
  witness has recorded for the object.\<close>

definition witnessed ::
    "crypto \<Rightarrow> (vault_id \<Rightarrow> object_id \<Rightarrow> witness_receipt option) \<Rightarrow> vault_id \<Rightarrow> database \<Rightarrow> object_id \<Rightarrow> bool" where
  "witnessed C heads vid t oid \<longleftrightarrow> (\<exists>r. lookup_receipt C oid t = Inr (Some r) \<and> heads vid oid = Some r)"

section \<open>Staging and finalizing\<close>

lemma frozen_staged: "publishable s cs t \<Longrightarrow> frozen t (staged s cs e t)"
  by (simp add: staged_def frozen_stored publishable_def)

lemma active_exists: "db_ok t \<Longrightarrow> select_active oid t = Inr ver \<Longrightarrow> version_exists ver t"
  using active_version_exists [of t oid ver] by (auto simp: db_ok_def version_exists_def)

lemma staged_keeps:
  assumes "db_ok t" "publishable s cs t"
  shows "select_active oid (staged s cs e t) = select_active oid t"
    and "select_active oid t = Inr ver \<Longrightarrow> select_version ver (staged s cs e t) = select_version ver t
      \<and> version_chunks ver (staged s cs e t) = version_chunks ver t
      \<and> select_receipt C ver (staged s cs e t) = select_receipt C ver t"
proof -
  show "select_active oid (staged s cs e t) = select_active oid t" by (simp add: staged_def select_active_def)
  assume "select_active oid t = Inr ver"
  with assms have ex: "version_exists ver t" by (simp add: active_exists)
  show "select_version ver (staged s cs e t) = select_version ver t
      \<and> version_chunks ver (staged s cs e t) = version_chunks ver t
      \<and> select_receipt C ver (staged s cs e t) = select_receipt C ver t"
    using frozen_select_version [OF frozen_staged ex] frozen_version_chunks [OF frozen_staged ex] assms(2)
    by (simp add: select_receipt_def staged_def)
qed

lemma contents_staged:
  assumes "db_ok t" "publishable s cs t"
  shows "contents C rk vid (staged s cs e t) = contents C rk vid t"
  by (rule ext, rule contents_cong) (use staged_keeps [OF assms] in auto)

lemma lookup_receipt_staged:
  assumes "db_ok t" "publishable s cs t"
  shows "lookup_receipt C oid (staged s cs e t) = lookup_receipt C oid t"
  by (rule lookup_receipt_cong) (use staged_keeps [OF assms] in auto)

text \<open>Finalizing a version leaves the objects it does not belong to alone.\<close>

abbreviation (input) has_version :: "stored_version \<Rightarrow> database \<Rightarrow> bool" where
  "has_version s t \<equiv> \<exists>row \<in> set (versions t). vr_version_id row = sv_version_id s \<and> vr_object_id row = sv_object_id s"

lemma finalized_other:
  assumes "db_ok t" "has_version s t" "oid \<noteq> sv_object_id s" "rc_version_id r = sv_version_id s"
  shows "select_active oid (finalized s r t) = select_active oid t"
    and "select_active oid t = Inr ver \<Longrightarrow> select_version ver (finalized s r t) = select_version ver t
      \<and> version_chunks ver (finalized s r t) = version_chunks ver t
      \<and> select_receipt C ver (finalized s r t) = select_receipt C ver t"
proof -
  show "select_active oid (finalized s r t) = select_active oid t"
    using assms(3) by (simp add: finalized_def select_active_def find_activate)
  assume act: "select_active oid t = Inr ver"
  with assms(1) have ex: "version_exists ver t" by (simp add: active_exists)
  have "ver \<noteq> sv_version_id s"
  proof
    assume "ver = sv_version_id s"
    then obtain a b where "a \<in> set (versions t)" "vr_version_id a = sv_version_id s" "vr_object_id a = oid"
      "b \<in> set (versions t)" "vr_version_id b = sv_version_id s" "vr_object_id b = sv_object_id s"
      using active_version_exists [OF _ act] assms(1,2) by (auto simp: db_ok_def)
    moreover from assms(1) have "inj_on vr_version_id (set (versions t))" by (simp add: db_ok_def distinct_map)
    ultimately have "a = b" by (simp add: inj_on_def)
    with assms(3) \<open>vr_object_id a = oid\<close> \<open>vr_object_id b = sv_object_id s\<close> show False by simp
  qed
  then have "select_receipt C ver (finalized s r t) = select_receipt C ver t"
    using assms(4) by (simp add: select_receipt_def finalized_def find_snoc stored_receipt_row_def split: option.split)
  then show "select_version ver (finalized s r t) = select_version ver t
      \<and> version_chunks ver (finalized s r t) = version_chunks ver t
      \<and> select_receipt C ver (finalized s r t) = select_receipt C ver t"
    using frozen_select_version [OF frozen_finalized ex] frozen_version_chunks [OF frozen_finalized ex] by simp
qed

lemma contents_finalized_other:
  assumes "db_ok t" "has_version s t" "oid \<noteq> sv_object_id s" "rc_version_id r = sv_version_id s"
  shows "contents C rk vid (finalized s r t) oid = contents C rk vid t oid"
  by (rule contents_cong) (use finalized_other [OF assms] in auto)

lemma lookup_receipt_finalized_other:
  assumes "db_ok t" "has_version s t" "oid \<noteq> sv_object_id s" "rc_version_id r = sv_version_id s"
  shows "lookup_receipt C oid (finalized s r t) = lookup_receipt C oid t"
  by (rule lookup_receipt_cong) (use finalized_other [OF assms] in auto)

lemma lookup_active_finalized:
  assumes "select_version (sv_version_id s) t = Inr s" "version_exists (sv_version_id s) t"
  shows "lookup_active (sv_object_id s) (finalized s r t) = Inr s"
proof -
  have "select_active (sv_object_id s) (finalized s r t) = Inr (sv_version_id s)"
    by (simp add: finalized_def select_active_def find_activate)
  with frozen_select_version [OF frozen_finalized assms(2), of s r] assms(1) select_version_id [OF assms(1)] show ?thesis
    by (simp add: lookup_active_def)
qed

lemma lookup_receipt_finalized:
  assumes "select_version (sv_version_id s) t = Inr s" "version_exists (sv_version_id s) t"
    and "receipt_fits r" "rc_version_id r = sv_version_id s" "signed_by C (rc_public_key r) (receipt_message r) (rc_signature r)"
    and "\<forall>row \<in> set (freshness_rows t). fr_version_id row \<noteq> sv_version_id s"
  shows "lookup_receipt C (sv_object_id s) (finalized s r t) = Inr (Some r)"
  using lookup_active_finalized [OF assms(1,2)] select_receipt_finalized [OF assms(3-6)] by (simp add: lookup_receipt_def)

lemma select_version_staged: "publishable s cs t \<Longrightarrow> select_version (sv_version_id s) (staged s cs e t) = Inr s"
  using select_version_stored [of s cs t] by (simp add: staged_def select_version_def)

lemma has_version_staged: "has_version s (staged s cs e t)"
  using stored_row_in [of s cs t] by (simp add: staged_def)

lemma contents_witnessed:
  assumes "aead_correct C" "hash_width C" "encrypts C rk vid s cs pt" "publishable s cs t" "db_ok t"
    and "receipt_fits r" "verify_request C r (request_new C vid (sv_object_id s) (sv_version_id s) (sv_manifest s)) = Inr ()"
  shows "contents C rk vid (finalized s r (staged s cs e t)) = (contents C rk vid t)(sv_object_id s \<mapsto> pt)"
proof
  let ?t = "staged s cs e t" and ?f = "finalized s r (staged s cs e t)"
  from assms(7) have r: "rc_version_id r = sv_version_id s" "signed_by C (rc_public_key r) (receipt_message r) (rc_signature r)"
    by (auto simp: verify_request_def request_new_def receipt_verify_signature_iff split: if_splits)
  have ex: "version_exists (sv_version_id s) ?t" by (auto simp: staged_def version_exists_def stored_def stored_row_def)
  have fresh: "\<forall>row \<in> set (freshness_rows ?t). fr_version_id row \<noteq> sv_version_id s"
    using assms(4,5) by (auto simp: staged_def db_ok_def foreign_keys_ok_def list_all_iff publishable_def)
  have num: "numbered cs" using assms(3) by (simp add: encrypts_def)
  fix oid show "contents C rk vid ?f oid = ((contents C rk vid t)(sv_object_id s \<mapsto> pt)) oid"
  proof (cases "oid = sv_object_id s")
    case True
    have "version_chunks (sv_version_id s) ?f = version_chunks (sv_version_id s) (published s cs None t)"
      by (simp add: version_chunks_def finalized_def staged_def published_None)
    then have "row_chunks (version_chunks (sv_version_id s) ?f) = Some cs"
      using read_published(2) [OF assms(4,5) num] by (simp add: row_chunks_Some)
    moreover have "version_fits s" using assms(4) by (simp add: publishable_def)
    ultimately show ?thesis
      using encrypts_contents [OF assms(1-3) _ lookup_active_finalized [OF select_version_staged [OF assms(4)] ex] _
          select_receipt_finalized [OF assms(6) r fresh]] assms(7) True
      by (simp add: check_receipt_def)
  next
    case False
    with contents_finalized_other [OF db_ok_staged [OF assms(5,4)] has_version_staged False r(1)] contents_staged [OF assms(5,4)]
    show ?thesis by simp
  qed
qed

section \<open>Acknowledgement\<close>

lemma on_vault_eq [simp]: "on_vault f (v, p) = ((v', p'), r) \<longleftrightarrow> f v = (v', r) \<and> p' = p"
  by (auto simp: on_vault_def split: prod.split)

lemma on_provider_eq [simp]: "on_provider f (v, p) = ((v', p'), r) \<longleftrightarrow> f p = (p', r) \<and> v' = v"
  by (auto simp: on_provider_def split: prod.split)

lemma lock_pair_Inr [simp]: "lock_pair res = ((v, p), Inr x) \<longleftrightarrow> res = ((v, p), Inr x)"
  by (auto simp: lock_pair_def lock_after_failure_def split: prod.split sum.splits)

lemma lock_pair_Inl:
  "lock_pair res = ((v', p'), Inl e) \<Longrightarrow> \<exists>v. res = ((v, p'), Inl e) \<and> tables v' = tables v \<and> vt_envelope v' = vt_envelope v"
  by (auto simp: lock_pair_def lock_after_failure_def lock_def split: prod.splits if_splits)

text \<open>What one acknowledgement does: an error before the local commit changes no table, and a commit binds
  the receipt the provider returned.\<close>

lemma acknowledge_cases:
  assumes "acknowledge C issue vid s e (v, p) = ((v', p'), res)"
  obtains (refused) r x where "issue (request_new C vid (sv_object_id s) (sv_version_id s) (sv_manifest s)) e p = (p', r)"
      "res = Inl x" "tables v' = tables v" "same_identity v v'"
  | (committed) r where "issue (request_new C vid (sv_object_id s) (sv_version_id s) (sv_manifest s)) e p = (p', Inr r)"
      "verify_request C r (request_new C vid (sv_object_id s) (sv_version_id s) (sv_manifest s)) = Inr ()"
      "rc_version_id r = sv_version_id s" "receipt_fits r" "version_exists (sv_version_id s) (tables v)"
      "\<exists>row \<in> set (pending_rows (tables v)). pr_version_id row = sv_version_id s"
      "\<forall>row \<in> set (freshness_rows (tables v)). fr_version_id row \<noteq> sv_version_id s"
      "tables v' = finalized s r (tables v)" "same_identity v v'" "late_error res"
proof -
  let ?rq = "request_new C vid (sv_object_id s) (sv_version_id s) (sv_manifest s)"
  obtain p1 r1 where i: "issue ?rq e p = (p1, r1)" by force
  show thesis
  proof (cases r1)
    case (Inl x)
    with assms i have "v' = v" "p' = p1" "res = Inl x"
      by (auto simp: acknowledge_def Let_def then_do_def on_provider_def)
    with i refused show thesis by simp
  next
    case (Inr r)
    show thesis
    proof (cases "verify_request C r ?rq")
      case (Inl x)
      with assms i Inr have "v' = v" "p' = p1" "res = Inl x"
        by (auto simp: acknowledge_def Let_def then_do_def on_provider_def lift_result_def)
      with i refused show thesis by simp
    next
      case ver: (Inr u)
      obtain v1 w where f: "finalize_witness_publication s r v = (v1, w)" by force
      with assms i Inr ver have eq: "v' = v1" "p' = p1" "res = w"
        by (auto simp: acknowledge_def Let_def then_do_def on_provider_def lift_result_def on_vault_def)
      have id: "same_identity v v1" using f evolvesD [OF outside_finalize] same_identity_outside by blast
      from f show thesis
        by (cases rule: finalize_cases) (use i Inr ver eq id in \<open>auto intro: refused committed\<close>)
    qed
  qed
qed

abbreviation (input) publication_request :: "crypto \<Rightarrow> vault_id \<Rightarrow> stored_version \<Rightarrow> witness_request" where
  "publication_request C vid s \<equiv> request_new C vid (sv_object_id s) (sv_version_id s) (sv_manifest s)"

lemma stage_acknowledge_cases:
  assumes "then_do (on_vault (stage_witness_publication s cs e)) (\<lambda>_.
     then_do (\<lambda>(v, p). acknowledge C issue (vault_id_of v) s e (v, p)) (\<lambda>_. lift_result (Inr (sv_version_id s)))) (v, p)
     = ((v', p'), r)"
  obtains (failed) x where "r = Inl x" "tables v' = tables v" "p' = p" "same_identity v v'"
  | (pending) x where "publishable s cs (tables v)" "tables v' = staged s cs e (tables v)" "r = Inl x" "same_identity v v'"
      "p' = p \<or> (\<exists>res. issue (publication_request C (vault_id_of v) s) e p = (p', res))"
  | (committed) rc u where "publishable s cs (tables v)" "tables v' = finalized s rc (staged s cs e (tables v))" "same_identity v v'"
      "issue (publication_request C (vault_id_of v) s) e p = (p', Inr rc)"
      "verify_request C rc (publication_request C (vault_id_of v) s) = Inr ()" "receipt_fits rc"
      "late_error u" "r = (case u of Inl e \<Rightarrow> Inl e | Inr _ \<Rightarrow> Inr (sv_version_id s))"
proof -
  obtain v1 w where st: "stage_witness_publication s cs e v = (v1, w)" by force
  have id: "same_identity v v1" using st evolvesD [OF outside_stage] same_identity_outside by blast
  show thesis
  proof (cases w)
    case (Inl x)
    with assms st have r: "v' = v1" "p' = p" "r = Inl x" by (auto simp: then_do_def on_vault_def)
    from st show thesis
      by (cases rule: stage_cases) (use r id Inl in \<open>auto simp: staged_def intro: failed pending\<close>)
  next
    case stg: (Inr u)
    obtain a res where ack: "acknowledge C issue (vault_id_of v1) s e (v1, p) = (a, res)" by (meson surj_pair)
    from st stg have t: "publishable s cs (tables v)" "tables v1 = staged s cs e (tables v)"
      by (auto elim!: stage_cases simp: staged_def)
    from ack assms st stg have r: "a = (v', p')" "r = (case res of Inl e \<Rightarrow> Inl e | Inr _ \<Rightarrow> Inr (sv_version_id s))"
      by (auto simp: then_do_def on_vault_def lift_result_def split: sum.splits)
    from ack r(1) same_identity_id [OF id] have "acknowledge C issue (vault_id_of v) s e (v1, p) = ((v', p'), res)" by simp
    then show thesis
    proof (cases rule: acknowledge_cases)
      case refused
      with r t same_identity_trans [OF id] show thesis by (intro pending) auto
    next
      case (committed rc)
      with r t same_identity_trans [OF id] show thesis by (intro that(3) [of rc res]) auto
    qed
  qed
qed

lemma put_with_witness_cases:
  assumes "aead_correct C" "put_with_witness_inner C issue oid pt (v, p) = ((v', p'), r)"
  obtains (failed) x where "r = Inl x" "tables v' = tables v" "p' = p" "same_identity v v'"
  | (pending) rk s cs e x where "vt_root_key v = Some rk" "encrypts C rk (vault_id_of v) s cs pt" "sv_object_id s = oid"
      "publishable s cs (tables v)" "tables v' = staged s cs e (tables v)" "r = Inl x" "same_identity v v'"
      "p' = p \<or> (\<exists>res. issue (publication_request C (vault_id_of v) s) e p = (p', res))"
  | (committed) rk s cs e rc u where "vt_root_key v = Some rk" "encrypts C rk (vault_id_of v) s cs pt" "sv_object_id s = oid"
      "publishable s cs (tables v)" "tables v' = finalized s rc (staged s cs e (tables v))" "same_identity v v'"
      "issue (publication_request C (vault_id_of v) s) e p = (p', Inr rc)"
      "verify_request C rc (publication_request C (vault_id_of v) s) = Inr ()" "receipt_fits rc"
      "late_error u" "r = (case u of Inl e \<Rightarrow> Inl e | Inr _ \<Rightarrow> Inr (sv_version_id s))"
proof (cases "prepare_version C oid pt DEFAULT_CHUNK_SIZE v")
  case (Pair v1 res)
  then have id1: "same_identity v v1" "tables v1 = tables v" using prepare_version_state by blast+
  show thesis
  proof (cases res)
    case (Inl x)
    with assms(2) Pair failed id1 show thesis
      by (auto simp: put_with_witness_inner_def then_do_def on_vault_def)
  next
    case (Inr sc)
    obtain s cs where sc: "sc = (s, cs)" by force
    from prepare_version_Inr [OF assms(1)] Pair Inr sc obtain rk where rk: "vt_root_key v = Some rk"
      "encrypts C rk (vault_id_of v) s cs pt" "sv_object_id s = oid" by metis
    obtain v2 rr where ar: "active_receipt C oid v1 = (v2, rr)" by force
    note fr = active_receipt_frame [OF ar]
    have id2: "same_identity v v2" "tables v2 = tables v"
      using fr id1 same_identity_outside [of v1 v2] same_identity_trans by auto
    show thesis
    proof (cases rr)
      case (Inl x)
      with assms(2) Pair Inr sc ar failed id2 show thesis
        by (auto simp: put_with_witness_inner_def then_do_def on_vault_def)
    next
      case rec: (Inr receipt)
      let ?e = "case receipt of None \<Rightarrow> 0 | Some r \<Rightarrow> rc_witness_epoch r"
      from assms(2) Pair Inr sc ar rec have "then_do (on_vault (stage_witness_publication s cs ?e)) (\<lambda>_.
          then_do (\<lambda>(v, p). acknowledge C issue (vault_id_of v) s ?e (v, p)) (\<lambda>_. lift_result (Inr (sv_version_id s)))) (v2, p)
          = ((v', p'), r)"
        by (simp add: put_with_witness_inner_def then_do_def [of "on_vault (prepare_version C oid pt DEFAULT_CHUNK_SIZE)"]
            then_do_def [of "on_vault (active_receipt C oid)"] on_vault_def [of "prepare_version C oid pt DEFAULT_CHUNK_SIZE"]
            on_vault_def [of "active_receipt C oid"] Let_def)
      then show thesis
        by (cases rule: stage_acknowledge_cases)
          (use rk id2 same_identity_id [OF id2(1)] same_identity_trans [OF id2(1)] in
            \<open>auto intro: failed pending that(3) [where e = ?e]\<close>)
    qed
  qed
qed

section \<open>Publication under a provider's contract\<close>

lemma verify_request_signed:
  assumes "verify_request C r (publication_request C vid s) = Inr ()"
  shows "rc_version_id r = sv_version_id s \<and> signed_by C (rc_public_key r) (receipt_message r) (rc_signature r)"
  using assms by (auto simp: verify_request_def request_new_def receipt_verify_signature_iff split: if_splits)

lemma fresh_receipt:
  assumes "db_ok t" "publishable s cs t"
  shows "\<forall>row \<in> set (freshness_rows (staged s cs e t)). fr_version_id row \<noteq> sv_version_id s"
  using assms by (auto simp: staged_def db_ok_def foreign_keys_ok_def list_all_iff publishable_def)

lemma version_exists_staged [simp]: "version_exists (sv_version_id s) (staged s cs e t)"
  by (auto simp: staged_def version_exists_def stored_def stored_row_def)

lemma finalized_staged:
  assumes "db_ok t" "publishable s cs t" "receipt_fits r" "verify_request C r (publication_request C vid s) = Inr ()"
  shows "db_ok (finalized s r (staged s cs e t))"
    and "lookup_receipt C (sv_object_id s) (finalized s r (staged s cs e t)) = Inr (Some r)"
    and "oid \<noteq> sv_object_id s \<Longrightarrow> lookup_receipt C oid (finalized s r (staged s cs e t)) = lookup_receipt C oid t"
proof -
  note r = verify_request_signed [OF assms(4)] and ok = db_ok_staged [OF assms(1,2)] and fresh = fresh_receipt [OF assms(1,2)]
  show "db_ok (finalized s r (staged s cs e t))"
    using db_ok_finalized [OF ok has_version_staged conjunct1 [OF r] fresh] .
  show "lookup_receipt C (sv_object_id s) (finalized s r (staged s cs e t)) = Inr (Some r)"
    using lookup_receipt_finalized [OF select_version_staged [OF assms(2)] _ assms(3) _ _ fresh] r by simp
  assume ne: "oid \<noteq> sv_object_id s"
  show "lookup_receipt C oid (finalized s r (staged s cs e t)) = lookup_receipt C oid t"
    using lookup_receipt_finalized_other [OF ok has_version_staged ne conjunct1 [OF r]] lookup_receipt_staged [OF assms(1,2)] by simp
qed

context witness_provider
begin

lemma issue_other:
  assumes "inv p" "issue rq e p = (p', res)" "b \<noteq> rq_object_id rq"
  shows "recorded p' v b = recorded p v b"
  using issue_effect [OF assms(1,2)] assms(3) by (auto simp: supersedes_def binds_def record_receipt_def)

text \<open>A publication that returns is the map update, and the object's receipt is the recorded head; the other
  objects that matched the witness still do.\<close>

lemma put_witnessed:
  assumes "inv p" "aead_correct C" "hash_width C" "db_ok (tables v)"
    and "put_with_witness C issue oid pt (v, p) = ((v', p'), Inr ver)"
  shows "\<exists>rk. vt_root_key v = Some rk \<and> vault_id_of v' = vault_id_of v \<and> db_ok (tables v') \<and> inv p'
    \<and> contents C rk (vault_id_of v) (tables v') = (contents C rk (vault_id_of v) (tables v))(oid \<mapsto> pt)
    \<and> witnessed C (recorded p') (vault_id_of v) (tables v') oid
    \<and> (\<forall>b. witnessed C (recorded p) (vault_id_of v) (tables v) b \<longrightarrow> witnessed C (recorded p') (vault_id_of v) (tables v') b)"
proof -
  from assms(5) have "put_with_witness_inner C issue oid pt (v, p) = ((v', p'), Inr ver)" by (simp add: put_with_witness_def)
  with assms(2) show ?thesis
  proof (cases rule: put_with_witness_cases)
    case (committed rk s cs e rc u)
    note f = finalized_staged [OF assms(4) committed(4,9,8)]
    have rc: "recorded p' (vault_id_of v) oid = Some rc"
      using issue_receipt [OF assms(1) committed(7)] committed(3) by (simp add: request_new_def)
    have w: "witnessed C (recorded p') (vault_id_of v) (tables v') oid"
      using f(2) rc committed(3,5) by (simp add: witnessed_def)
    have "witnessed C (recorded p') (vault_id_of v) (tables v') b"
      if "witnessed C (recorded p) (vault_id_of v) (tables v) b" for b
    proof (cases "b = oid")
      case False
      with that f(3) [of b] issue_other [OF assms(1) committed(7), of b] committed(3,5) show ?thesis
        by (auto simp: witnessed_def request_new_def)
    qed (simp add: w)
    with w f(1) committed contents_witnessed [OF assms(2,3) committed(2,4) assms(4) committed(9,8)]
      issue_inv [OF assms(1) committed(7)] same_identity_id [OF committed(6)] show ?thesis
      by auto
  qed auto
qed

text \<open>A publication that fails keeps every object's contents, unless the local commit was done and only the
  enforcement of file modes failed. A version that was staged stays pending.\<close>

lemma put_witness_failed:
  assumes "inv p" "aead_correct C" "hash_width C" "db_ok (tables v)" "vt_root_key v = Some rk"
    and "put_with_witness C issue oid pt (v, p) = ((v', p'), Inl x)"
  shows "inv p' \<and> db_ok (tables v') \<and>
    (contents C rk (vault_id_of v) (tables v') = contents C rk (vault_id_of v) (tables v)
       \<and> (tables v' = tables v \<and> p' = p
         \<or> (\<exists>s cs e. encrypts C rk (vault_id_of v) s cs pt \<and> sv_object_id s = oid \<and> publishable s cs (tables v)
              \<and> tables v' = staged s cs e (tables v)))
     \<or> contents C rk (vault_id_of v) (tables v') = (contents C rk (vault_id_of v) (tables v))(oid \<mapsto> pt)
       \<and> witnessed C (recorded p') (vault_id_of v) (tables v') oid
       \<and> (x = Storage \<or> x = InvalidInput ''VLT/1 state file type''))"
proof -
  from assms(6) obtain u where put: "put_with_witness_inner C issue oid pt (v, p) = ((u, p'), Inl x)" and t: "tables v' = tables u"
    by (auto simp: put_with_witness_def dest: lock_pair_Inl)
  from assms(2) put show ?thesis
  proof (cases rule: put_with_witness_cases)
    case (pending rk' s cs e y)
    then have "inv p'" using assms(1) issue_inv by blast
    moreover have "encrypts C rk (vault_id_of v) s cs pt \<and> sv_object_id s = oid \<and> publishable s cs (tables v)
        \<and> tables v' = staged s cs e (tables v)" using pending t assms(5) by simp
    ultimately show ?thesis
      using contents_staged [OF assms(4) pending(4)] db_ok_staged [OF assms(4) pending(4)] by metis
  next
    case (committed rk' s cs e rc u')
    note f = finalized_staged [OF assms(4) committed(4,9,8)]
    have "recorded p' (vault_id_of v) oid = Some rc"
      using issue_receipt [OF assms(1) committed(7)] committed(3) by (simp add: request_new_def)
    with f t committed contents_witnessed [OF assms(2,3) committed(2,4) assms(4) committed(9,8)] assms(5)
      issue_inv [OF assms(1) committed(7)] show ?thesis
      by (auto simp: witnessed_def)
  qed (use assms t in auto)
qed

end

section \<open>Recovery\<close>

lemma collect_pending_Inr:
  "collect_pending rows acc c = (c', Inr pending) \<Longrightarrow>
     tables c' = tables c \<and> (\<exists>new. pending = acc @ new \<and> map (sv_version_id \<circ> fst) new = map pr_version_id rows
       \<and> (\<forall>(s, e) \<in> set new. select_version (sv_version_id s) (tables c) = Inr s))"
proof (induction rows arbitrary: acc c)
  case (Cons row rows)
  have id: "id_ok (pr_version_id row)" "from_slice (pr_version_id row) = Inr (pr_version_id row)"
    using Cons.prems by (cases "from_slice (pr_version_id row)"; auto simp: then_do_eq_Inr from_slice_eq_Inr)+
  with Cons.prems obtain e s where s: "select_version (pr_version_id row) (tables c) = Inr s"
    and rest: "collect_pending rows (acc @ [(s, e)]) (fst (tick (fst (tick c)))) = (c', Inr pending)"
    by (auto simp: then_do_eq_Inr sql_query_Inr version_of_def)
  from select_version_id [OF s] Cons.IH [OF rest] s show ?case by auto
qed (auto simp: then_do_eq_Inr sql_query_Inr)

lemma pending_publications_Inr:
  assumes "pending_witness_publications c = (c', Inr pending)"
  shows "tables c' = tables c \<and> set (map (sv_version_id \<circ> fst) pending) = pr_version_id ` set (pending_rows (tables c))
    \<and> length pending = length (pending_rows (tables c))
    \<and> (\<forall>(s, e) \<in> set pending. select_version (sv_version_id s) (tables c) = Inr s)"
proof -
  let ?rows = "sort_key pr_version_id (pending_rows (tables c))"
  from assms have col: "collect_pending ?rows [] (fst (tick (fst (tick c)))) = (c', Inr pending)"
    by (auto simp: pending_witness_publications_def then_do_eq_Inr sql_select_def sql_query_Inr)
  note p = collect_pending_Inr [OF col]
  then have m: "map (sv_version_id \<circ> fst) pending = map pr_version_id ?rows" by auto
  then have "length pending = length (pending_rows (tables c))" by (metis length_map length_sort)
  moreover have "set (map (sv_version_id \<circ> fst) pending) = pr_version_id ` set (pending_rows (tables c))"
    unfolding m by simp
  ultimately show ?thesis using p by auto
qed

lemma outside_collect_pending: "evolves same_outside (collect_pending rows acc)"
proof (induction rows arbitrary: acc)
  case (Cons row rows)
  show ?case
    by (subst ext [of "collect_pending (row # rows) acc", OF collect_pending.simps(2)])
      (cases "from_slice (pr_version_id row)"; auto simp: version_of_def intro!: outside_then_do Cons.IH)
next
  case Nil
  show ?case by (subst ext [of "collect_pending [] acc", OF collect_pending.simps(1)]) (auto intro!: outside_then_do)
qed

lemma outside_pending: "evolves same_outside pending_witness_publications"
  unfolding pending_witness_publications_def by (intro outside_then_do outside_select outside_collect_pending)

context witness_provider
begin

lemma acknowledge_witnesses:
  assumes "inv p" "db_ok (tables v)" "select_version (sv_version_id s) (tables v) = Inr s"
    and "acknowledge C issue vid s e (v, p) = ((v', p'), Inr ())"
  shows "inv p' \<and> db_ok (tables v') \<and> frozen (tables v) (tables v') \<and> same_identity v v'
    \<and> pending_rows (tables v') = filter (\<lambda>row. pr_version_id row \<noteq> sv_version_id s) (pending_rows (tables v))
    \<and> (\<forall>b. b = sv_object_id s \<or> witnessed C (recorded p) vid (tables v) b \<longrightarrow> witnessed C (recorded p') vid (tables v') b)"
  using assms(4)
proof (cases rule: acknowledge_cases)
  case (committed r)
  note sig = verify_request_signed [OF committed(2)]
  have has: "has_version s (tables v)" using select_version_object [OF assms(3)] select_version_id [OF assms(3)] by auto
  have rc: "recorded p' vid (sv_object_id s) = Some r"
    using issue_receipt [OF assms(1) committed(1)] by (simp add: request_new_def)
  have "witnessed C (recorded p') vid (tables v') b" if "b = sv_object_id s \<or> witnessed C (recorded p) vid (tables v) b" for b
  proof (cases "b = sv_object_id s")
    case True
    with lookup_receipt_finalized [OF assms(3) committed(5,4,3) conjunct2 [OF sig] committed(7)] rc committed(8) show ?thesis
      by (simp add: witnessed_def)
  next
    case False
    with that lookup_receipt_finalized_other [OF assms(2) has False committed(3)] committed(8)
      issue_other [OF assms(1) committed(1), of b] show ?thesis
      by (simp add: witnessed_def request_new_def)
  qed
  moreover have "db_ok (tables v')" using db_ok_finalized [OF assms(2) has committed(3,7)] committed(8) by simp
  ultimately show ?thesis
    using issue_inv [OF assms(1) committed(1)] committed(8,9) frozen_finalized by (auto simp: finalized_def)
qed simp

lemma recover_all_witnesses:
  assumes "inv p" "db_ok (tables v)" "\<forall>(s, e) \<in> set pending. select_version (sv_version_id s) (tables v) = Inr s"
    and "recover_all C issue pending (v, p) = ((v', p'), Inr ())"
  shows "inv p' \<and> db_ok (tables v') \<and> frozen (tables v) (tables v') \<and> same_identity v v'
    \<and> pending_rows (tables v') = filter (\<lambda>row. pr_version_id row \<notin> set (map (sv_version_id \<circ> fst) pending)) (pending_rows (tables v))
    \<and> (\<forall>b. b \<in> set (map (sv_object_id \<circ> fst) pending) \<or> witnessed C (recorded p) (vault_id_of v) (tables v) b
          \<longrightarrow> witnessed C (recorded p') (vault_id_of v) (tables v') b)"
  using assms
proof (induction pending arbitrary: v p)
  case (Cons entry pending)
  obtain s e where entry: "entry = (s, e)" by force
  from Cons.prems(4) obtain v1 p1 where ack: "acknowledge C issue (vault_id_of v) s e (v, p) = ((v1, p1), Inr ())"
    and rest: "recover_all C issue pending (v1, p1) = ((v', p'), Inr ())"
    by (auto simp: then_do_eq_Inr entry)
  have sel: "select_version (sv_version_id s) (tables v) = Inr s" using Cons.prems(3) by (simp add: entry)
  note a = acknowledge_witnesses [OF Cons.prems(1,2) sel ack]
  have "select_version (sv_version_id s') (tables v1) = Inr s'" if "(s', e') \<in> set pending" for s' e'
  proof -
    from that Cons.prems(3) have s': "select_version (sv_version_id s') (tables v) = Inr s'" by auto
    then have "version_exists (sv_version_id s') (tables v)"
      using select_version_object [OF s'] by (auto simp: version_exists_def)
    with s' a show ?thesis using frozen_select_version by metis
  qed
  then have sel1: "\<forall>(s, e) \<in> set pending. select_version (sv_version_id s) (tables v1) = Inr s" by auto
  have id: "vault_id_of v1 = vault_id_of v" using a same_identity_id by blast
  note b = Cons.IH [OF _ _ sel1 rest, unfolded id]
  have "inv p1" "db_ok (tables v1)" using a by blast+
  note b = b [OF this]
  have "pending_rows (tables v') = filter (\<lambda>row. pr_version_id row \<notin> set (map (sv_version_id \<circ> fst) (entry # pending))) (pending_rows (tables v))"
    using a b by (simp add: entry conj_commute)
  moreover have "frozen (tables v) (tables v')" "same_identity v v'"
    using a b frozen_trans [of "tables v" "tables v1" "tables v'"] same_identity_trans [of v v1 v'] by simp_all
  moreover have "witnessed C (recorded p') (vault_id_of v) (tables v') c"
    if "c \<in> set (map (sv_object_id \<circ> fst) (entry # pending)) \<or> witnessed C (recorded p) (vault_id_of v) (tables v) c" for c
  proof -
    from that a have "c \<in> set (map (sv_object_id \<circ> fst) pending) \<or> witnessed C (recorded p1) (vault_id_of v) (tables v1) c"
      by (auto simp: entry)
    from b [THEN conjunct2, THEN conjunct2, THEN conjunct2, THEN conjunct2, THEN conjunct2, rule_format, OF this]
    show ?thesis .
  qed
  ultimately show ?case using b by simp
qed simp


text \<open>A recovery that returns has left nothing pending: every object with an interrupted publication now
  matches the witness, and the objects that matched it still do.\<close>

lemma recovered:
  assumes "inv p" "db_ok (tables v)"
    and "recover_pending_witness_publications C issue (v, p) = ((v', p'), Inr n)"
  shows "inv p' \<and> db_ok (tables v') \<and> frozen (tables v) (tables v') \<and> vault_id_of v' = vault_id_of v
    \<and> pending_rows (tables v') = [] \<and> unat n = length (pending_rows (tables v))
    \<and> (\<forall>row \<in> set (pending_rows (tables v)). \<exists>s. select_version (pr_version_id row) (tables v) = Inr s
          \<and> witnessed C (recorded p') (vault_id_of v) (tables v') (sv_object_id s))
    \<and> (\<forall>b. witnessed C (recorded p) (vault_id_of v) (tables v) b \<longrightarrow> witnessed C (recorded p') (vault_id_of v) (tables v') b)"
proof -
  from assms(3) obtain v1 pending where pend: "pending_witness_publications v = (v1, Inr pending)"
    and rec: "recover_all C issue pending (v1, p) = ((v', p'), Inr ())"
    and n: "count_u64 ''pending witness publication count exceeds u64'' pending = Inr n"
    by (auto simp: recover_pending_witness_publications_def recover_pending_witness_publications_inner_def then_do_eq_Inr
        split: sum.splits)
  note q = pending_publications_Inr [OF pend]
  have id: "vault_id_of v1 = vault_id_of v"
    using evolvesD [OF outside_pending pend] same_identity_outside same_identity_id by blast
  have "tables v1 = tables v" "\<forall>(s, e) \<in> set pending. select_version (sv_version_id s) (tables v1) = Inr s" using q by auto
  note a = recover_all_witnesses [OF assms(1) _ this(2) rec, unfolded this(1) id, OF assms(2)]
  have "pending_rows (tables v') = []" using a q by (simp add: filter_empty_conv)
  moreover have "\<exists>s. select_version (pr_version_id row) (tables v) = Inr s
      \<and> witnessed C (recorded p') (vault_id_of v) (tables v') (sv_object_id s)" if "row \<in> set (pending_rows (tables v))" for row
  proof -
    from that q have "pr_version_id row \<in> set (map (sv_version_id \<circ> fst) pending)" by simp
    then obtain s e where s: "(s, e) \<in> set pending" "sv_version_id s = pr_version_id row" by auto
    have "sv_object_id s \<in> set (map (sv_object_id \<circ> fst) pending)" using s(1) by force
    then have "witnessed C (recorded p') (vault_id_of v) (tables v') (sv_object_id s)" using a by simp
    moreover have "select_version (pr_version_id row) (tables v) = Inr s" using q s by auto
    ultimately show ?thesis by blast
  qed
  moreover have "unat n = length (pending_rows (tables v))"
    using n q by (auto simp: count_u64_def ok_or_eq_Inr dest: unat_try_from_nat)
  moreover have "vault_id_of v' = vault_id_of v" using a id same_identity_id [of v1 v'] by simp
  ultimately show ?thesis using a by simp
qed

end

section \<open>The sweep over active objects\<close>

lemma collect_ids_Inr:
  "collect_ids rows acc c = (c', Inr ids) \<Longrightarrow> tables c' = tables c \<and> ids = acc @ map ob_object_id rows"
proof (induction rows arbitrary: acc c)
  case (Cons row rows)
  then have "collect_ids rows (acc @ [ob_object_id row]) (fst (tick c)) = (c', Inr ids)"
    by (auto simp: then_do_eq_Inr sql_query_Inr from_slice_eq_Inr)
  from Cons.IH [OF this] show ?case by simp
qed (auto simp: then_do_eq_Inr sql_query_Inr)

lemma active_object_ids_Inr:
  "active_object_ids c = (c', Inr ids) \<Longrightarrow>
     tables c' = tables c \<and> set ids = ob_object_id ` set (objects (tables c)) \<and> length ids = length (objects (tables c))"
  by (auto simp: active_object_ids_def then_do_eq_Inr sql_select_def sql_query_Inr dest!: collect_ids_Inr)

lemma outside_collect_ids: "evolves same_outside (collect_ids rows acc)"
proof (induction rows arbitrary: acc)
  case (Cons row rows)
  show ?case
    by (subst ext [of "collect_ids (row # rows) acc", OF collect_ids.simps(2)]) (auto intro!: outside_then_do Cons.IH)
next
  case Nil
  show ?case by (subst ext [of "collect_ids [] acc", OF collect_ids.simps(1)]) (auto intro!: outside_then_do)
qed

lemma outside_active_ids: "evolves same_outside active_object_ids"
  unfolding active_object_ids_def by (intro outside_then_do outside_select outside_collect_ids)

lemma ok_or_Inr_eq: "Inr x = ok_or e m \<longleftrightarrow> m = Some x"
  by (auto simp: ok_or_def split: option.splits)

text \<open>What the sweep without a witness establishes.\<close>

lemma get_to_sink_Inr:
  assumes "get_to_writer_inner C write_sink oid v () = (v', w, Inr u)"
  shows "\<exists>rk. vt_root_key v = Some rk \<and> contents C rk (vault_id_of v) (tables v) oid \<noteq> None"
  using get_to_writer_Inr [OF snd_write_sink assms] unfolding not_None_eq contents_Some by blast

lemma verify_objects_Inr:
  assumes "verify_objects C oids v = (v', Inr ())"
  shows "tables v' = tables v \<and> same_identity v v' \<and>
    (\<forall>oid \<in> set oids. \<exists>rk. vt_root_key v = Some rk \<and> contents C rk (vault_id_of v) (tables v) oid \<noteq> None)"
  using assms
proof (induction oids arbitrary: v)
  case (Cons oid oids)
  from Cons.prems obtain v1 w where g: "get_to_writer_inner C write_sink oid v () = (v1, w, Inr ())"
    and rest: "verify_objects C oids v1 = (v', Inr ())"
    by (auto split: prod.splits sum.splits)
  note f = get_to_writer_frame [OF g]
  then have id: "same_identity v v1" "tables v1 = tables v" using same_identity_outside by blast+
  from get_to_sink_Inr [OF g]
  have "\<exists>rk. vt_root_key v = Some rk \<and> contents C rk (vault_id_of v) (tables v) oid \<noteq> None" .
  with Cons.IH [OF rest] id same_identity_id [OF id(1)] same_identity_trans [OF id(1)] show ?case
    by (auto simp: same_identity_def)
qed simp

text \<open>\<open>in_sync C heads k vid t oid\<close>: the stored receipt of the object's active version and the recorded one
  agree in version, epoch and commitment, and the stored one names the signer \<open>k\<close>.\<close>

definition in_sync ::
    "crypto \<Rightarrow> (vault_id \<Rightarrow> object_id \<Rightarrow> witness_receipt option) \<Rightarrow> bytes \<Rightarrow> vault_id \<Rightarrow> database \<Rightarrow> object_id \<Rightarrow> bool" where
  "in_sync C heads k vid t oid \<longleftrightarrow>
     (\<exists>r h. lookup_receipt C oid t = Inr (Some r) \<and> heads vid oid = Some h
        \<and> rc_version_id h = rc_version_id r \<and> rc_witness_epoch h = rc_witness_epoch r
        \<and> rc_commitment h = rc_commitment r \<and> rc_public_key r = k)"

text \<open>What the sweep has seen of an object it passed.\<close>

lemma verify_object_Inr:
  assumes "verify_object_with_witness C head oid (v, p) = ((v', p'), Inr ())"
  obtains r ch h where "lookup_receipt C oid (tables v) = Inr (Some r)" "head (vault_id_of v) oid ch p = (p', Inr h)"
    "head_matches h r" "tables v' = tables v" "same_identity v v'"
    "\<exists>rk. vt_root_key v = Some rk \<and> contents C rk (vault_id_of v) (tables v) oid \<noteq> None"
proof -
  from assms obtain v1 r g ch h w where r: "active_receipt C oid v = (v1, Inr (Some r))"
    and h: "head (vault_id_of v1) oid ch p = (p', Inr h)" "head_matches h r"
    and g: "get_to_writer_inner C write_sink oid (v1\<lparr>rng_state := g\<rparr>) () = (v', w, Inr ())"
    by (auto simp: verify_object_with_witness_def then_do_eq_Inr ok_or_Inr_eq with_rng_def split: prod.splits if_splits)
  note f = active_receipt_frame [OF r] and f' = get_to_writer_frame [OF g]
  have id: "same_identity v v1" "same_identity v v'" "tables v' = tables v"
    using f f' same_identity_outside [of v v1] same_identity_outside [of "v1\<lparr>rng_state := g\<rparr>" v'] same_identity_trans [of v v1 v']
    by (auto simp: same_identity_def)
  from get_to_sink_Inr [OF g] have
    "\<exists>rk. vt_root_key v1 = Some rk \<and> contents C rk (vault_id_of v1) (tables v1) oid \<noteq> None" by simp
  with id f same_identity_id [OF id(1)] active_receipt_Inr [OF r] h show thesis
    by (intro that [of r ch h]) (auto simp: same_identity_def)
qed

lemma verify_objects_heads:
  assumes "verify_objects_with_witness C head oids (v, p) = ((v', p'), Inr ())" "oid \<in> set oids" "P p"
    and keeps: "\<And>vid b ch q q' res. P q \<Longrightarrow> head vid b ch q = (q', res) \<Longrightarrow> P q'"
  shows "\<exists>ch q q' h. P q \<and> head (vault_id_of v) oid ch q = (q', Inr h)"
  using assms(1-3)
proof (induction oids arbitrary: v p)
  case (Cons b oids)
  from Cons.prems(1) obtain v1 p1 where o: "verify_object_with_witness C head b (v, p) = ((v1, p1), Inr ())"
    and rest: "verify_objects_with_witness C head oids (v1, p1) = ((v', p'), Inr ())"
    by (auto simp: then_do_eq_Inr)
  from o obtain ch h where h: "head (vault_id_of v) b ch p = (p1, Inr h)" and id: "same_identity v v1"
    by (rule verify_object_Inr)
  show ?case
  proof (cases "oid = b")
    case True
    with h Cons.prems(3) show ?thesis by blast
  next
    case False
    with Cons.IH [OF rest _ keeps [OF Cons.prems(3) h]] Cons.prems(2) same_identity_id [OF id] show ?thesis by simp
  qed
qed simp

lemma sweep_heads:
  assumes "verify_active_objects_with_witness C head (v, p) = ((v', p'), Inr n)" "ob \<in> set (objects (tables v))" "P p"
    and "\<And>vid b ch q q' res. P q \<Longrightarrow> head vid b ch q = (q', res) \<Longrightarrow> P q'"
  shows "\<exists>ch q q' h. P q \<and> head (vault_id_of v) (ob_object_id ob) ch q = (q', Inr h)"
proof -
  from assms(1) obtain v1 oids where ids: "active_object_ids v = (v1, Inr oids)"
    and ver: "verify_objects_with_witness C head oids (v1, p) = ((v', p'), Inr ())"
    by (auto simp: verify_active_objects_with_witness_def verify_active_objects_with_witness_inner_def then_do_eq_Inr
        split: sum.splits)
  have "same_identity v v1" using evolvesD [OF outside_active_ids ids] by (rule same_identity_outside)
  then have "vault_id_of v1 = vault_id_of v" by (rule same_identity_id)
  moreover have "ob_object_id ob \<in> set oids" using active_object_ids_Inr [OF ids] assms(2) by auto
  ultimately show ?thesis using verify_objects_heads [where P = P, OF ver _ assms(3,4)] by simp
qed

context witness_provider
begin

lemma verify_object_in_sync:
  assumes "inv p" "verify_object_with_witness C head oid (v, p) = ((v', p'), Inr ())"
  shows "inv p' \<and> key p' = key p \<and> recorded p' = recorded p \<and> tables v' = tables v \<and> same_identity v v'
    \<and> in_sync C (recorded p) (key p) (vault_id_of v) (tables v) oid
    \<and> (\<exists>rk. vt_root_key v = Some rk \<and> contents C rk (vault_id_of v) (tables v) oid \<noteq> None)"
proof -
  from assms(2) obtain r ch h where r: "lookup_receipt C oid (tables v) = Inr (Some r)"
    and h: "head (vault_id_of v) oid ch p = (p', Inr h)" "head_matches h r"
    and rest: "tables v' = tables v" "same_identity v v'"
      "\<exists>rk. vt_root_key v = Some rk \<and> contents C rk (vault_id_of v) (tables v) oid \<noteq> None"
    by (rule verify_object_Inr)
  have "in_sync C (recorded p) (key p) (vault_id_of v) (tables v) oid"
    using r head_view [OF assms(1) h(1)] h(2)
    by (cases "recorded p (vault_id_of v) oid") (auto simp: in_sync_def head_matches_def reports_def epoch_of_def)
  with head_keeps [OF assms(1) h(1)] rest show ?thesis by simp
qed

lemma verify_objects_in_sync:
  assumes "inv p" "verify_objects_with_witness C head oids (v, p) = ((v', p'), Inr ())"
  shows "inv p' \<and> key p' = key p \<and> recorded p' = recorded p \<and> tables v' = tables v \<and> same_identity v v'
    \<and> (\<forall>oid \<in> set oids. in_sync C (recorded p) (key p) (vault_id_of v) (tables v) oid
        \<and> (\<exists>rk. vt_root_key v = Some rk \<and> contents C rk (vault_id_of v) (tables v) oid \<noteq> None))"
  using assms
proof (induction oids arbitrary: v p)
  case (Cons oid oids)
  from Cons.prems(2) obtain v1 p1 where o: "verify_object_with_witness C head oid (v, p) = ((v1, p1), Inr ())"
    and rest: "verify_objects_with_witness C head oids (v1, p1) = ((v', p'), Inr ())"
    by (auto simp: then_do_eq_Inr)
  note a = verify_object_in_sync [OF Cons.prems(1) o]
  then have inv: "inv p1" and same: "recorded p1 = recorded p" "key p1 = key p" "tables v1 = tables v"
    and id: "vt_root_key v1 = vt_root_key v" "vault_id_of v1 = vault_id_of v"
    by (simp_all add: same_identity_def vault_id_of_def)
  note b = Cons.IH [OF inv rest, unfolded same id]
  have "same_identity v v'" using a b same_identity_trans [of v v1 v'] by simp
  with a b show ?case by simp
qed simp

lemma sweep_in_sync:
  assumes "inv p" "verify_active_objects_with_witness C head (v, p) = ((v', p'), Inr n)"
  shows "inv p' \<and> key p' = key p \<and> recorded p' = recorded p \<and> tables v' = tables v \<and> same_identity v v' \<and> unat n = length (objects (tables v))
    \<and> (\<forall>ob \<in> set (objects (tables v)).
        in_sync C (recorded p) (key p) (vault_id_of v) (tables v) (ob_object_id ob)
        \<and> (\<exists>rk. vt_root_key v = Some rk \<and> contents C rk (vault_id_of v) (tables v) (ob_object_id ob) \<noteq> None))"
proof -
  from assms(2) obtain v1 oids where ids: "active_object_ids v = (v1, Inr oids)"
    and ver: "verify_objects_with_witness C head oids (v1, p) = ((v', p'), Inr ())"
    and n: "count_u64 ''active object count exceeds u64'' oids = Inr n"
    by (auto simp: verify_active_objects_with_witness_def verify_active_objects_with_witness_inner_def then_do_eq_Inr
        split: sum.splits)
  note i = active_object_ids_Inr [OF ids]
  have i1: "same_identity v v1" using evolvesD [OF outside_active_ids ids] by (rule same_identity_outside)
  then have id: "vt_root_key v1 = vt_root_key v" "vault_id_of v1 = vault_id_of v" "tables v1 = tables v"
    using i by (simp_all add: same_identity_def vault_id_of_def)
  note a = verify_objects_in_sync [OF assms(1) ver, unfolded id]
  moreover from this have "same_identity v v'" using same_identity_trans [OF i1] by blast
  moreover have "unat n = length (objects (tables v))"
    using n i by (auto simp: count_u64_def ok_or_eq_Inr dest: unat_try_from_nat)
  ultimately show ?thesis using i by auto
qed

text \<open>A database whose receipt for some active object is older than the recorded one does not pass, nor does
  one whose receipt names another signer.\<close>

lemma stale_refused:
  assumes "inv p" "ob \<in> set (objects (tables v))" "lookup_receipt C (ob_object_id ob) (tables v) = Inr (Some r)"
    and "rc_witness_epoch r \<noteq> epoch_of (recorded p (vault_id_of v) (ob_object_id ob)) \<or> rc_public_key r \<noteq> key p"
    and "verify_active_objects_with_witness C head (v, p) = ((v', p'), res)"
  shows "\<exists>x. res = Inl x"
proof (cases res)
  case (Inr n)
  from sweep_in_sync [OF assms(1)] assms(2-5) Inr show ?thesis by (fastforce simp: in_sync_def epoch_of_def)
qed simp

end

section \<open>A vault and a witness service\<close>

text \<open>A codec for one exchange, and a service that has seen nothing.\<close>

definition exchange_json :: "witness_request \<Rightarrow> u64 \<Rightarrow> witness_receipt \<Rightarrow> json_codec" where
  "exchange_json rq e r = \<lparr>
     parse_issue_request = (\<lambda>bs. if bs = [1] then Some (from_request rq e) else None),
     parse_head_request = (\<lambda>_. None),
     write_issue_response = (\<lambda>w. if w = issue_response sample_hex r then Some [1] else None),
     write_head_response = (\<lambda>_. None)\<rparr>"

definition exchange_client :: "witness_request \<Rightarrow> u64 \<Rightarrow> witness_receipt \<Rightarrow> json_client" where
  "exchange_client rq e r = \<lparr>
     write_issue_request = (\<lambda>w. if w = from_request rq e then [1] else []),
     write_head_request = (\<lambda>_. []),
     read_issue_response = (\<lambda>bs. if bs = [1] then Some (issue_response sample_hex r) else None),
     read_head_response = (\<lambda>_. None)\<rparr>"

definition fresh_service :: witness_service where
  "fresh_service = sample_service\<lparr>tables := \<lparr>vault_epochs = [], object_heads = []\<rparr>\<rparr>"

abbreviation (input) exchange :: "witness_request \<Rightarrow> u64 \<Rightarrow> witness_receipt \<Rightarrow> witness_service issuer" where
  "exchange rq e r \<equiv> https_issue_receipt toy_crypto
     (service_agent toy_crypto sample_hex (exchange_json rq e r) (exchange_client rq e r) ''t'') sample_provider"

lemma fresh_service_heads: "service_heads toy_crypto fresh_service v b = None" "current_epoch (tables fresh_service) v = 1"
  by (simp_all add: service_heads_def heads_view_def fresh_service_def current_epoch_def)

lemma fresh_inv: "service_inv toy_crypto sample_hex (exchange_json rq e r) (exchange_client rq e r) sample_provider fresh_service"
proof -
  have "ws_public_key toy_crypto fresh_service = replicate 32 5" "length (ws_signing_key fresh_service) = 32"
    using sample_public_key sample_service_ok by (simp_all add: fresh_service_def ws_public_key_def service_ok_def)
  moreover have "json_law (exchange_json rq e r) (exchange_client rq e r)"
    by (auto simp: json_law_def exchange_json_def exchange_client_def split: if_splits)
  ultimately show ?thesis
    by (simp add: service_inv_def sample_laws service_ok_def toy_signature_law trusted_def sample_provider_def tables_ok_def)
       (simp add: fresh_service_def)
qed

lemma exchange_codec:
  "parse_issue_request (exchange_json rq e r) (write_issue_request (exchange_client rq e r) (from_request rq e))
     = Some (from_request rq e)"
  "length (write_issue_request (exchange_client rq e r) (from_request rq e)) \<le> MAX_WIRE_BODY"
  "write_issue_response (exchange_json rq e r) (issue_response sample_hex r) = Some [1]"
  "length [1 :: u8] \<le> MAX_HTTP_BODY"
  "read_issue_response (exchange_client rq e r) [1] = Some (issue_response sample_hex r)"
  by (simp_all add: exchange_json_def exchange_client_def MAX_WIRE_BODY_def MAX_HTTP_BODY_def)

lemma exchange_answers:
  assumes "request_ok rq" "r = receipt_issue toy_crypto rq 1 (replicate 32 5)"
  shows "\<exists>s'. exchange rq 0 r rq 0 fresh_service = (s', Inr r) \<and> faults s' = (\<lambda>_. False)"
proof -
  have h: "healthy fresh_service" using sample_healthy by (simp add: fresh_service_def)
  have auth: "authorization sample_provider = ''Bearer '' @ ''t''" by (simp add: sample_provider_def)
  have r: "r = receipt_issue toy_crypto rq (word_of_int (current_epoch (tables fresh_service) (rq_vault_id rq)))
      (ws_signing_key fresh_service)"
    using assms(2) by (simp add: fresh_service_heads) (simp add: fresh_service_def sample_service_def)
  from https_issue_answers [OF fresh_inv toy_signature_width h auth assms(1) _ _ r exchange_codec] show ?thesis
    by (auto simp: fresh_service_heads epoch_of_def)
qed

lemma sample_acknowledge:
  assumes "healthy v" "tables v = staged s cs 0 empty_database" "publishable s cs empty_database" "id_ok vid"
  shows "\<exists>r v' p'. acknowledge toy_crypto (exchange (publication_request toy_crypto vid s) 0 r) vid s 0 (v, fresh_service) = ((v', p'), Inr ())
    \<and> healthy v' \<and> tables v' = finalized s r (tables v) \<and> faults p' = (\<lambda>_. False) \<and> receipt_ok r"
proof -
  let ?rq = "publication_request toy_crypto vid s"
  let ?r = "receipt_issue toy_crypto ?rq 1 (replicate 32 5)"
  have ok: "request_ok ?rq"
    using assms(3,4) by (simp add: request_ok_def request_new_def id_ok_def publishable_def version_fits_def version_commitment_def
        toy_crypto_def)
  then obtain p' where i: "exchange ?rq 0 ?r ?rq 0 fresh_service = (p', Inr ?r)" "faults p' = (\<lambda>_. False)"
    using exchange_answers by blast
  have sig: "signed_by toy_crypto (rc_public_key ?r) (receipt_message ?r) (rc_signature ?r)"
    using receipt_issue_signed [OF toy_signature_law, of "replicate 32 5" ?rq 1] by simp
  have ver: "verify_request toy_crypto ?r ?rq = Inr ()"
    using sig receipt_verify_signature_iff [of toy_crypto ?r] by (simp add: verify_request_def) (simp add: receipt_issue_def)
  have fits: "receipt_fits ?r"
    using ok by (simp add: receipt_fits_def receipt_ok_def request_ok_def) (simp add: receipt_issue_def toy_crypto_def)
  have "\<exists>v'. finalize_witness_publication s ?r v = (v', Inr ()) \<and> healthy v' \<and> tables v' = finalized s ?r (tables v)"
    using assms(2) by (intro healthy_finalize [OF assms(1) fits, where e = 0])
      (simp_all add: receipt_issue_def request_new_def select_staged_def staged_def stored_def empty_database_def
        from_sql_u64_def version_exists_def stored_row_def)
  then obtain v' where fin: "finalize_witness_publication s ?r v = (v', Inr ())" "healthy v'" "tables v' = finalized s ?r (tables v)"
    by blast
  with i ver have "acknowledge toy_crypto (exchange ?rq 0 ?r) vid s 0 (v, fresh_service) = ((v', p'), Inr ())"
    by (simp add: acknowledge_def Let_def then_do_def on_provider_def lift_result_def on_vault_def)
  with fin i(2) fits show ?thesis by (auto simp: receipt_fits_def)
qed

lemma sample_staged:
  "\<exists>v1 s cs. publishable s cs empty_database
     \<and> (\<forall>issue p. put_with_witness_inner toy_crypto issue (replicate 16 2) [1, 2, 3] (sample_vault, p)
          = then_do (acknowledge toy_crypto issue (replicate 16 1) s 0) (\<lambda>_. lift_result (Inr (sv_version_id s))) (v1, p))
     \<and> healthy v1 \<and> tables v1 = staged s cs 0 empty_database \<and> vault_id_of v1 = replicate 16 1
     \<and> vt_root_key v1 = Some (replicate 32 7)"
proof -
  obtain v0 s chunk where p: "prepare_version toy_crypto (replicate 16 2) [1, 2, 3] DEFAULT_CHUNK_SIZE sample_vault
     = (v0, Inr (s, [chunk]))" "publishable s [chunk] empty_database" "healthy v0" using sample_prepare by blast
  have id0: "same_identity sample_vault v0" "tables v0 = empty_database"
    using prepare_version_state [OF p(1)] by (simp_all add: sample_vault_def)
  have "lookup_active (replicate 16 2) empty_database = Inl NotFound"
    by (simp add: lookup_active_def select_active_def empty_database_def ok_or_def and_then_def)
  then have ar: "active_receipt toy_crypto (replicate 16 2) v0 = (v0, Inr None)"
    using id0(2) by (simp add: active_receipt_def healthy_active_version [OF p(3)])
  obtain v1 where v1: "stage_witness_publication s [chunk] 0 v0 = (v1, Inr ())" "healthy v1" "tables v1 = staged s [chunk] 0 empty_database"
    using healthy_stage [OF p(3), of s "[chunk]" 0] p(2) id0(2) db_ok_empty by auto
  have id: "vault_id_of v1 = replicate 16 1" "vt_root_key v1 = Some (replicate 32 7)"
    using same_identity_trans [OF id0(1) same_identity_outside [OF evolvesD [OF outside_stage v1(1)]]]
    by (simp_all add: same_identity_def vault_id_of_def sample_vault_def)
  have "put_with_witness_inner toy_crypto issue (replicate 16 2) [1, 2, 3] (sample_vault, q)
      = then_do (acknowledge toy_crypto issue (replicate 16 1) s 0) (\<lambda>_. lift_result (Inr (sv_version_id s))) (v1, q)"
    for issue :: "'a issuer" and q
    by (simp add: put_with_witness_inner_def then_do_def [of "on_vault f" for f] on_vault_def [of f for f] p(1) ar v1(1) Let_def)
      (simp add: then_do_def id)
  with p(2) v1(2,3) id show ?thesis by blast
qed

lemma unauthorized_issue:
  assumes "authorization pr \<noteq> ''Bearer '' @ token"
  shows "https_issue_receipt C (service_agent C H J K token) pr rq e s = (s, Inl WitnessUnavailable)"
  using assms
  by (simp add: https_issue_receipt_def then_do_def post_issue_def service_agent_def handle_request_def authorized_def post_to_def
      json_response_def reply_of_def reply_json_def)

lemma sample_pending:
  assumes "healthy v" "tables v = staged s cs 0 empty_database" "publishable s cs empty_database"
  shows "pending_witness_publications v = (v, Inr [(s, 0)])"
proof -
  let ?row = "\<lparr>pr_version_id = sv_version_id s, pr_expected_epoch = 0\<rparr>"
  have rows: "pending_rows (tables v) = [?row]" using assms(2) by (simp add: staged_def empty_database_def)
  have "length (sv_version_id s) = 16" using assms(3) by (simp add: publishable_def version_fits_def)
  with rows select_version_staged [OF assms(3), of 0] assms(1,2) show ?thesis
    by (simp add: pending_witness_publications_def sql_select_def then_do_def healthy_query version_of_def from_sql_u64_def)
qed

section \<open>Properties\<close>

text \<open>C11. Publication under the HTTPS witness: when it returns, the object has the plaintext as contents and the
  other objects keep theirs, the stored receipt of the object is the head that the service has recorded,
  and every object that matched the service before still does.\<close>

theorem put_with_witness_recorded:
  assumes "service_inv C H J K pr s" and "aead_correct C" and "hash_width C" and "db_ok (tables v)"
    and "put_with_witness C (https_issue_receipt C (service_agent C H J K token) pr) oid pt (v, s) = ((v', s'), Inr ver)"
  shows "\<exists>rk. vt_root_key v = Some rk \<and> vault_id_of v' = vault_id_of v \<and> db_ok (tables v') \<and> service_inv C H J K pr s'
    \<and> contents C rk (vault_id_of v) (tables v') = (contents C rk (vault_id_of v) (tables v))(oid \<mapsto> pt)
    \<and> witnessed C (service_heads C s') (vault_id_of v) (tables v') oid
    \<and> (\<forall>b. witnessed C (service_heads C s) (vault_id_of v) (tables v) b
          \<longrightarrow> witnessed C (service_heads C s') (vault_id_of v) (tables v') b)"
  by (rule ws.put_witnessed [OF assms])

theorem put_with_witness_recorded_witness:
  "\<exists>rq r v' s' ver. put_with_witness toy_crypto (exchange rq 0 r) (replicate 16 2) [1, 2, 3] (sample_vault, fresh_service)
       = ((v', s'), Inr ver)
     \<and> contents toy_crypto (replicate 32 7) (replicate 16 1) (tables v') (replicate 16 2) = Some [1, 2, 3]
     \<and> witnessed toy_crypto (service_heads toy_crypto s') (replicate 16 1) (tables v') (replicate 16 2)"
proof -
  obtain v1 s cs where st: "publishable s cs empty_database" "healthy v1" "tables v1 = staged s cs 0 empty_database"
    and put: "\<And>(issue :: witness_service issuer) p. put_with_witness_inner toy_crypto issue (replicate 16 2) [1, 2, 3] (sample_vault, p)
          = then_do (acknowledge toy_crypto issue (replicate 16 1) s 0) (\<lambda>_. lift_result (Inr (sv_version_id s))) (v1, p)"
    using sample_staged by blast
  let ?rq = "publication_request toy_crypto (replicate 16 1) s"
  obtain r v' s' where "acknowledge toy_crypto (exchange ?rq 0 r) (replicate 16 1) s 0 (v1, fresh_service) = ((v', s'), Inr ())"
    using sample_acknowledge [OF st(2,3,1), of "replicate 16 1"] by (auto simp: id_ok_def)
  then have p: "put_with_witness toy_crypto (exchange ?rq 0 r) (replicate 16 2) [1, 2, 3] (sample_vault, fresh_service)
      = ((v', s'), Inr (sv_version_id s))"
    by (simp add: put_with_witness_def put then_do_def lift_result_def)
  from put_with_witness_recorded [OF fresh_inv toy_crypto_laws(1,5) sample_vault_simps(1) p]
  have "contents toy_crypto (replicate 32 7) (replicate 16 1) (tables v') (replicate 16 2) = Some [1, 2, 3]
      \<and> witnessed toy_crypto (service_heads toy_crypto s') (replicate 16 1) (tables v') (replicate 16 2)"
    by (auto simp: sample_vault_fields)
  with p show ?thesis by blast
qed

text \<open>C12. An interrupted publication loses nothing: when publication under the HTTPS witness fails, every object
  keeps its contents and either nothing was stored or the new version is staged with a pending row, from
  which recovery continues; or the publication was complete, matches the service, and only the enforcement
  of file modes failed.\<close>

theorem put_with_witness_interrupted:
  assumes "service_inv C H J K pr s" and "aead_correct C" and "hash_width C" and "db_ok (tables v)"
    and "vt_root_key v = Some rk"
    and "put_with_witness C (https_issue_receipt C (service_agent C H J K token) pr) oid pt (v, s) = ((v', s'), Inl x)"
  shows "service_inv C H J K pr s' \<and> db_ok (tables v') \<and>
    (contents C rk (vault_id_of v) (tables v') = contents C rk (vault_id_of v) (tables v)
       \<and> (tables v' = tables v \<and> s' = s
         \<or> (\<exists>w cs e. encrypts C rk (vault_id_of v) w cs pt \<and> sv_object_id w = oid \<and> publishable w cs (tables v)
              \<and> tables v' = staged w cs e (tables v)))
     \<or> contents C rk (vault_id_of v) (tables v') = (contents C rk (vault_id_of v) (tables v))(oid \<mapsto> pt)
       \<and> witnessed C (service_heads C s') (vault_id_of v) (tables v') oid
       \<and> (x = Storage \<or> x = InvalidInput ''VLT/1 state file type''))"
  by (rule ws.put_witness_failed [OF assms])

theorem put_with_witness_interrupted_witness:
  "\<exists>v' s' x. put_with_witness toy_crypto (https_issue_receipt toy_crypto (service_agent toy_crypto sample_hex sample_json
         sample_json_client ''u'') sample_provider) (replicate 16 2) [1, 2, 3] (sample_vault, sample_service) = ((v', s'), Inl WitnessUnavailable)
     \<and> contents toy_crypto (replicate 32 7) (replicate 16 1) (tables v') = contents toy_crypto (replicate 32 7) (replicate 16 1) empty_database"
proof -
  obtain v1 s cs where put: "\<And>(issue :: witness_service issuer) p. put_with_witness_inner toy_crypto issue (replicate 16 2) [1, 2, 3] (sample_vault, p)
          = then_do (acknowledge toy_crypto issue (replicate 16 1) s 0) (\<lambda>_. lift_result (Inr (sv_version_id s))) (v1, p)"
    using sample_staged by blast
  have "authorization sample_provider \<noteq> ''Bearer '' @ ''u''" by (simp add: sample_provider_def)
  then have "\<exists>v'. put_with_witness toy_crypto (https_issue_receipt toy_crypto (service_agent toy_crypto sample_hex sample_json
         sample_json_client ''u'') sample_provider) (replicate 16 2) [1, 2, 3] (sample_vault, sample_service) = ((v', sample_service), Inl WitnessUnavailable)"
    by (simp add: put_with_witness_def put then_do_def acknowledge_def Let_def on_provider_def unauthorized_issue lock_pair_def
        split: prod.split) (simp add: lock_after_failure_def)
  then obtain v' where p: "put_with_witness toy_crypto (https_issue_receipt toy_crypto (service_agent toy_crypto sample_hex sample_json
         sample_json_client ''u'') sample_provider) (replicate 16 2) [1, 2, 3] (sample_vault, sample_service) = ((v', sample_service), Inl WitnessUnavailable)"
    by blast
  from put_with_witness_interrupted [OF sample_inv toy_crypto_laws(1,5) sample_vault_simps p] p show ?thesis
    by (auto simp: sample_vault_fields) (auto simp: sample_vault_def)
qed

text \<open>C13. Recovery completes what was interrupted: when it returns, nothing is pending, no version has changed,
  every object with an interrupted publication has the recorded head of the service as its stored receipt,
  and the objects that matched the service still do.\<close>

theorem recovery_completes:
  assumes "service_inv C H J K pr s" and "db_ok (tables v)"
    and "recover_pending_witness_publications C (https_issue_receipt C (service_agent C H J K token) pr) (v, s) = ((v', s'), Inr n)"
  shows "service_inv C H J K pr s' \<and> db_ok (tables v') \<and> frozen (tables v) (tables v') \<and> vault_id_of v' = vault_id_of v
    \<and> pending_rows (tables v') = [] \<and> unat n = length (pending_rows (tables v))
    \<and> (\<forall>row \<in> set (pending_rows (tables v)). \<exists>w. select_version (pr_version_id row) (tables v) = Inr w
          \<and> witnessed C (service_heads C s') (vault_id_of v) (tables v') (sv_object_id w))
    \<and> (\<forall>b. witnessed C (service_heads C s) (vault_id_of v) (tables v) b
          \<longrightarrow> witnessed C (service_heads C s') (vault_id_of v) (tables v') b)"
  by (rule ws.recovered [OF assms])

theorem recovery_completes_witness:
  "\<exists>v1 w cs rq r v' s'. tables v1 = staged w cs 0 empty_database
     \<and> recover_pending_witness_publications toy_crypto (exchange rq 0 r) (v1, fresh_service) = ((v', s'), Inr 1)
     \<and> pending_rows (tables v') = []"
proof -
  obtain v1 s cs where st: "publishable s cs empty_database" "healthy v1" "tables v1 = staged s cs 0 empty_database"
    "vault_id_of v1 = replicate 16 1" "vt_root_key v1 = Some (replicate 32 7)"
    using sample_staged by blast
  let ?rq = "publication_request toy_crypto (replicate 16 1) s"
  obtain r v' s' where ack: "acknowledge toy_crypto (exchange ?rq 0 r) (replicate 16 1) s 0 (v1, fresh_service) = ((v', s'), Inr ())"
    using sample_acknowledge [OF st(2,3,1), of "replicate 16 1"] by (auto simp: id_ok_def)
  then have p: "recover_pending_witness_publications toy_crypto (exchange ?rq 0 r) (v1, fresh_service) = ((v', s'), Inr 1)"
    using st(4,5) sample_pending [OF st(2,3,1)]
    by (simp add: recover_pending_witness_publications_def recover_pending_witness_publications_inner_def require_root_key_def
        then_do_def on_vault_def lift_result_def count_u64_def try_from_nat_def)
  have "db_ok (tables v1)" using st(1,3) db_ok_staged [OF db_ok_empty] by simp
  from recovery_completes [OF fresh_inv this p] p st(3) show ?thesis by blast
qed

text \<open>A database restored from before the latest publication of an object.\<close>

definition old_version :: stored_version where
  "old_version = \<lparr>sv_object_id = replicate 16 2, sv_version_id = rc_version_id sample_receipt,
     sv_wrapped_dek = \<lparr>nonce = replicate 12 0, ciphertext = []\<rparr>, sv_manifest = \<lparr>nonce = replicate 12 0, ciphertext = []\<rparr>,
     sv_plaintext_len = 0, sv_chunk_size = 1, sv_chunk_count = 0\<rparr>"

definition old_vault :: vault where
  "old_vault = sample_vault\<lparr>tables := finalized old_version sample_receipt (staged old_version [] 0 empty_database)\<rparr>"

lemma sample_receipt_fields:
  "rc_vault_id sample_receipt = replicate 16 1" "rc_object_id sample_receipt = replicate 16 2"
  "length (rc_version_id sample_receipt) = 16" "rc_witness_epoch sample_receipt = 1"
  "length (rc_commitment sample_receipt) = 32" "length (rc_signature sample_receipt) = 64"
  by (simp_all add: sample_receipt_def receipt_issue_def sample_request_def toy_crypto_def)

lemma old_vault_receipt: "lookup_receipt toy_crypto (replicate 16 2) (tables old_vault) = Inr (Some sample_receipt)"
proof -
  have fits: "publishable old_version [] empty_database"
    by (simp add: publishable_def version_fits_def old_version_def sample_receipt_fields empty_database_def version_exists_def)
  have "receipt_fits sample_receipt"
    by (simp add: receipt_fits_def receipt_ok_def id_ok_def sample_receipt_fields sample_receipt_public_key)
  then have "lookup_receipt toy_crypto (sv_object_id old_version) (tables old_vault) = Inr (Some sample_receipt)"
    unfolding old_vault_def
    using lookup_receipt_finalized [OF select_version_staged [OF fits] version_exists_staged, of sample_receipt] fresh_receipt [OF db_ok_empty fits]
      sample_receipt_signed by (simp add: sample_receipt_public_key) (simp add: old_version_def)
  then show ?thesis by (simp add: old_version_def)
qed

lemma old_vault_object:
  "\<lparr>ob_object_id = replicate 16 2, ob_active_version_id = rc_version_id sample_receipt\<rparr> \<in> set (objects (tables old_vault))"
  by (simp add: old_vault_def finalized_def staged_def stored_def empty_database_def activate_def upsert_def) (simp add: old_version_def)

text \<open>C10. A rolled-back database is detected: once the witness service has acknowledged a newer version of an
  object than the one the database holds, then after any further calls to the service the sweep over that
  database does not succeed.\<close>

theorem rollback_detected:
  assumes "service_inv C H J K pr s"
    and "ob \<in> set (objects (tables v))" and "lookup_receipt C (ob_object_id ob) (tables v) = Inr (Some r)"
    and "rc_witness_epoch r < epoch_of (service_heads C s (vault_id_of v) (ob_object_id ob))"
    and "verify_active_objects_with_witness C (https_object_head C (service_agent C H J K token) pr)
      (v, fold (\<lambda>(rq, e) s. fst (https_issue_receipt C (service_agent C H J K token) pr rq e s)) later s) = ((v', s'), res)"
  shows "\<exists>x. res = Inl x"
proof (rule ws.stale_refused [OF _ assms(2,3) _ assms(5)])
  show "service_inv C H J K pr (fold (\<lambda>(rq, e) s. fst (https_issue_receipt C (service_agent C H J K token) pr rq e s)) later s)"
    using ws.run_inv [OF assms(1)] by blast
  show "rc_witness_epoch r \<noteq> epoch_of (service_heads C (fold (\<lambda>(rq, e) s. fst (https_issue_receipt C (service_agent C H J K token) pr rq e s))
      later s) (vault_id_of v) (ob_object_id ob)) \<or> rc_public_key r \<noteq> ws_public_key C (fold (\<lambda>(rq, e) s. fst (https_issue_receipt C
      (service_agent C H J K token) pr rq e s)) later s)"
    using assms(4) ws.run_epoch [OF assms(1), of "vault_id_of v" "ob_object_id ob" token later] by auto
qed

theorem rollback_detected_witness:
  "\<exists>res. snd (verify_active_objects_with_witness toy_crypto (https_object_head toy_crypto sample_witness sample_provider)
     (old_vault, fst (sample_issue next_request 1 sample_service))) = Inl res"
proof -
  obtain s1 where s1: "sample_issue next_request 1 sample_service = (s1, Inr next_receipt)" by (rule sample_issued)
  have heads: "service_heads toy_crypto s1 (replicate 16 1) (replicate 16 2) = Some next_receipt"
    using ws.issue_receipt [OF sample_inv s1] by (simp add: next_request_simps)
  have inv: "service_inv toy_crypto sample_hex sample_json sample_json_client sample_provider s1"
    using ws.issue_inv [OF sample_inv s1] by simp
  obtain a res where v: "verify_active_objects_with_witness toy_crypto (https_object_head toy_crypto sample_witness sample_provider)
     (old_vault, s1) = (a, res)" by (meson surj_pair)
  have "rc_witness_epoch sample_receipt < epoch_of (service_heads toy_crypto s1 (replicate 16 1) (replicate 16 2))"
    unfolding heads sample_receipt_fields by (simp add: epoch_of_def next_receipt_def)
  with rollback_detected [OF inv old_vault_object, of sample_receipt "''t''" "[]" "fst a" "snd a" res] old_vault_receipt v
  have "\<exists>x. res = Inl x" by (simp add: old_vault_def sample_vault_def vault_id_of_def)
  with v s1 show ?thesis by auto
qed

text \<open>C32. A planned signer rotation locks vaults out. Let the service record a head of an active object, and let it be opened
  again over its own state with another seed, whose key did not sign that head. Then the vault does not
  pass the sweep, and no request to issue a receipt for the object succeeds or changes the service's
  state, so that publishing the object again is no way out; and this although the client is configured to
  trust the previous key, under which the head was signed.\<close>

theorem signer_rotation_refused:
  assumes "service_inv C H J K before s"
    and "ob \<in> set (objects (tables v))" and "service_heads C s (vault_id_of v) (ob_object_id ob) = Some r"
    and "ws_open E path seed (tables s) env = (env', Inr n)"
    and "\<not> signed_by C (ws_public_key C n) (receipt_message r) (rc_signature r)"
    and "previous_public_key pr = Some (ws_public_key C s)"
  shows "check_trusted_key pr (rc_public_key r) = Inr ()
    \<and> (\<exists>x. snd (verify_active_objects_with_witness C (https_object_head C (service_agent C H J K token) pr) (v, n)) = Inl x)
    \<and> (\<forall>rq e. rq_vault_id rq = vault_id_of v \<and> rq_object_id rq = ob_object_id ob \<longrightarrow>
        (\<exists>n' x. https_issue_receipt C (service_agent C H J K token) pr rq e n = (n', Inl x) \<and> tables n' = tables n))"
proof (intro conjI allI impI)
  let ?P = "\<lambda>q. ws_signing_key q = seed \<and> tables q = tables s"
  from assms(1) have laws: "hex_law H" "json_law J K" and ok: "service_ok C s" by (simp_all add: service_inv_def)
  have n: "?P n" using ws_open_key [OF assms(4)] by simp
  have "load_receipt C (vault_id_of v) (ob_object_id ob) (ws_public_key C s) (tables s) = Inr (Some r)"
    using ok load_receipt_view assms(3) by (simp add: service_ok_def service_heads_def)
  then obtain y where "load_receipt C (vault_id_of v) (ob_object_id ob) (ws_public_key C n) (tables s) = Inl y"
    using load_receipt_other_key [OF _ assms(5)] by blast
  then have y: "load_receipt C (vault_id_of v) (ob_object_id ob) (ws_public_key C q) (tables q) = Inl y" if "?P q" for q
    using that n by (simp add: ws_public_key_def)
  have rotated: "?P q'" if "?P q" "https_object_head C (service_agent C H J K token) pr vid b ch q = (q', res)" for vid b ch q q' res
    using https_head_state [OF that(2)] that(1) by (auto simp: tick_def)
  show "check_trusted_key pr (rc_public_key r) = Inr ()"
    using service_heads_receipt(3) [OF ok assms(3)] assms(6) by (simp add: check_trusted_key_def)
  show "\<exists>x. snd (verify_active_objects_with_witness C (https_object_head C (service_agent C H J K token) pr) (v, n)) = Inl x"
  proof (rule ccontr)
    assume "\<not> ?thesis"
    then obtain v' n' k where "verify_active_objects_with_witness C (https_object_head C (service_agent C H J K token) pr) (v, n)
        = ((v', n'), Inr k)" by (metis old.sum.exhaust prod.collapse)
    then have "\<exists>ch q q' h. ?P q \<and> https_object_head C (service_agent C H J K token) pr (vault_id_of v) (ob_object_id ob) ch q = (q', Inr h)"
      using assms(2) n by (rule sweep_heads) (rule rotated)
    then obtain ch q q' h where q: "?P q"
      "https_object_head C (service_agent C H J K token) pr (vault_id_of v) (ob_object_id ob) ch q = (q', Inr h)" by blast
    from https_head_loaded [OF laws q(2)] y [OF q(1)] show False by simp
  qed
  fix rq :: witness_request and e assume rq: "rq_vault_id rq = vault_id_of v \<and> rq_object_id rq = ob_object_id ob"
  obtain n' out where i: "https_issue_receipt C (service_agent C H J K token) pr rq e n = (n', out)" by force
  from https_issue_unreadable [OF laws _ i] y [OF n] rq i
  show "\<exists>n' x. https_issue_receipt C (service_agent C H J K token) pr rq e n = (n', Inl x) \<and> tables n' = tables n" by auto
qed

lemma sample_reopen: "\<exists>env' n. ws_open sample_engine ''/v'' key t (env.truncate sample_service) = (env', Inr n)"
proof -
  have f: "open_file sample_engine ''/v'' sample_files = sample_files"
    by (auto simp: sample_engine_def sample_files_def fun_eq_iff)
  have v: "validate_state_path sample_files ''/v'' = Inr ()" by code_simp
  have "snd (enforce_owner_private_sqlite_state ''/v'' sample_files) = Inr ()" by code_simp
  then obtain fs where "enforce_owner_private_sqlite_state ''/v'' sample_files = (fs, Inr ())" by (metis prod.collapse)
  moreover have "is_wal (journal_mode sample_engine)" by (simp add: is_wal_def sample_engine_def)
  ultimately show ?thesis
    using f v by (simp add: ws_open_def sql_open_def then_do_def tick_def with_files_def env.truncate_def sample_service_def)
qed

theorem signer_rotation_refused_witness:
  "\<exists>env' n x. ws_open sample_engine ''/v'' (replicate 32 9) (tables sample_service) (env.truncate sample_service) = (env', Inr n)
     \<and> object_heads (tables n) \<noteq> []
     \<and> snd (verify_active_objects_with_witness toy_crypto (https_object_head toy_crypto sample_witness
         (sample_provider\<lparr>primary_public_key := replicate 32 9, previous_public_key := Some (replicate 32 5)\<rparr>)) (old_vault, n)) = Inl x"
proof -
  let ?pr = "sample_provider\<lparr>primary_public_key := replicate 32 9, previous_public_key := Some (replicate 32 5)\<rparr>"
  let ?open = "ws_open sample_engine ''/v'' (replicate 32 9) (tables sample_service) (env.truncate sample_service)"
  obtain env' n where o: "?open = (env', Inr n)" using sample_reopen by blast
  have n: "ws_public_key toy_crypto n = replicate 32 9" "tables n = tables sample_service"
    using ws_open_key [OF o] by (simp_all add: ws_public_key_def toy_crypto_def)
  have heads: "service_heads toy_crypto sample_service (vault_id_of old_vault) (replicate 16 2) = Some sample_receipt"
    using sample_service_heads by (simp add: old_vault_def sample_vault_def vault_id_of_def)
  have "\<not> signed_by toy_crypto (replicate 32 9) (receipt_message sample_receipt) (rc_signature sample_receipt)"
    by (simp add: signed_by_def toy_crypto_def receipt_message_def sample_receipt_def receipt_issue_def sum_list_replicate)
  with signer_rotation_refused [OF sample_inv old_vault_object _ o, of sample_receipt ?pr "''t''"] heads n sample_public_key
  obtain x where "snd (verify_active_objects_with_witness toy_crypto (https_object_head toy_crypto sample_witness ?pr) (old_vault, n)) = Inl x"
    by auto
  moreover have "object_heads (tables n) \<noteq> []" using n(2) by (simp add: sample_service_def)
  ultimately show ?thesis using o by blast
qed

end
