(* ===== verification/Vlt_Vault_Steps.thy ===== *)
theory Vlt_Vault_Steps
  imports Vlt_Vault_Witness
begin

text \<open>
  Sequences of vault operations. A step is any operation of an open vault, with any result and under any
  schedule of engine failures, together with a witness provider of which nothing is assumed. Along every
  sequence the database stays well-formed, every stored version stays as it was, and the vault keeps its
  identity.
\<close>

section \<open>What every operation keeps\<close>

text \<open>\<open>keeps v v'\<close>: a well-formed database stays well-formed, no stored version changes, and the vault keeps
  its identity.\<close>

definition keeps :: "vault \<Rightarrow> vault \<Rightarrow> bool" where
  "keeps v v' \<longleftrightarrow> (db_ok (tables v) \<longrightarrow> db_ok (tables v')) \<and> frozen (tables v) (tables v') \<and> vault_id_of v' = vault_id_of v"

lemma keeps_refl [simp]: "keeps v v"
  by (simp add: keeps_def)

lemma keeps_trans: "keeps a b \<Longrightarrow> keeps b c \<Longrightarrow> keeps a c"
  using frozen_trans by (auto simp: keeps_def)

lemma keeps_same: "tables v' = tables v \<Longrightarrow> vault_id_of v' = vault_id_of v \<Longrightarrow> keeps v v'"
  by (simp add: keeps_def)

lemma keeps_outside: "same_outside v v' \<Longrightarrow> tables v' = tables v \<Longrightarrow> keeps v v'"
  using same_identity_id [OF same_identity_outside] by (intro keeps_same) blast+

lemma lock_after_failure_keeps:
  assumes "lock_after_failure res = (v', r)" "\<And>u. res = (u, r) \<Longrightarrow> keeps v u"
  shows "keeps v v'"
proof (cases res)
  case (Pair u r')
  with assms(1) have "r' = r" "tables v' = tables u" "vault_id_of v' = vault_id_of u"
    by (auto simp: lock_after_failure_def lock_def vault_id_of_def split: sum.splits if_splits)
  with Pair assms(2) keeps_trans [OF _ keeps_same] show ?thesis by blast
qed

lemma lock_pair_keeps:
  assumes "lock_pair res = ((v', p'), r)" "\<And>u. res = ((u, p'), r) \<Longrightarrow> keeps v u"
  shows "keeps v v'"
proof -
  obtain u q where u: "res = ((u, q), r)" "lock_after_failure (u, r) = (v', r)" "q = p'"
    using assms(1) by (cases res) (auto simp: lock_pair_def lock_after_failure_def split: prod.splits)
  show ?thesis by (rule lock_after_failure_keeps [OF u(2)]) (use assms(2) u in auto)
qed

lemma keeps_published:
  assumes "publishable s cs (tables v)" "tables v' = published s cs None (tables v)" "same_identity v v'"
  shows "keeps v v'"
  using assms db_ok_published frozen_published same_identity_id by (auto simp: keeps_def publishable_def)

lemma keeps_staged:
  assumes "publishable s cs (tables v)" "tables v' = staged s cs e (tables v)" "same_identity v v'"
  shows "keeps v v'"
  using assms db_ok_staged frozen_staged same_identity_id by (auto simp: keeps_def)

lemma put_keeps:
  assumes "aead_correct C" "put_with_chunk_size C oid pt n v = (v', r)"
  shows "keeps v v'"
proof (rule lock_after_failure_keeps [OF assms(2) [unfolded put_with_chunk_size_def]])
  fix u assume "put_inner C oid pt n v = (u, r)"
  with assms(1) show "keeps v u"
    by (cases rule: put_inner_cases) (auto intro: keeps_published keeps_same same_identity_id)
qed

lemma put_from_reader_keeps:
  assumes "aead_correct C" "put_from_reader_with_chunk_size C oid rs n v = (v', r)"
  shows "keeps v v'"
proof (rule lock_after_failure_keeps [OF assms(2) [unfolded put_from_reader_with_chunk_size_def]])
  fix u assume "put_from_reader_inner C oid rs n v = (u, r)"
  with assms(1) show "keeps v u"
    by (cases rule: put_from_reader_cases) (auto intro: keeps_published keeps_same same_identity_id)
qed

lemma get_to_writer_keeps:
  assumes "get_to_writer C write_all oid v w = (v', w', r)"
  shows "keeps v v'"
proof -
  obtain u w1 r1 where g: "get_to_writer_inner C write_all oid v w = (u, w1, r1)" by (meson prod_cases3)
  with assms have "lock_after_failure (u, r1) = (v', r)" by (auto simp: get_to_writer_def split: prod.splits)
  then show ?thesis
    by (rule lock_after_failure_keeps) (use get_to_writer_frame [OF g] in \<open>auto intro: keeps_outside\<close>)
qed

lemma get_keeps:
  assumes "get C oid v = (v', r)"
  shows "keeps v v'"
proof (rule lock_after_failure_keeps [OF assms [unfolded get_def]])
  fix u assume "get_inner C oid v = (u, r)"
  then show "keeps v u"
    by (auto simp: get_inner_def split: prod.splits sum.splits dest!: get_to_writer_frame intro: keeps_outside)
qed

lemma verify_objects_frame: "verify_objects C oids v = (v', r) \<Longrightarrow> same_outside v v' \<and> tables v' = tables v"
proof (induction oids arbitrary: v)
  case (Cons oid oids)
  obtain u w r1 where g: "get_to_writer_inner C write_sink oid v () = (u, w, r1)" by (meson prod_cases3)
  note f = get_to_writer_frame [OF g]
  from Cons.prems g show ?case
  proof (cases r1)
    case (Inr x)
    with Cons.prems g have "verify_objects C oids u = (v', r)" by simp
    from Cons.IH [OF this] f show ?thesis by (auto intro: same_outside_trans)
  qed (use f in auto)
qed simp

lemma collect_ids_tables: "collect_ids rows acc c = (c', r) \<Longrightarrow> tables c' = tables c"
  by (induction rows arbitrary: acc c) (auto simp: then_do_def sql_query_def tick_def split: sum.splits if_splits)

lemma active_ids_tables: "active_object_ids c = (c', r) \<Longrightarrow> tables c' = tables c"
  by (auto simp: active_object_ids_def then_do_def sql_select_def sql_query_def tick_def split: sum.splits if_splits
      dest!: collect_ids_tables)

lemma verify_objects_evolves:
  "evolves same_outside (verify_objects C oids)" "evolves same_tables (verify_objects C oids)"
  by (auto intro!: evolvesI dest: verify_objects_frame simp: same_tables_def)

lemma active_ids_evolves: "evolves same_tables active_object_ids"
  by (auto intro!: evolvesI dest: active_ids_tables simp: same_tables_def)

lemma verify_active_objects_keeps:
  assumes "verify_active_objects C v = (v', r)"
  shows "keeps v v'"
proof (rule lock_after_failure_keeps [OF assms [unfolded verify_active_objects_def]])
  let ?m = "then_do active_object_ids (\<lambda>oids. then_do (verify_objects C oids) (\<lambda>_.
     lift_result (count_u64 ''active object count exceeds u64'' oids)))"
  have e: "evolves same_outside ?m" "evolves same_tables ?m"
    by (intro outside_then_do outside_active_ids verify_objects_evolves outside_lift)
       (intro reads_then_do active_ids_evolves verify_objects_evolves reads_lift)
  fix u assume "verify_active_objects_inner C v = (u, r)"
  then have "u = v \<or> ?m v = (u, r)" by (auto simp: verify_active_objects_inner_def split: sum.splits)
  with evolvesD [OF e(1)] evolvesD [OF e(2)] show "keeps v u" by (auto simp: same_tables_def intro: keeps_outside)
qed

lemma full_checkpoint_keeps:
  assumes "full_checkpoint busy v = (v', r)"
  shows "keeps v v'"
  by (rule lock_after_failure_keeps [OF assms [unfolded full_checkpoint_def]])
    (auto simp: storage_full_checkpoint_def sql_query_def tick_def vault_id_of_def intro!: keeps_same split: sum.splits if_splits)

lemma replace_root_envelope_meta:
  assumes "replace_root_envelope env c = (c', r)"
  shows "\<exists>m. tables c' = (tables c)\<lparr>vault_meta := m\<rparr>"
proof -
  have "\<exists>m. t = (tables c)\<lparr>vault_meta := m\<rparr>" if "update_envelope_row env (tables c) = Some t" for t
    using that by (auto simp: update_envelope_row_def split: option.splits if_splits intro: exI [of _ "vault_meta (tables c)"])
  moreover have "\<exists>m. tables c = (tables c)\<lparr>vault_meta := m\<rparr>" by (rule exI [of _ "vault_meta (tables c)"]) simp
  ultimately show ?thesis
    using assms by (auto simp: replace_root_envelope_def then_do_def sql_execute_def tick_def split: option.splits if_splits
        dest!: enforce_state_files_frame)
qed

lemma frozen_meta [simp]: "frozen t (t'\<lparr>vault_meta := m\<rparr>) = frozen t t'"
  by (simp add: frozen_def version_exists_def version_chunks_def)

lemma rewrap_keeps:
  assumes "then_do (with_rng (seal_root_key C replacement (vault_id_of v) rk interactive)) (\<lambda>env.
     then_do (replace_root_envelope env) (\<lambda>_ v. (v\<lparr>vt_envelope := env, vt_root_key := None\<rparr>, Inr ()))) v = (u, r)"
  shows "keeps v u"
proof -
  obtain g res where s: "seal_root_key C replacement (vault_id_of v) rk interactive (rng_state v) = (g, res)" by force
  show ?thesis
  proof (cases res)
    case (Inl e)
    with assms s show ?thesis by (auto simp: then_do_def with_rng_def intro!: keeps_same)
  next
    case (Inr env)
    obtain v1 w where rep: "replace_root_envelope env (v\<lparr>rng_state := g\<rparr>) = (v1, w)" by force
    obtain m where m: "tables v1 = (tables v)\<lparr>vault_meta := m\<rparr>" using replace_root_envelope_meta [OF rep] by auto
    have id: "vault_id_of v1 = vault_id_of v"
      using same_identity_id [OF same_identity_outside [OF evolvesD [OF outside_replace rep]]] by simp
    have "env_vault_id env = vault_id_of v" using s Inr by (auto elim: seal_root_key_Inr)
    with assms s Inr rep m id show ?thesis
      by (auto simp: then_do_def with_rng_def keeps_def vault_id_of_def split: sum.splits)
  qed
qed

lemma rotate_passphrase_keeps:
  assumes "rotate_passphrase C current replacement v = (v', r)"
  shows "keeps v v'"
proof (cases "replacement = []")
  case False
  with assms have "lock_after_failure (case open_root_key C current (vt_envelope v) of
       Inl e \<Rightarrow> (v, Inl e)
     | Inr root_key \<Rightarrow>
         then_do (with_rng (seal_root_key C replacement (vault_id_of v) root_key interactive)) (\<lambda>env.
         then_do (replace_root_envelope env) (\<lambda>_ v. (v\<lparr>vt_envelope := env, vt_root_key := None\<rparr>, Inr ()))) v) = (v', r)"
    by (simp add: rotate_passphrase_def validate_passphrase_def)
  then show ?thesis
    by (rule lock_after_failure_keeps) (auto split: sum.splits dest: rewrap_keeps)
qed (use assms in \<open>simp add: rotate_passphrase_def validate_passphrase_def\<close>)

lemma acknowledge_keeps:
  assumes "select_version (sv_version_id s) (tables v) = Inr s" "acknowledge C issue vid s e (v, p) = ((v', p'), r)"
  shows "keeps v v'"
  using assms(2)
proof (cases rule: acknowledge_cases)
  case (committed rc)
  have "has_version s (tables v)" using select_version_object [OF assms(1)] select_version_id [OF assms(1)] by auto
  with committed db_ok_finalized [of "tables v" s rc] frozen_finalized same_identity_id show ?thesis by (auto simp: keeps_def)
qed (auto intro: keeps_same same_identity_id)

lemma put_with_witness_keeps:
  assumes "aead_correct C" "put_with_witness C issue oid pt (v, p) = ((v', p'), r)"
  shows "keeps v v'"
proof (rule lock_pair_keeps [OF assms(2) [unfolded put_with_witness_def]])
  fix u assume "put_with_witness_inner C issue oid pt (v, p) = ((u, p'), r)"
  with assms(1) show "keeps v u"
  proof (cases rule: put_with_witness_cases)
    case (committed rk s cs e rc w)
    have "rc_version_id rc = sv_version_id s" using verify_request_signed [OF committed(8)] by blast
    with committed db_ok_finalized [OF db_ok_staged has_version_staged _ fresh_receipt] frozen_trans [OF frozen_staged frozen_finalized]
    show ?thesis by (auto simp: keeps_def same_identity_id)
  qed (auto intro: keeps_same keeps_staged same_identity_id)
qed

lemma recover_all_keeps:
  assumes "\<forall>(s, e) \<in> set pending. select_version (sv_version_id s) (tables v) = Inr s"
    and "recover_all C issue pending (v, p) = ((v', p'), r)"
  shows "keeps v v'"
  using assms
proof (induction pending arbitrary: v p)
  case (Cons entry pending)
  obtain s e where entry: "entry = (s, e)" by force
  have sel: "select_version (sv_version_id s) (tables v) = Inr s" using Cons.prems(1) by (simp add: entry)
  obtain v1 p1 r1 where ack: "acknowledge C issue (vault_id_of v) s e (v, p) = ((v1, p1), r1)" by (metis surj_pair)
  note k = acknowledge_keeps [OF sel ack]
  show ?case
  proof (cases r1)
    case (Inl x)
    with Cons.prems(2) ack k show ?thesis by (auto simp: entry then_do_def)
  next
    case (Inr x)
    with Cons.prems(2) ack have rest: "recover_all C issue pending (v1, p1) = ((v', p'), r)" by (simp add: entry then_do_def)
    have "select_version (sv_version_id s') (tables v1) = Inr s'" if "(s', e') \<in> set pending" for s' e'
    proof -
      from that Cons.prems(1) have s': "select_version (sv_version_id s') (tables v) = Inr s'" by auto
      then have "version_exists (sv_version_id s') (tables v)"
        using select_version_object [OF s'] by (auto simp: version_exists_def)
      with s' k show ?thesis using frozen_select_version by (metis keeps_def)
    qed
    then show ?thesis using Cons.IH [OF _ rest] k keeps_trans by blast
  qed
qed simp

lemma collect_pending_tables: "collect_pending rows acc c = (c', r) \<Longrightarrow> tables c' = tables c"
  by (induction rows arbitrary: acc c)
    (auto simp: then_do_def sql_query_def version_of_def tick_def split: sum.splits if_splits)

lemma pending_tables: "pending_witness_publications c = (c', r) \<Longrightarrow> tables c' = tables c"
  by (auto simp: pending_witness_publications_def then_do_def sql_select_def sql_query_def tick_def split: sum.splits if_splits
      dest!: collect_pending_tables)

lemma recover_keeps:
  assumes "recover_pending_witness_publications C issue (v, p) = ((v', p'), r)"
  shows "keeps v v'"
proof (rule lock_pair_keeps [OF assms [unfolded recover_pending_witness_publications_def]])
  fix u assume u: "recover_pending_witness_publications_inner C issue (v, p) = ((u, p'), r)"
  obtain v1 r1 where pend: "pending_witness_publications v = (v1, r1)" by force
  have k: "keeps v v1" using evolvesD [OF outside_pending pend] pending_tables [OF pend] by (rule keeps_outside)
  show "keeps v u"
  proof (cases "require_root_key v")
    case (Inl x)
    with u show ?thesis by (simp add: recover_pending_witness_publications_inner_def)
  next
    case rk: (Inr x)
    show ?thesis
    proof (cases r1)
      case (Inl e)
      with u rk pend k show ?thesis by (auto simp: recover_pending_witness_publications_inner_def then_do_def on_vault_def)
    next
      case (Inr pending)
      obtain v2 p2 r2 where rec: "recover_all C issue pending (v1, p) = ((v2, p2), r2)" by (metis surj_pair)
      have "\<forall>(s, e) \<in> set pending. select_version (sv_version_id s) (tables v1) = Inr s"
        using pending_publications_Inr [OF pend [unfolded Inr]] by simp
      from recover_all_keeps [OF this rec] k have "keeps v v2" by (blast intro: keeps_trans)
      with u rk pend Inr rec show ?thesis
        by (auto simp: recover_pending_witness_publications_inner_def then_do_def on_vault_def lift_result_def split: sum.splits)
    qed
  qed
qed

lemma verify_object_with_witness_keeps:
  assumes "verify_object_with_witness C head oid (v, p) = ((v', p'), r)"
  shows "keeps v v'"
proof -
  obtain v1 r1 where a: "active_receipt C oid v = (v1, r1)" by force
  have k: "keeps v v1" using active_receipt_frame [OF a] by (auto intro: keeps_outside)
  have rng: "keeps v (v1\<lparr>rng_state := g\<rparr>)" for g by (rule keeps_trans [OF k keeps_same]) simp_all
  have get: "keeps v u" if "get_to_writer_inner C write_sink oid (v1\<lparr>rng_state := g\<rparr>) () = (u, x, y)" for g u x y
    using get_to_writer_frame [OF that] by (auto intro: keeps_trans [OF rng keeps_outside])
  show ?thesis
    using assms a k rng get
    by (auto simp: verify_object_with_witness_def then_do_def on_vault_def on_provider_def
        lift_result_def with_rng_def split: sum.splits prod.splits if_splits)
qed

lemma verify_objects_with_witness_keeps:
  "verify_objects_with_witness C head oids (v, p) = ((v', p'), r) \<Longrightarrow> keeps v v'"
proof (induction oids arbitrary: v p)
  case (Cons oid oids)
  obtain v1 p1 r1 where o: "verify_object_with_witness C head oid (v, p) = ((v1, p1), r1)" by (metis surj_pair)
  note k = verify_object_with_witness_keeps [OF o]
  show ?case
  proof (cases r1)
    case (Inr x)
    with Cons.prems o have "verify_objects_with_witness C head oids (v1, p1) = ((v', p'), r)" by (simp add: then_do_def)
    from keeps_trans [OF k Cons.IH [OF this]] show ?thesis .
  qed (use Cons.prems o k in \<open>auto simp: then_do_def\<close>)
qed simp

lemma verify_with_witness_keeps:
  assumes "verify_active_objects_with_witness C head (v, p) = ((v', p'), r)"
  shows "keeps v v'"
proof (rule lock_pair_keeps [OF assms [unfolded verify_active_objects_with_witness_def]])
  fix u assume u: "verify_active_objects_with_witness_inner C head (v, p) = ((u, p'), r)"
  obtain v1 r1 where ids: "active_object_ids v = (v1, r1)" by force
  have k: "keeps v v1" using evolvesD [OF outside_active_ids ids] active_ids_tables [OF ids] by (rule keeps_outside)
  show "keeps v u"
  proof (cases "require_root_key v")
    case rk: (Inr x)
    show ?thesis
    proof (cases r1)
      case (Inr oids)
      obtain v2 p2 r2 where ver: "verify_objects_with_witness C head oids (v1, p) = ((v2, p2), r2)" by (metis surj_pair)
      from keeps_trans [OF k verify_objects_with_witness_keeps [OF ver]] u rk ids Inr ver show ?thesis
        by (auto simp: verify_active_objects_with_witness_inner_def then_do_def on_vault_def lift_result_def split: sum.splits)
    qed (use u rk ids k in \<open>auto simp: verify_active_objects_with_witness_inner_def then_do_def on_vault_def\<close>)
  qed (use u in \<open>simp add: verify_active_objects_with_witness_inner_def\<close>)
qed

section \<open>Sequences of operations\<close>

inductive vault_step ::
    "crypto \<Rightarrow> 'p issuer \<Rightarrow> 'p head_source \<Rightarrow> vault \<times> 'p \<Rightarrow> vault \<times> 'p \<Rightarrow> bool"
  for C issue head where
  step_unlock: "unlock C passphrase v = (v', r) \<Longrightarrow> vault_step C issue head (v, p) (v', p)"
| step_lock: "vault_step C issue head (v, p) (lock v, p)"
| step_put: "put_with_chunk_size C oid pt n v = (v', r0) \<Longrightarrow> vault_step C issue head (v, p) (v', p)"
| step_put_from_reader: "put_from_reader_with_chunk_size C oid rs n v = (v', r1) \<Longrightarrow> vault_step C issue head (v, p) (v', p)"
| step_get: "get C oid v = (v', r2) \<Longrightarrow> vault_step C issue head (v, p) (v', p)"
| step_get_to_writer: "get_to_writer C write_vec oid v w = (v', w', r3) \<Longrightarrow> vault_step C issue head (v, p) (v', p)"
| step_verify: "verify_active_objects C v = (v', r4) \<Longrightarrow> vault_step C issue head (v, p) (v', p)"
| step_checkpoint: "full_checkpoint busy v = (v', r5) \<Longrightarrow> vault_step C issue head (v, p) (v', p)"
| step_rotate: "rotate_passphrase C current replacement v = (v', r6) \<Longrightarrow> vault_step C issue head (v, p) (v', p)"
| step_put_with_witness: "put_with_witness C issue oid pt (v, p) = (s', r7) \<Longrightarrow> vault_step C issue head (v, p) s'"
| step_recover: "recover_pending_witness_publications C issue (v, p) = (s', r8) \<Longrightarrow> vault_step C issue head (v, p) s'"
| step_verify_with_witness: "verify_active_objects_with_witness C head (v, p) = (s', r9) \<Longrightarrow> vault_step C issue head (v, p) s'"

lemma unlock_keeps: "unlock C passphrase v = (v', r) \<Longrightarrow> keeps v v'"
  by (auto simp: unlock_def vault_id_of_def intro!: keeps_same split: sum.splits)

lemma vault_step_keeps:
  assumes "aead_correct C" "vault_step C issue head s s'"
  shows "keeps (fst s) (fst s')"
  using assms(2)
proof cases
  case (step_lock v p)
  then show ?thesis by (auto simp: lock_def vault_id_of_def intro!: keeps_same)
next
  case (step_put_with_witness oid pt v p r)
  with put_with_witness_keeps [OF assms(1)] show ?thesis by (cases s') auto
next
  case (step_recover v p r)
  with recover_keeps show ?thesis by (cases s') auto
next
  case (step_verify_with_witness v p r)
  with verify_with_witness_keeps show ?thesis by (cases s') auto
qed (auto intro: unlock_keeps put_keeps [OF assms(1)] put_from_reader_keeps [OF assms(1)] get_keeps get_to_writer_keeps
    verify_active_objects_keeps full_checkpoint_keeps rotate_passphrase_keeps)

text \<open>Along every sequence of vault operations, whatever each of them returned, whatever engine calls failed
  and whatever the witness answered, a well-formed database stays well-formed: its references resolve and
  each active pointer names a version of its own object. No version that was ever stored changes, neither
  its row nor its chunks nor its receipt, and the vault keeps its identity.\<close>

theorem vault_steps_keep_versions:
  assumes "aead_correct C" and "(vault_step C issue head)\<^sup>*\<^sup>* s s'" and "db_ok (tables (fst s))"
  shows "db_ok (tables (fst s')) \<and> frozen (tables (fst s)) (tables (fst s')) \<and> vault_id_of (fst s') = vault_id_of (fst s)"
proof -
  from assms(2) have "keeps (fst s) (fst s')"
    by (induction rule: rtranclp_induct) (auto intro: keeps_trans vault_step_keeps [OF assms(1)])
  with assms(3) show ?thesis by (simp add: keeps_def)
qed

theorem vault_steps_keep_versions_witness:
  "\<exists>v' ver. put_with_chunk_size toy_crypto (replicate 16 2) [1, 2, 3] DEFAULT_CHUNK_SIZE sample_vault = (v', Inr ver)
     \<and> (vault_step toy_crypto (im_issue_receipt toy_crypto) (im_object_head toy_crypto))\<^sup>*\<^sup>*
         (sample_vault, from_seed (replicate 32 5)) (lock v', from_seed (replicate 32 5))
     \<and> db_ok (tables (lock v'))"
proof -
  let ?p = "from_seed (replicate 32 5)"
  obtain v' ver where p: "put_with_chunk_size toy_crypto (replicate 16 2) [1, 2, 3] DEFAULT_CHUNK_SIZE sample_vault = (v', Inr ver)"
    using sample_put by blast
  have s: "(vault_step toy_crypto (im_issue_receipt toy_crypto) (im_object_head toy_crypto))\<^sup>*\<^sup>* (sample_vault, ?p) (lock v', ?p)"
    by (rule rtranclp_trans [OF r_into_rtranclp r_into_rtranclp]) (rule step_put [OF p], rule step_lock)
  from vault_steps_keep_versions [OF toy_crypto_laws(1) s] sample_vault_simps(1) p s show ?thesis by auto
qed

end
