(* ===== verification/Vlt_Backup.thy ===== *)
theory Vlt_Backup
  imports Vlt_Protocol Vlt_Vault_Steps
begin

text \<open>
  Backup and restore, \<open>crates/vlt1-core/src/backup.rs\<close>, with the calls of the vault and the store that
  lead to it. File operations are functions on the file system of the environment; a name is the string the
  caller supplies, and each call may fail as the schedule of the environment says. The names and inodes
  the operating system picks, the bytes in which the engine stores a database, what it finds in a
  file, and JSON are parameters. The theory shows that a completed backup is restored to the same tables,
  that a restore accepts only the file its manifest describes, that no backup or restore, failed ones
  included, touches a file that was there before, and which operations of the vault, backup among them, lock
  it when they fail.
\<close>

section \<open>File operations\<close>

text \<open>What the operating system chooses: the name of a temporary file in a directory, and how much of a failed
  write reaches the file. A new file takes a free inode; no name leads to one of those.\<close>

record os =
  temp_name :: "string \<Rightarrow> file_system \<Rightarrow> string"
  partial_write :: "file_system \<Rightarrow> nat"

definition inodes_ok :: "file_system \<Rightarrow> bool" where
  "inodes_ok fs \<longleftrightarrow> distinct (free_inodes fs) \<and> (\<forall>p. \<forall>i \<in> set (free_inodes fs). lookup fs p \<noteq> Inr i)"

definition fs_inode :: "string \<Rightarrow> file_system \<Rightarrow> io_error + nat" where
  "fs_inode path fs = (if path = [] then Inl NotFoundError else lookup fs path)"

text \<open>Reading a file that is no regular file fails; the sources read only files they validated or created.\<close>

definition fs_read :: "string \<Rightarrow> file_system \<Rightarrow> io_error + bytes" where
  "fs_read path fs =
     and_then (fs_inode path fs) (\<lambda>i.
     if file_type (inodes fs i) = RegularFile then Inr (content fs i) else Inl OtherIoError)"

definition fs_create :: "string \<Rightarrow> u32 \<Rightarrow> file_system \<Rightarrow> file_system \<times> (io_error + unit)" where
  "fs_create path m fs =
     (if path \<noteq> [] \<and> lookup fs path = Inl NotFoundError then
        (case free_inodes fs of
           [] \<Rightarrow> (fs, Inl OtherIoError)
         | i # is \<Rightarrow>
             (fs\<lparr>lookup := (lookup fs)(path := Inr i), inodes := (inodes fs)(i := \<lparr>file_type = RegularFile, mode = m\<rparr>),
                content := (content fs)(i := []), free_inodes := is\<rparr>, Inr ()))
      else (fs, Inl OtherIoError))"

definition fs_store :: "(bytes \<Rightarrow> bytes) \<Rightarrow> string \<Rightarrow> file_system \<Rightarrow> file_system \<times> (io_error + unit)" where
  "fs_store f path fs =
     (case fs_inode path fs of
        Inl e \<Rightarrow> (fs, Inl e)
      | Inr i \<Rightarrow> if file_type (inodes fs i) = RegularFile
                then (fs\<lparr>content := (content fs)(i := f (content fs i))\<rparr>, Inr ()) else (fs, Inl OtherIoError))"

definition fs_link :: "string \<Rightarrow> string \<Rightarrow> file_system \<Rightarrow> file_system \<times> (io_error + unit)" where
  "fs_link old new fs =
     (case fs_inode old fs of
        Inl e \<Rightarrow> (fs, Inl e)
      | Inr i \<Rightarrow> if new \<noteq> [] \<and> lookup fs new = Inl NotFoundError
                then (fs\<lparr>lookup := (lookup fs)(new := Inr i)\<rparr>, Inr ()) else (fs, Inl OtherIoError))"

definition fs_unlink :: "string \<Rightarrow> file_system \<Rightarrow> file_system" where
  "fs_unlink path fs = fs\<lparr>lookup := (lookup fs)(path := Inl NotFoundError)\<rparr>"

text \<open>A call whose I/O error the sources report as \<open>Storage\<close>.\<close>

definition fs_call ::
    "(file_system \<Rightarrow> file_system \<times> (io_error + 'a)) \<Rightarrow> 'z env_scheme \<Rightarrow> 'z env_scheme \<times> 'a result" where
  "fs_call f s =
     (case tick s of (s, failed) \<Rightarrow>
        if failed then (s, Inl Storage) else
        case f (files s) of (fs, r) \<Rightarrow> (s\<lparr>files := fs\<rparr>, case r of Inl _ \<Rightarrow> Inl Storage | Inr x \<Rightarrow> Inr x))"

definition fs_open :: "string \<Rightarrow> 'z env_scheme \<Rightarrow> 'z env_scheme \<times> unit result" where
  "fs_open path = fs_call (\<lambda>fs. (fs, and_then (fs_inode path fs) (\<lambda>_. Inr ())))"

text \<open>\<open>sync_all\<close> changes nothing that a later call can see.\<close>

definition sync_all :: "'z env_scheme \<Rightarrow> 'z env_scheme \<times> unit result" where
  "sync_all = fs_call (\<lambda>fs. (fs, Inr ()))"

definition fs_write_all :: "os \<Rightarrow> string \<Rightarrow> bytes \<Rightarrow> 'z env_scheme \<Rightarrow> 'z env_scheme \<times> unit result" where
  "fs_write_all S path bs s =
     (if faults s 0
      then ((fst (tick s))\<lparr>files := fst (fs_store (\<lambda>b. b @ take (partial_write S (files s)) bs) path (files s))\<rparr>, Inl Storage)
      else fs_call (fs_store (\<lambda>b. b @ bs) path) s)"

definition sync_file :: "string \<Rightarrow> 'z env_scheme \<Rightarrow> 'z env_scheme \<times> unit result" where
  "sync_file path = then_do (fs_open path) (\<lambda>_. sync_all)"

definition sync_parent :: "string \<Rightarrow> 'z env_scheme \<Rightarrow> 'z env_scheme \<times> unit result" where
  "sync_parent path s =
     (case parent (components path) of
        None \<Rightarrow> (s, Inl (InvalidInput ''backup destination path''))
      | Some p \<Rightarrow> sync_file (path_string p) s)"

definition write_new_file :: "os \<Rightarrow> string \<Rightarrow> bytes \<Rightarrow> 'z env_scheme \<Rightarrow> 'z env_scheme \<times> unit result" where
  "write_new_file S path bs =
     then_do (fs_call (fs_create path MODE_600)) (\<lambda>_.
     then_do (fs_write_all S path bs) (\<lambda>_.
     then_do sync_all (\<lambda>_.
     sync_parent path)))"

definition ensure_new_destination :: "string \<Rightarrow> 'z env_scheme \<Rightarrow> 'z env_scheme \<times> unit result" where
  "ensure_new_destination path s = (s, validate_new_regular_file (files s) path ''backup destination path'')"

definition create_temporary_file :: "os \<Rightarrow> string \<Rightarrow> 'z env_scheme \<Rightarrow> 'z env_scheme \<times> string result" where
  "create_temporary_file S destination =
     then_do (\<lambda>s. (s, validate_new_regular_file (files s) destination ''backup destination path'')) (\<lambda>_ s.
       case parent (components destination) of
         None \<Rightarrow> (s, Inl (InvalidInput ''backup destination path''))
       | Some p \<Rightarrow>
           (let name = temp_name S (path_string p) (files s) in
            then_do (fs_call (fs_create name MODE_600)) (\<lambda>_ s. (s, Inr name)) s))"

text \<open>The temporary file is removed when its owner returns, whatever it returns; a failure to do so is
  ignored.\<close>

definition drop_temporary :: "string \<Rightarrow> 'z env_scheme \<Rightarrow> 'z env_scheme" where
  "drop_temporary name s = (case tick s of (s, failed) \<Rightarrow> if failed then s else s\<lparr>files := fs_unlink name (files s)\<rparr>)"

definition with_temporary_file ::
    "os \<Rightarrow> string \<Rightarrow> (string \<Rightarrow> 'z env_scheme \<Rightarrow> 'z env_scheme \<times> 'a result) \<Rightarrow> 'z env_scheme \<Rightarrow> 'z env_scheme \<times> 'a result" where
  "with_temporary_file S destination body =
     then_do (create_temporary_file S destination) (\<lambda>name s.
       case body name s of (s, r) \<Rightarrow> (drop_temporary name s, r))"

definition publish_new_file :: "string \<Rightarrow> string \<Rightarrow> 'z env_scheme \<Rightarrow> 'z env_scheme \<times> unit result" where
  "publish_new_file temporary destination =
     then_do (fs_call (fs_link temporary destination)) (\<lambda>_. sync_parent destination)"

definition chmod_private :: "string \<Rightarrow> 'z env_scheme \<Rightarrow> 'z env_scheme \<times> unit result" where
  "chmod_private path = fs_call (set_permissions path MODE_600)"

section \<open>Checksums\<close>

definition snapshot_hex_encode :: "bytes \<Rightarrow> string" where
  "snapshot_hex_encode bs = concat (map (\<lambda>byte. [''0123456789abcdef'' ! unat (drop_bit 4 byte),
     ''0123456789abcdef'' ! unat (byte AND 0x0f)]) bs)"

definition is_ascii_hexdigit :: "char \<Rightarrow> bool" where
  "is_ascii_hexdigit c \<longleftrightarrow> c \<in> set ''0123456789abcdefABCDEF''"

definition is_ascii_uppercase :: "char \<Rightarrow> bool" where
  "is_ascii_uppercase c \<longleftrightarrow> 65 \<le> (of_char c :: nat) \<and> (of_char c :: nat) \<le> 90"

definition is_lower_hex :: "string \<Rightarrow> nat \<Rightarrow> bool" where
  "is_lower_hex s n \<longleftrightarrow> length s = n * 2 \<and> list_all (\<lambda>c. is_ascii_hexdigit c \<and> \<not> is_ascii_uppercase c) s"

text \<open>The digest is the bytes fed so far; a read delivers at most the 64 KiB of the buffer.\<close>

function checksum_loop ::
    "bytes \<Rightarrow> u64 \<Rightarrow> bytes \<Rightarrow> 'z env_scheme \<Rightarrow> 'z env_scheme \<times> (bytes \<times> u64) result" where
  "checksum_loop digest n rest s =
     (case tick s of (s, failed) \<Rightarrow>
        if failed then (s, Inl Storage)
        else if rest = [] then (s, Inr (digest, n))
        else
          (let buffer = take (64 * 1024) rest in
           case try_from_nat (length buffer) of
             None \<Rightarrow> (s, Inl Storage)
           | Some read \<Rightarrow>
               (case checked_add n read of
                  None \<Rightarrow> (s, Inl (Invariant ''backup size exceeds u64''))
                | Some n \<Rightarrow> checksum_loop (digest @ buffer) n (drop (64 * 1024) rest) s)))"
  by pat_completeness auto
termination
  by (relation "measure (\<lambda>(_, _, rest, _). length rest)") auto

declare checksum_loop.simps [simp del]

definition checksum_file :: "crypto \<Rightarrow> string \<Rightarrow> 'z env_scheme \<Rightarrow> 'z env_scheme \<times> (string \<times> u64) result" where
  "checksum_file C path =
     then_do (fs_call (\<lambda>fs. (fs, fs_read path fs))) (\<lambda>bs.
     then_do (checksum_loop [] 0 bs) (\<lambda>(digest, n) s. (s, Inr (snapshot_hex_encode (sha256 C digest), n))))"

section \<open>Snapshots\<close>

text \<open>The bytes of a snapshot the engine writes, the database it finds in a file, what \<open>PRAGMA integrity_check\<close>
  reports, and what a failed copy leaves in its destination.\<close>

record snapshot_engine =
  image_of :: "database \<Rightarrow> bytes"
  database_in :: "bytes \<Rightarrow> database option"
  integrity_of :: "database \<Rightarrow> string"
  torn_image :: "database \<Rightarrow> bytes"

text \<open>The engine finds in a snapshot the database it was taken of.\<close>

definition snapshot_law :: "snapshot_engine \<Rightarrow> database \<Rightarrow> bool" where
  "snapshot_law N t \<longleftrightarrow> database_in N (image_of N t) = Some t"

text \<open>\<open>Connection::backup\<close> from a database to a file, and a query on a file opened for reading.\<close>

definition sql_backup :: "snapshot_engine \<Rightarrow> database \<Rightarrow> string \<Rightarrow> 'z env_scheme \<Rightarrow> 'z env_scheme \<times> unit result" where
  "sql_backup N t path s =
     (if faults s 0 then ((fst (tick s))\<lparr>files := fst (fs_store (\<lambda>_. torn_image N t) path (files s))\<rparr>, Inl Storage)
      else fs_call (fs_store (\<lambda>_. image_of N t) path) s)"

definition snapshot_query ::
    "snapshot_engine \<Rightarrow> string \<Rightarrow> (database \<Rightarrow> 'a result) \<Rightarrow> 'z env_scheme \<Rightarrow> 'z env_scheme \<times> 'a result" where
  "snapshot_query N path q =
     then_do (fs_call (\<lambda>fs. (fs, fs_read path fs))) (\<lambda>bs s.
       (s, case database_in N bs of None \<Rightarrow> Inl Storage | Some t \<Rightarrow> q t))"

definition verify_snapshot_database :: "snapshot_engine \<Rightarrow> string \<Rightarrow> 'z env_scheme \<Rightarrow> 'z env_scheme \<times> vault_id result" where
  "verify_snapshot_database N path =
     then_do (fs_open path) (\<lambda>_.
     then_do (snapshot_query N path (\<lambda>t.
       if integrity_of N t \<noteq> ''ok'' then Inl (Invariant ''backup SQLite integrity_check'') else Inr ())) (\<lambda>_.
     then_do (snapshot_query N path (\<lambda>t. if foreign_keys_ok t then Inr () else Inl Storage)) (\<lambda>_.
     then_do (snapshot_query N path (\<lambda>t.
       case vault_meta t of None \<Rightarrow> Inl Storage | Some row \<Rightarrow> Inr (mr_vault_id row))) (\<lambda>vid s.
     (s, from_slice vid)))))"

section \<open>The manifest\<close>

definition BACKUP_FORMAT :: string where
  "BACKUP_FORMAT = ''VLT/1 encrypted SQLite backup v1''"

record backup_manifest =
  bm_format :: string
  bm_vault_id :: string
  bm_database_sha256 :: string
  bm_database_bytes :: u64

definition backup_validate :: "backup_manifest \<Rightarrow> unit result" where
  "backup_validate m =
     (if bm_format m \<noteq> BACKUP_FORMAT \<or> \<not> is_lower_hex (bm_vault_id m) 16 \<or> \<not> is_lower_hex (bm_database_sha256 m) 32
      then Inl (invalid_format ''backup manifest fields'') else Inr ())"

definition read_from ::
    "(bytes \<Rightarrow> backup_manifest option) \<Rightarrow> string \<Rightarrow> 'z env_scheme \<Rightarrow> 'z env_scheme \<times> backup_manifest result" where
  "read_from from_json path =
     then_do (\<lambda>s. (s, validate_existing_regular_file (files s) path ''backup manifest path'')) (\<lambda>_.
     then_do (fs_call (\<lambda>fs. (fs, fs_read path fs))) (\<lambda>bs s.
       (s, and_then (ok_or (invalid_format ''backup manifest JSON'') (from_json bs)) (\<lambda>m.
           and_then (backup_validate m) (\<lambda>_. Inr m)))))"

definition verify_backup ::
    "crypto \<Rightarrow> snapshot_engine \<Rightarrow> backup_manifest \<Rightarrow> string \<Rightarrow> 'z env_scheme \<Rightarrow> 'z env_scheme \<times> unit result" where
  "verify_backup C N m backup_path =
     then_do (lift_result (backup_validate m)) (\<lambda>_.
     then_do (\<lambda>s. (s, validate_existing_regular_file (files s) backup_path ''backup source path'')) (\<lambda>_.
     then_do (checksum_file C backup_path) (\<lambda>(sha, n).
     then_do (lift_result (if n \<noteq> bm_database_bytes m \<or> sha \<noteq> bm_database_sha256 m then Inl Authentication else Inr ())) (\<lambda>_.
     then_do (verify_snapshot_database N backup_path) (\<lambda>vid.
     lift_result (if to_hex vid \<noteq> bm_vault_id m then Inl (Invariant ''backup manifest vault binding'') else Inr ()))))))"

definition from_snapshot :: "crypto \<Rightarrow> vault_id \<Rightarrow> string \<Rightarrow> 'z env_scheme \<Rightarrow> 'z env_scheme \<times> backup_manifest result" where
  "from_snapshot C vid path =
     then_do (checksum_file C path) (\<lambda>(sha, n) s.
       (s, Inr \<lparr>bm_format = BACKUP_FORMAT, bm_vault_id = to_hex vid, bm_database_sha256 = sha, bm_database_bytes = n\<rparr>))"

definition backup_write_to ::
    "os \<Rightarrow> (backup_manifest \<Rightarrow> bytes option) \<Rightarrow> backup_manifest \<Rightarrow> string \<Rightarrow> 'z env_scheme \<Rightarrow> 'z env_scheme \<times> unit result" where
  "backup_write_to S to_json m path s =
     (case to_json m of None \<Rightarrow> (s, Inl Storage) | Some bs \<Rightarrow> write_new_file S path bs s)"

definition manifest_path :: "string \<Rightarrow> string" where
  "manifest_path backup = backup @ ''.vlt1-backup.json''"

section \<open>Backup and restore\<close>

definition create_snapshot ::
    "crypto \<Rightarrow> snapshot_engine \<Rightarrow> os \<Rightarrow> (backup_manifest \<Rightarrow> bytes option) \<Rightarrow> database \<Rightarrow> vault_id \<Rightarrow> string
       \<Rightarrow> 'z env_scheme \<Rightarrow> 'z env_scheme \<times> backup_manifest result" where
  "create_snapshot C N S to_json t vid destination =
     then_do (ensure_new_destination destination) (\<lambda>_.
     with_temporary_file S destination (\<lambda>temporary.
       then_do (sql_backup N t temporary) (\<lambda>_.
       then_do (sync_file temporary) (\<lambda>_.
       then_do (verify_snapshot_database N temporary) (\<lambda>snapshot_vault_id.
       then_do (lift_result (if snapshot_vault_id \<noteq> vid then Inl (Invariant ''backup vault ID binding'') else Inr ())) (\<lambda>_.
       then_do (chmod_private temporary) (\<lambda>_.
       then_do (publish_new_file temporary destination) (\<lambda>_.
       then_do (from_snapshot C vid destination) (\<lambda>m.
       then_do (ensure_new_destination (manifest_path destination)) (\<lambda>_.
       then_do (backup_write_to S to_json m (manifest_path destination)) (\<lambda>_.
       lift_result (Inr m))))))))))))"

text \<open>The source of a restore is read when the engine copies it.\<close>

definition copy_snapshot :: "snapshot_engine \<Rightarrow> string \<Rightarrow> string \<Rightarrow> 'z env_scheme \<Rightarrow> 'z env_scheme \<times> unit result" where
  "copy_snapshot N backup path s =
     (case and_then (fs_read backup (files s)) (\<lambda>bs. ok_or OtherIoError (database_in N bs)) of
        Inl _ \<Rightarrow> (s, Inl Storage)
      | Inr t \<Rightarrow> sql_backup N t path s)"

definition restore_snapshot ::
    "crypto \<Rightarrow> snapshot_engine \<Rightarrow> os \<Rightarrow> string \<Rightarrow> backup_manifest \<Rightarrow> string \<Rightarrow> 'z env_scheme \<Rightarrow> 'z env_scheme \<times> unit result" where
  "restore_snapshot C N S backup m destination =
     then_do (verify_backup C N m backup) (\<lambda>_.
     then_do (ensure_new_destination destination) (\<lambda>_.
     with_temporary_file S destination (\<lambda>temporary.
       then_do (fs_open backup) (\<lambda>_.
       then_do (copy_snapshot N backup temporary) (\<lambda>_.
       then_do (sync_file temporary) (\<lambda>_.
       then_do (verify_snapshot_database N temporary) (\<lambda>_.
       then_do (chmod_private temporary) (\<lambda>_.
       publish_new_file temporary destination))))))))"

text \<open>\<open>Storage::create_backup\<close> and \<open>Vault::backup_to\<close>; \<open>Storage::restore_backup\<close> and
  \<open>Vault::restore_from_backup\<close>.\<close>

definition create_backup ::
    "crypto \<Rightarrow> snapshot_engine \<Rightarrow> os \<Rightarrow> (backup_manifest \<Rightarrow> bytes option) \<Rightarrow> vault_id \<Rightarrow> string
       \<Rightarrow> 'z store \<Rightarrow> 'z store \<times> backup_manifest result" where
  "create_backup C N S to_json vid destination c = create_snapshot C N S to_json (tables c) vid destination c"

definition backup_to ::
    "crypto \<Rightarrow> snapshot_engine \<Rightarrow> os \<Rightarrow> (backup_manifest \<Rightarrow> bytes option) \<Rightarrow> string \<Rightarrow> vault \<Rightarrow> vault \<times> backup_manifest result" where
  "backup_to C N S to_json destination v = create_backup C N S to_json (vault_id_of v) destination v"

definition restore_backup ::
    "crypto \<Rightarrow> snapshot_engine \<Rightarrow> os \<Rightarrow> string \<Rightarrow> backup_manifest \<Rightarrow> string \<Rightarrow> 'z env_scheme \<Rightarrow> 'z env_scheme \<times> unit result" where
  "restore_backup C N S backup m destination = restore_snapshot C N S backup m destination"

definition restore_from_backup ::
    "crypto \<Rightarrow> snapshot_engine \<Rightarrow> os \<Rightarrow> string \<Rightarrow> backup_manifest \<Rightarrow> string \<Rightarrow> 'z env_scheme \<Rightarrow> 'z env_scheme \<times> unit result" where
  "restore_from_backup C N S backup m destination = restore_backup C N S backup m destination"

section \<open>What file operations leave alone\<close>

lemma fs_call_Inr [result_simps]:
  "fs_call f s = (s', Inr x) \<longleftrightarrow>
     \<not> faults s 0 \<and> (\<exists>fs. f (files s) = (fs, Inr x) \<and> s' = (fst (tick s))\<lparr>files := fs\<rparr>)"
  by (auto simp: fs_call_def tick_def split: prod.splits sum.splits)

text \<open>\<open>kept fs0 fs\<close>: every name of \<open>fs0\<close> still leads to the same file with the same bytes and permission bits.
  \<open>new_name fs0 fs p\<close>: \<open>p\<close> is none of them, and leads to none of their files.\<close>

definition kept :: "file_system \<Rightarrow> file_system \<Rightarrow> bool" where
  "kept fs0 fs \<longleftrightarrow> (\<forall>p i. lookup fs0 p = Inr i \<longrightarrow>
     lookup fs p = Inr i \<and> inodes fs i = inodes fs0 i \<and> content fs i = content fs0 i)"

definition new_name :: "file_system \<Rightarrow> file_system \<Rightarrow> string \<Rightarrow> bool" where
  "new_name fs0 fs p \<longleftrightarrow> (\<forall>i. lookup fs0 p \<noteq> Inr i) \<and> (\<forall>i q. lookup fs p = Inr i \<longrightarrow> lookup fs0 q \<noteq> Inr i)"

definition spares :: "file_system \<Rightarrow> string set \<Rightarrow> file_system \<Rightarrow> bool" where
  "spares fs0 P fs \<longleftrightarrow> inodes_ok fs \<and> kept fs0 fs \<and> (\<forall>p \<in> P. new_name fs0 fs p)"

abbreviation sparing :: "file_system \<Rightarrow> string set \<Rightarrow> ('z env_scheme \<Rightarrow> 'z env_scheme \<times> 'a) \<Rightarrow> bool" where
  "sparing fs0 P m \<equiv> evolves (\<lambda>s s'. env.more s' = env.more s \<and> (spares fs0 P (files s) \<longrightarrow> spares fs0 P (files s'))) m"

lemma spares_refl [simp]: "spares fs {} fs = inodes_ok fs"
  by (simp add: spares_def kept_def)

lemma spares_mono: "spares fs0 P fs \<Longrightarrow> Q \<subseteq> P \<Longrightarrow> spares fs0 Q fs"
  by (auto simp: spares_def)

lemma sparing_then_do [intro]:
  "sparing fs0 P m \<Longrightarrow> (\<And>x. sparing fs0 P (f x)) \<Longrightarrow> sparing fs0 P (then_do m f)"
  by (rule evolves_then_do) auto

lemma sparing_same [intro]: "(\<And>s. files (fst (m s)) = files s \<and> env.more (fst (m s)) = env.more s) \<Longrightarrow> sparing fs0 P m"
  by (simp add: evolves_def)

lemma sparing_fs_call [intro]:
  "(\<And>fs. spares fs0 P fs \<Longrightarrow> spares fs0 P (fst (f fs))) \<Longrightarrow> sparing fs0 P (fs_call f)"
  by (rule evolvesI) (auto simp: fs_call_def tick_def split: prod.splits if_splits; metis fst_conv)

lemma spares_store:
  assumes "spares fs0 P fs" "p \<in> P"
  shows "spares fs0 P (fst (fs_store f p fs))"
proof (cases "fs_inode p fs")
  case (Inr i)
  then have "lookup fs p = Inr i" by (auto simp: fs_inode_def split: if_splits)
  with assms have "lookup fs0 q \<noteq> Inr i" for q
    by (auto simp: spares_def new_name_def)
  with assms Inr show ?thesis
    by (auto simp: fs_store_def spares_def kept_def new_name_def inodes_ok_def)
qed (use assms in \<open>simp add: fs_store_def\<close>)

lemma spares_chmod:
  assumes "spares fs0 P fs" "p \<in> P"
  shows "spares fs0 P (fst (set_permissions p m fs))"
proof (cases "lookup fs p")
  case (Inr i)
  with assms have "lookup fs0 q \<noteq> Inr i" for q
    by (auto simp: spares_def new_name_def)
  with assms Inr show ?thesis
    by (auto simp: set_permissions_def spares_def kept_def new_name_def inodes_ok_def)
qed (use assms in \<open>simp add: set_permissions_def\<close>)

lemma absent_new:
  assumes "kept fs0 fs" "lookup fs p = Inl e"
  shows "lookup fs0 p \<noteq> Inr i"
  using assms by (force simp: kept_def)

lemma spares_link:
  assumes "spares fs0 P fs" "p \<in> P"
  shows "spares fs0 P (fst (fs_link p q fs))"
proof (cases "\<exists>i. fs_inode p fs = Inr i \<and> q \<noteq> [] \<and> lookup fs q = Inl NotFoundError")
  case True
  then obtain i where i: "fs_inode p fs = Inr i" "lookup fs q = Inl NotFoundError" "q \<noteq> []" by blast
  then have "lookup fs p = Inr i" by (auto simp: fs_inode_def split: if_splits)
  with assms have "lookup fs0 r \<noteq> Inr i" for r
    by (auto simp: spares_def new_name_def)
  moreover have "lookup fs0 q \<noteq> Inr j" for j
    using absent_new assms(1) i(2) by (auto simp: spares_def)
  ultimately show ?thesis
    using assms i \<open>lookup fs p = Inr i\<close> by (auto simp: fs_link_def spares_def kept_def new_name_def inodes_ok_def)
qed (use assms in \<open>auto simp: fs_link_def split: sum.splits\<close>)

lemma spares_create:
  assumes "spares fs0 P fs"
  shows "spares fs0 P (fst (fs_create q m fs))"
    and "fs_create q m fs = (fs', Inr ()) \<Longrightarrow> spares fs0 (insert q P) fs'"
proof -
  have both: "spares fs0 (insert q P) (fst (fs_create q m fs))"
    if free: "q \<noteq> []" "lookup fs q = Inl NotFoundError" "free_inodes fs = i # is" for i "is"
    unfolding spares_def
  proof (intro conjI ballI)
    have new: "lookup fs0 q \<noteq> Inr j" for j
      using absent_new assms free(2) by (auto simp: spares_def)
    have fresh: "lookup fs r \<noteq> Inr i" for r
      using assms free(3) by (auto simp: spares_def inodes_ok_def)
    then have fresh0: "lookup fs0 r \<noteq> Inr i" for r
      using assms by (metis spares_def kept_def)
    show "inodes_ok (fst (fs_create q m fs))"
      using assms free by (auto simp: fs_create_def spares_def inodes_ok_def)
    show "kept fs0 (fst (fs_create q m fs))"
      using assms fresh0 new free by (simp add: fs_create_def spares_def kept_def)
    fix r assume "r \<in> insert q P"
    with assms new fresh0 show "new_name fs0 (fst (fs_create q m fs)) r"
      using free by (auto simp: fs_create_def spares_def new_name_def)
  qed
  show "spares fs0 P (fst (fs_create q m fs))"
  proof (cases "q \<noteq> [] \<and> lookup fs q = Inl NotFoundError \<and> free_inodes fs \<noteq> []")
    case True
    then obtain i "is" where "free_inodes fs = i # is" by (meson list.exhaust)
    with True both show ?thesis by (blast intro: spares_mono)
  qed (use assms in \<open>auto simp: fs_create_def\<close>)
  show "fs_create q m fs = (fs', Inr ()) \<Longrightarrow> spares fs0 (insert q P) fs'"
    using both by (cases "free_inodes fs") (auto simp: fs_create_def split: if_splits)
qed

lemma spares_unlink: "spares fs0 P fs \<Longrightarrow> p \<in> P \<Longrightarrow> spares fs0 P (fs_unlink p fs)"
  by (auto simp: fs_unlink_def spares_def kept_def new_name_def inodes_ok_def)

lemma sparing_open [intro]: "sparing fs0 P (fs_open path)"
  unfolding fs_open_def by (rule sparing_fs_call) simp

lemma sparing_sync [intro]: "sparing fs0 P sync_all" "sparing fs0 P (sync_file path)" "sparing fs0 P (sync_parent path)"
proof -
  show all: "sparing fs0 P sync_all" unfolding sync_all_def by (rule sparing_fs_call) simp
  then show sync: "sparing fs0 P (sync_file path)" for path unfolding sync_file_def by blast
  show "sparing fs0 P (sync_parent path)"
    using sync by (cases "parent (components path)") (auto simp: sync_parent_def evolves_def)
qed

lemma sparing_read [intro]: "sparing fs0 P (fs_call (\<lambda>fs. (fs, fs_read path fs)))"
  by (rule sparing_fs_call) simp

lemma checksum_loop_files:
  "files (fst (checksum_loop d n rest s)) = files s \<and> env.more (fst (checksum_loop d n rest s)) = env.more s"
proof (induction d n rest s rule: checksum_loop.induct)
  case (1 d n rest s)
  show ?case
    unfolding checksum_loop.simps [of d n rest s]
    using 1 by (auto simp: tick_def Let_def split: option.splits prod.splits if_splits)
qed

lemma sparing_lift [intro]: "sparing fs0 P (lift_result r)"
  by (simp add: evolves_def lift_result_def)

lemma sparing_return [intro]: "sparing fs0 P (\<lambda>s. (s, f s))"
  by (simp add: evolves_def)

lemma sparing_checksum [intro]: "sparing fs0 P (checksum_file C path)"
  unfolding checksum_file_def
  by (intro sparing_then_do sparing_read sparing_same checksum_loop_files) auto

lemma sparing_query [intro]: "sparing fs0 P (snapshot_query N path q)"
  unfolding snapshot_query_def by (intro sparing_then_do sparing_read sparing_return)

lemma sparing_verify [intro]: "sparing fs0 P (verify_snapshot_database N path)"
  unfolding verify_snapshot_database_def by (intro sparing_then_do sparing_open sparing_query sparing_return)

lemma sparing_write [intro]: "p \<in> P \<Longrightarrow> sparing fs0 P (fs_write_all S p bs)"
  by (rule evolvesI)
     (auto simp: fs_write_all_def fs_call_def tick_def spares_store split: if_splits prod.splits;
      metis spares_store fst_conv)

lemma sparing_backup [intro]: "p \<in> P \<Longrightarrow> sparing fs0 P (sql_backup N t p)"
  by (rule evolvesI)
     (auto simp: sql_backup_def fs_call_def tick_def spares_store split: if_splits prod.splits;
      metis spares_store fst_conv)

lemma sparing_copy [intro]: "p \<in> P \<Longrightarrow> sparing fs0 P (copy_snapshot N backup p)"
  using sparing_backup [of p P fs0 N] by (auto simp: copy_snapshot_def evolves_def split: sum.splits)

lemma sparing_chmod [intro]: "p \<in> P \<Longrightarrow> sparing fs0 P (chmod_private p)"
  unfolding chmod_private_def by (intro sparing_fs_call spares_chmod)

lemma sparing_publish [intro]: "p \<in> P \<Longrightarrow> sparing fs0 P (publish_new_file p q)"
  unfolding publish_new_file_def by (intro sparing_then_do sparing_fs_call spares_link sparing_sync)

lemma fs_create_call:
  assumes "spares fs0 P (files s)" "fs_call (fs_create q m) s = (s', r)"
  shows "spares fs0 P (files s') \<and> (r = Inr () \<longrightarrow> spares fs0 (insert q P) (files s'))"
  using assms(2) spares_create [OF assms(1), of q m]
  by (auto simp: fs_call_def tick_def assms(1) split: if_splits prod.splits sum.splits; metis fst_conv)

text \<open>None of them changes what a connection holds beside the environment.\<close>

abbreviation framed :: "('z env_scheme \<Rightarrow> 'z env_scheme \<times> 'a) \<Rightarrow> bool" where
  "framed m \<equiv> evolves (\<lambda>s s'. env.more s' = env.more s) m"

lemma framed_then_do: "framed m \<Longrightarrow> (\<And>x. framed (f x)) \<Longrightarrow> framed (then_do m f)"
  by (rule evolves_then_do) auto

lemma framed_sparing: "sparing fs0 P m \<Longrightarrow> framed m"
  by (simp add: evolves_def)

lemma framed_fs_call: "framed (fs_call f)"
  by (rule evolvesI) (auto simp: fs_call_def tick_def split: if_splits prod.splits)

lemma framed_write_new: "framed (write_new_file S path bs)"
  unfolding write_new_file_def
  by (intro framed_then_do framed_fs_call framed_sparing [OF sparing_write [of _ "{path}"]] framed_sparing [OF sparing_sync(1)]
      framed_sparing [OF sparing_sync(3)]) simp

lemma framed_temporary:
  assumes "\<And>name. framed (body name)"
  shows "framed (with_temporary_file S destination body)"
  unfolding with_temporary_file_def
proof (rule framed_then_do)
  show "framed (create_temporary_file S destination)"
    by (rule evolvesI)
       (auto simp: create_temporary_file_def then_do_def Let_def split: option.splits prod.splits sum.splits
         dest: evolvesD [OF framed_fs_call])
  show "framed (\<lambda>s. case body name s of (s, r) \<Rightarrow> (drop_temporary name s, r))" for name
    by (rule evolvesI)
       (auto simp: drop_temporary_def tick_def split: prod.splits if_splits dest: evolvesD [OF assms])
qed

lemma sparing_write_new [intro]:
  shows "sparing fs0 P (write_new_file S path bs)"
proof (rule evolvesI, rule conjI [OF evolvesD [OF framed_write_new]], assumption, rule impI)
  fix s s' :: "'a env_scheme" and r
  assume m: "write_new_file S path bs s = (s', r)" and sp: "spares fs0 P (files s)"
  obtain s1 r1 where c: "fs_call (fs_create path MODE_600) s = (s1, r1)" by force
  note created = fs_create_call [OF sp c]
  show "spares fs0 P (files s')"
  proof (cases r1)
    case (Inr u)
    let ?rest = "then_do (fs_write_all S path bs) (\<lambda>_. then_do sync_all (\<lambda>_. sync_parent path))"
    have "sparing fs0 (insert path P) ?rest" by (intro sparing_then_do sparing_write sparing_sync) simp
    moreover have "?rest s1 = (s', r)" using m c Inr by (simp add: write_new_file_def)
    ultimately have "spares fs0 (insert path P) (files s')" using created Inr by (auto dest: evolvesD)
    then show ?thesis by (rule spares_mono) auto
  qed (use m c created in \<open>simp add: write_new_file_def\<close>)
qed

lemma sparing_temporary:
  assumes "\<And>name. sparing fs0 (insert name P) (body name)"
  shows "sparing fs0 P (with_temporary_file S destination body)"
proof (rule evolvesI, rule conjI [OF evolvesD [OF framed_temporary [OF framed_sparing [OF assms]]]], assumption, rule impI)
  fix s s' :: "'a env_scheme" and r
  assume m: "with_temporary_file S destination body s = (s', r)" and sp: "spares fs0 P (files s)"
  obtain s1 r1 where c: "create_temporary_file S destination s = (s1, r1)" by force
  have created: "spares fs0 P (files s1) \<and> (\<forall>name. r1 = Inr name \<longrightarrow> spares fs0 (insert name P) (files s1))"
    using c sp fs_create_call [OF sp]
    by (auto simp: create_temporary_file_def then_do_def Let_def split: option.splits prod.splits sum.splits)
  show "spares fs0 P (files s')"
  proof (cases r1)
    case (Inr name)
    obtain s2 r2 where b: "body name s1 = (s2, r2)" by force
    with created Inr have "spares fs0 (insert name P) (files s2)"
      using evolvesD [OF assms b] by blast
    moreover have "s' = drop_temporary name s2" using m c Inr b by (simp add: with_temporary_file_def)
    ultimately have "spares fs0 (insert name P) (files s')"
      using spares_unlink by (auto simp: drop_temporary_def tick_def)
    then show ?thesis by (rule spares_mono) auto
  qed (use m c created in \<open>simp add: with_temporary_file_def\<close>)
qed

lemma sparing_manifest [intro]: "sparing fs0 P (backup_write_to S to_json m path)"
  using sparing_write_new [of fs0 P S path] by (cases "to_json m") (auto simp: backup_write_to_def evolves_def)

lemma sparing_create_snapshot: "sparing fs0 P (create_snapshot C N S to_json t vid destination)"
  unfolding create_snapshot_def ensure_new_destination_def from_snapshot_def
  by (intro sparing_then_do sparing_temporary sparing_backup sparing_sync sparing_verify sparing_lift sparing_chmod
      sparing_publish sparing_checksum sparing_manifest) (auto simp: evolves_def)

lemma sparing_case_prod [intro]: "(\<And>a b. sparing fs0 P (f a b)) \<Longrightarrow> sparing fs0 P (case x of (a, b) \<Rightarrow> f a b)"
  by (cases x) simp

lemma sparing_restore_snapshot: "sparing fs0 P (restore_snapshot C N S backup m destination)"
  unfolding restore_snapshot_def verify_backup_def ensure_new_destination_def
  by (intro sparing_then_do sparing_temporary sparing_copy sparing_sync sparing_verify sparing_lift sparing_chmod
      sparing_publish sparing_checksum sparing_open sparing_return sparing_case_prod) auto

section \<open>What successful operations establish\<close>

lemma checksum_loop_Inr:
  "checksum_loop d n rest s = (s', Inr (d', n')) \<Longrightarrow> d' = d @ rest \<and> unat n' = unat n + length rest \<and> files s' = files s"
proof (induction d n rest s rule: checksum_loop.induct)
  case (1 d n rest s)
  note step = 1(2) [unfolded checksum_loop.simps [of d n rest s]]
  show ?case
  proof (cases "rest = []")
    case False
    let ?buf = "take (64 * 1024) rest" and ?s = "s\<lparr>faults := \<lambda>n. faults s (Suc n)\<rparr>"
    from step False obtain rd n1 where rd: "try_from_nat (length ?buf) = Some rd" and n1: "checked_add n rd = Some n1"
      and rest: "checksum_loop (d @ ?buf) n1 (drop (64 * 1024) rest) ?s = (s', Inr (d', n'))" and ok: "\<not> faults s 0"
      by (auto simp: tick_def Let_def split: option.splits if_splits)
    have "d' = (d @ ?buf) @ drop (64 * 1024) rest \<and> unat n' = unat n1 + length (drop (64 * 1024) rest) \<and> files s' = files ?s"
      by (rule 1(1) [OF _ _ False refl rd n1 rest]) (use ok in \<open>auto simp: tick_def\<close>)
    moreover have "unat n1 = unat n + length ?buf"
      using unat_checked_add [OF n1] unat_try_from_nat [OF rd] by simp
    ultimately show ?thesis
      by (simp add: min_def split: if_splits)
  qed (use step in \<open>auto simp: tick_def split: if_splits\<close>)
qed

lemma hex_encode_to_hex: "snapshot_hex_encode = to_hex"
  by (simp add: fun_eq_iff snapshot_hex_encode_def to_hex_def hex_digit_def)

lemma checksum_file_Inr:
  assumes "checksum_file C path s = (s', Inr (sha, n))"
  obtains bs where "fs_read path (files s) = Inr bs" "sha = to_hex (sha256 C bs)" "unat n = length bs" "files s' = files s"
  using assms
  by (auto simp: checksum_file_def result_simps hex_encode_to_hex tick_def dest!: checksum_loop_Inr)

lemma fs_open_Inr: "fs_open path s = (s', Inr u) \<Longrightarrow> files s' = files s"
  by (auto simp: fs_open_def result_simps)

lemma sync_all_Inr: "sync_all s = (s', Inr u) \<Longrightarrow> files s' = files s"
  by (auto simp: sync_all_def result_simps)

lemma sync_file_Inr: "sync_file path s = (s', Inr u) \<Longrightarrow> files s' = files s"
  by (auto simp: sync_file_def result_simps dest!: sync_all_Inr fs_open_Inr)

lemma sync_parent_Inr: "sync_parent path s = (s', Inr u) \<Longrightarrow> files s' = files s"
  by (auto simp: sync_parent_def dest: sync_file_Inr split: option.splits)

lemmas sync_Inr = sync_all_Inr sync_file_Inr sync_parent_Inr

lemma snapshot_query_Inr:
  assumes "snapshot_query N path q s = (s', Inr x)"
  obtains bs t where "fs_read path (files s) = Inr bs" "database_in N bs = Some t" "q t = Inr x" "files s' = files s"
  using assms by (auto simp: snapshot_query_def result_simps split: option.splits)

lemma verify_snapshot_Inr:
  assumes "verify_snapshot_database N path s = (s', Inr vid)"
  obtains bs t row where "fs_read path (files s) = Inr bs" "database_in N bs = Some t" "integrity_of N t = ''ok''"
    "foreign_keys_ok t" "vault_meta t = Some row" "vid = mr_vault_id row" "id_ok vid" "files s' = files s"
  using assms
  by (auto simp: verify_snapshot_database_def result_simps split: option.splits if_splits
      elim!: snapshot_query_Inr dest!: fs_open_Inr)

lemma fs_inode_Inr: "fs_inode p fs = Inr i \<longleftrightarrow> p \<noteq> [] \<and> lookup fs p = Inr i"
  by (simp add: fs_inode_def)

text \<open>\<open>at fs p i bs\<close>: the name \<open>p\<close> leads to the regular file \<open>i\<close>, which holds \<open>bs\<close>.\<close>

definition at :: "file_system \<Rightarrow> string \<Rightarrow> nat \<Rightarrow> bytes \<Rightarrow> bool" where
  "at fs p i bs \<longleftrightarrow> p \<noteq> [] \<and> lookup fs p = Inr i \<and> file_type (inodes fs i) = RegularFile \<and> content fs i = bs"

lemma fs_read_at: "fs_read p fs = Inr bs \<longleftrightarrow> (\<exists>i. at fs p i bs)"
  by (auto simp: fs_read_def at_def result_simps fs_inode_Inr)

lemma sql_backup_Inr:
  assumes "sql_backup N t path s = (s', Inr u)" "at (files s) path i bs"
  shows "files s' = (files s)\<lparr>content := (content (files s))(i := image_of N t)\<rparr>"
  using assms by (auto simp: sql_backup_def result_simps fs_store_def at_def fs_inode_def tick_def split: if_splits)

lemma create_temporary_Inr:
  assumes "create_temporary_file S destination s = (s', Inr name)"
  obtains i where "at (files s') name i []" "lookup (files s) name = Inl NotFoundError"
    "validate_new_regular_file (files s) destination ''backup destination path'' = Inr ()"
  using assms
  by (auto simp: create_temporary_file_def result_simps at_def fs_create_def Let_def split: option.splits if_splits list.splits)

lemma chmod_private_Inr:
  assumes "chmod_private path s = (s', Inr u)" "at (files s) path i bs"
  shows "files s' = (files s)\<lparr>inodes := (inodes (files s))(i := (inodes (files s) i)\<lparr>mode := MODE_600\<rparr>)\<rparr>"
  using assms by (auto simp: chmod_private_def result_simps set_permissions_def at_def split: if_splits)

lemma publish_new_file_Inr:
  assumes "publish_new_file temporary destination s = (s', Inr u)" "at (files s) temporary i bs"
  shows "files s' = (files s)\<lparr>lookup := (lookup (files s))(destination := Inr i)\<rparr> \<and> destination \<noteq> []
    \<and> lookup (files s) destination = Inl NotFoundError"
  using assms by (auto simp: publish_new_file_def result_simps fs_link_def at_def fs_inode_def tick_def
      dest!: sync_Inr split: if_splits)

lemma ensure_new_Inr: "ensure_new_destination path s = (s', Inr u) \<Longrightarrow> files s' = files s \<and> (path \<noteq> [] \<longrightarrow> lookup (files s) path = Inl NotFoundError)"
  by (auto simp: ensure_new_destination_def validate_new_regular_file_Inr symlink_metadata_def split: sum.splits if_splits)

lemma write_new_file_Inr:
  assumes "write_new_file S path bs s = (s', Inr u)"
  obtains j js where "path \<noteq> []" "lookup (files s) path = Inl NotFoundError" "free_inodes (files s) = j # js"
    "files s' = (files s)\<lparr>lookup := (lookup (files s))(path := Inr j),
        inodes := (inodes (files s))(j := \<lparr>file_type = RegularFile, mode = MODE_600\<rparr>),
        content := (content (files s))(j := bs), free_inodes := js\<rparr>"
  using assms
  by (auto simp: write_new_file_def result_simps fs_create_def Let_def fs_write_all_def fs_store_def fs_inode_def tick_def
      dest!: sync_Inr split: if_splits list.splits)

lemma ensure_new_parts:
  assumes "ensure_new_destination path s = (s', Inr u)"
  shows "s' = s" "validate_new_regular_file (files s) path ''backup destination path'' = Inr ()"
  using assms by (auto simp: ensure_new_destination_def)

lemma with_temporary_Inr:
  assumes "with_temporary_file S destination body s = (s', Inr x)"
  obtains name s1 s2 i where "create_temporary_file S destination s = (s1, Inr name)" "at (files s1) name i []"
    "body name s1 = (s2, Inr x)"
    "files s' = files s2 \<or> files s' = fs_unlink name (files s2)"
proof -
  from assms obtain s1 name where c: "create_temporary_file S destination s = (s1, Inr name)"
    and k: "(case body name s1 of (s, r) \<Rightarrow> (drop_temporary name s, r)) = (s', Inr x)"
    unfolding with_temporary_file_def then_do_eq_Inr by blast
  obtain s2 where b: "body name s1 = (s2, Inr x)" and d: "s' = drop_temporary name s2"
    using k by (auto split: prod.splits)
  from d have "files s' = files s2 \<or> files s' = fs_unlink name (files s2)"
    by (simp add: drop_temporary_def tick_def)
  with c b that show ?thesis by (meson create_temporary_Inr)
qed

text \<open>What a published backup looks like.\<close>

definition backup_files :: "snapshot_engine \<Rightarrow> database \<Rightarrow> bytes \<Rightarrow> string \<Rightarrow> file_system \<Rightarrow> bool" where
  "backup_files N t json destination fs \<longleftrightarrow>
     private_regular fs destination \<and> fs_read destination fs = Inr (image_of N t)
     \<and> private_regular fs (manifest_path destination) \<and> fs_read (manifest_path destination) fs = Inr json"

definition manifest_for :: "crypto \<Rightarrow> vault_id \<Rightarrow> bytes \<Rightarrow> backup_manifest \<Rightarrow> bool" where
  "manifest_for C vid bs m \<longleftrightarrow> bm_format m = BACKUP_FORMAT \<and> bm_vault_id m = to_hex vid
     \<and> bm_database_sha256 m = to_hex (sha256 C bs) \<and> unat (bm_database_bytes m) = length bs"

lemma private_mode: "owner_private MODE_600"
  by (simp add: owner_private_def)

lemma at_unlink: "at fs p i bs \<Longrightarrow> p \<noteq> q \<Longrightarrow> at (fs_unlink q fs) p i bs"
  by (simp add: at_def fs_unlink_def)

lemma private_at: "at fs p i bs \<Longrightarrow> owner_private (mode (inodes fs i)) \<Longrightarrow> private_regular fs p"
  by (auto simp: private_regular_def at_def symlink_metadata_def)

lemma publish_private:
  assumes "at (files s) name i bs0" "sql_backup N t name s = (s1, Inr u1)" "files s2 = files s1"
    "chmod_private name s2 = (s3, Inr u2)" "publish_new_file name destination s3 = (s4, Inr u3)"
  shows "at (files s4) destination i (image_of N t)" "at (files s4) name i (image_of N t)"
    "mode (inodes (files s4) i) = MODE_600" "destination \<noteq> name" "inodes_ok (files s) \<Longrightarrow> inodes_ok (files s4)"
proof -
  have f1: "files s2 = (files s)\<lparr>content := (content (files s))(i := image_of N t)\<rparr>"
    using sql_backup_Inr [OF assms(2,1)] assms(3) by simp
  with assms(1) have a2: "at (files s2) name i (image_of N t)" by (simp add: at_def)
  note f3 = chmod_private_Inr [OF assms(4) a2]
  with a2 have a3: "at (files s3) name i (image_of N t)" by (simp add: at_def)
  note f4 = publish_new_file_Inr [OF assms(5) a3]
  with a3 show "destination \<noteq> name" by (auto simp: at_def)
  with f4 a3 show "at (files s4) destination i (image_of N t)" "at (files s4) name i (image_of N t)"
    by (auto simp: at_def)
  show "mode (inodes (files s4) i) = MODE_600" using f4 f3 by simp
  show "inodes_ok (files s) \<Longrightarrow> inodes_ok (files s4)"
    using assms(1) f4 f3 f1 by (auto simp: inodes_ok_def at_def)
qed

lemma write_new_at:
  assumes "inodes_ok (files s)" "write_new_file S path bs s = (s', Inr u)"
  shows "\<exists>j. at (files s') path j bs \<and> mode (inodes (files s') j) = MODE_600"
    and "at (files s) p i b \<Longrightarrow> at (files s') p i b \<and> inodes (files s') i = inodes (files s) i \<and> p \<noteq> path"
proof -
  obtain j js where w: "path \<noteq> []" "lookup (files s) path = Inl NotFoundError" "free_inodes (files s) = j # js"
    "files s' = (files s)\<lparr>lookup := (lookup (files s))(path := Inr j),
        inodes := (inodes (files s))(j := \<lparr>file_type = RegularFile, mode = MODE_600\<rparr>),
        content := (content (files s))(j := bs), free_inodes := js\<rparr>"
    by (rule write_new_file_Inr [OF assms(2)])
  then show "\<exists>j. at (files s') path j bs \<and> mode (inodes (files s') j) = MODE_600"
    by (intro exI [of _ j]) (simp add: at_def)
  show "at (files s) p i b \<Longrightarrow> at (files s') p i b \<and> inodes (files s') i = inodes (files s) i \<and> p \<noteq> path"
    using w assms(1) by (auto simp: at_def inodes_ok_def)
qed

lemma create_temporary_keeps:
  assumes "inodes_ok (files s)" "create_temporary_file S destination s = (s', Inr name)"
  shows "inodes_ok (files s')" "at (files s) p i bs \<Longrightarrow> at (files s') p i bs"
proof -
  let ?new = "temp_name S (path_string (the (parent (components destination)))) (files s)"
  obtain r where c: "fs_call (fs_create ?new MODE_600) s = (s', Inr r)"
    using assms(2) by (auto simp: create_temporary_file_def result_simps Let_def split: option.splits)
  have "spares (files s) {} (files s')"
    using fs_create_call [OF _ c, of "files s" "{}"] assms(1) by simp
  then show "inodes_ok (files s')" "at (files s) p i bs \<Longrightarrow> at (files s') p i bs"
    by (auto simp: spares_def kept_def at_def)
qed

lemma from_snapshot_Inr:
  assumes "from_snapshot C vid path s = (s', Inr m)"
  obtains bs where "fs_read path (files s) = Inr bs" "manifest_for C vid bs m" "files s' = files s"
  using assms by (auto simp: from_snapshot_def result_simps manifest_for_def elim!: checksum_file_Inr)

lemma create_snapshot_Inr:
  assumes S: "inodes_ok (files s)" and c: "create_snapshot C N S to_json t vid destination s = (s', Inr m)"
  shows "manifest_for C vid (image_of N t) m \<and> (\<exists>json. to_json m = Some json \<and> backup_files N t json destination (files s'))"
proof -
  from c obtain body where wt: "with_temporary_file S destination body s = (s', Inr m)"
    and body: "body = (\<lambda>temporary.
       then_do (sql_backup N t temporary) (\<lambda>_.
       then_do (sync_file temporary) (\<lambda>_.
       then_do (verify_snapshot_database N temporary) (\<lambda>snapshot_vault_id.
       then_do (lift_result (if snapshot_vault_id \<noteq> vid then Inl (Invariant ''backup vault ID binding'') else Inr ())) (\<lambda>_.
       then_do (chmod_private temporary) (\<lambda>_.
       then_do (publish_new_file temporary destination) (\<lambda>_.
       then_do (from_snapshot C vid destination) (\<lambda>m.
       then_do (ensure_new_destination (manifest_path destination)) (\<lambda>_.
       then_do (backup_write_to S to_json m (manifest_path destination)) (\<lambda>_.
       lift_result (Inr m)))))))))))"
    by (auto simp: create_snapshot_def result_simps dest!: ensure_new_parts(1))
  from wt obtain name s1 s2 i where ct: "create_temporary_file S destination s = (s1, Inr name)"
    and temp: "at (files s1) name i []" and b: "body name s1 = (s2, Inr m)"
    and final: "files s' = files s2 \<or> files s' = fs_unlink name (files s2)"
    by (rule with_temporary_Inr)
  from b obtain a1 a2 a3 a4 a5 a6 a7 x where steps: "sql_backup N t name s1 = (a1, Inr ())" "sync_file name a1 = (a2, Inr ())"
      "verify_snapshot_database N name a2 = (a3, Inr x)" "chmod_private name a3 = (a4, Inr ())"
      "publish_new_file name destination a4 = (a5, Inr ())" "from_snapshot C vid destination a5 = (a6, Inr m)"
      "ensure_new_destination (manifest_path destination) a6 = (a7, Inr ())"
      "backup_write_to S to_json m (manifest_path destination) a7 = (s2, Inr ())"
    unfolding body by (auto simp: result_simps lift_result_def split: if_splits)
  have "files a3 = files a1"
    using steps(2,3) by (auto elim!: verify_snapshot_Inr dest!: sync_file_Inr)
  note pub = publish_private [OF temp steps(1) this steps(4,5)]
  from steps(6) pub(1) have m: "manifest_for C vid (image_of N t) m" and f: "files a7 = files a5"
    using steps(7) by (auto elim!: from_snapshot_Inr simp: fs_read_at at_def dest!: ensure_new_Inr)
  have ok: "inodes_ok (files a7)" using f pub(5) create_temporary_keeps(1) [OF S ct] by simp
  from steps(8) obtain json where json: "to_json m = Some json"
    and w: "write_new_file S (manifest_path destination) json a7 = (s2, Inr ())"
    by (auto simp: backup_write_to_def split: option.splits)
  obtain j where j: "at (files s2) (manifest_path destination) j json" "mode (inodes (files s2) j) = MODE_600"
    using write_new_at(1) [OF ok w] by blast
  have d: "at (files s2) destination i (image_of N t)" "mode (inodes (files s2) i) = MODE_600"
      and n: "name \<noteq> manifest_path destination"
    using write_new_at(2) [OF ok w] pub f by auto
  have "at (files s') destination i (image_of N t)" "at (files s') (manifest_path destination) j json"
    "inodes (files s') = inodes (files s2)"
    using final d(1) j(1) pub(4) n at_unlink by (auto simp: fs_unlink_def at_def)
  with d j m json private_mode show ?thesis
    by (auto simp: backup_files_def fs_read_at private_at)
qed

lemma verify_backup_Inr:
  assumes "verify_backup C N m path s = (s', Inr u)"
  obtains bs t row where "fs_read path (files s) = Inr bs" "bm_database_sha256 m = to_hex (sha256 C bs)"
    "unat (bm_database_bytes m) = length bs" "database_in N bs = Some t" "integrity_of N t = ''ok''" "foreign_keys_ok t"
    "vault_meta t = Some row" "bm_vault_id m = to_hex (mr_vault_id row)" "files s' = files s" "bm_format m = BACKUP_FORMAT"
  using assms
  by (auto simp: verify_backup_def result_simps lift_result_def backup_validate_def split: if_splits prod.splits
      elim!: checksum_file_Inr verify_snapshot_Inr)

lemma restore_snapshot_Inr:
  assumes S: "inodes_ok (files s)" and r: "restore_snapshot C N S backup m destination s = (s', Inr u)"
  obtains bs t where "fs_read backup (files s) = Inr bs" "bm_database_sha256 m = to_hex (sha256 C bs)"
    "unat (bm_database_bytes m) = length bs" "database_in N bs = Some t"
    "fs_read destination (files s') = Inr (image_of N t)" "private_regular (files s') destination"
    "symlink_metadata (files s) destination = Inl NotFoundError"
proof -
  from r obtain v1 v2 where v: "verify_backup C N m backup s = (v1, Inr ())" and e: "ensure_new_destination destination v1 = (v2, Inr ())"
    and wt: "with_temporary_file S destination (\<lambda>temporary.
       then_do (fs_open backup) (\<lambda>_.
       then_do (copy_snapshot N backup temporary) (\<lambda>_.
       then_do (sync_file temporary) (\<lambda>_.
       then_do (verify_snapshot_database N temporary) (\<lambda>_.
       then_do (chmod_private temporary) (\<lambda>_.
       publish_new_file temporary destination)))))) v2 = (s', Inr ())"
    by (auto simp: restore_snapshot_def result_simps)
  from v obtain bs t where src: "fs_read backup (files s) = Inr bs" "bm_database_sha256 m = to_hex (sha256 C bs)"
    "unat (bm_database_bytes m) = length bs" "database_in N bs = Some t" and f1: "files v1 = files s"
    by (rule verify_backup_Inr)
  have f2: "files v2 = files s" and new: "symlink_metadata (files s) destination = Inl NotFoundError"
    using ensure_new_parts [OF e] f1 by (auto simp: validate_new_regular_file_Inr)
  from wt obtain name s1 s2 i where c: "create_temporary_file S destination v2 = (s1, Inr name)" and temp: "at (files s1) name i []"
    and b: "then_do (fs_open backup) (\<lambda>_.
       then_do (copy_snapshot N backup name) (\<lambda>_.
       then_do (sync_file name) (\<lambda>_.
       then_do (verify_snapshot_database N name) (\<lambda>_.
       then_do (chmod_private name) (\<lambda>_.
       publish_new_file name destination))))) s1 = (s2, Inr ())"
    and final: "files s' = files s2 \<or> files s' = fs_unlink name (files s2)"
    by (rule with_temporary_Inr)
  from b obtain a0 a1 a2 a3 a4 x where steps: "fs_open backup s1 = (a0, Inr ())" "copy_snapshot N backup name a0 = (a1, Inr ())"
      "sync_file name a1 = (a2, Inr ())" "verify_snapshot_database N name a2 = (a3, Inr x)" "chmod_private name a3 = (a4, Inr ())"
      "publish_new_file name destination a4 = (s2, Inr ())"
    by (auto simp: result_simps)
  have f0: "files a0 = files s1" by (rule fs_open_Inr [OF steps(1)])
  have "fs_read backup (files a0) = Inr bs"
    using create_temporary_keeps(2) [OF _ c] S src(1) f2 f0 by (auto simp: fs_read_at)
  with steps(2) src(4) have copy: "sql_backup N t name a0 = (a1, Inr ())"
    by (simp add: copy_snapshot_def)
  have "files a3 = files a1"
    using steps(3,4) by (auto elim!: verify_snapshot_Inr dest!: sync_file_Inr)
  note pub = publish_private [OF _ copy this steps(5,6), of i "[]", simplified f0, OF temp]
  have "at (files s') destination i (image_of N t)" "inodes (files s') = inodes (files s2)"
    using final pub(1,4) at_unlink by (auto simp: fs_unlink_def at_def)
  with pub(3) private_mode private_at have "fs_read destination (files s') = Inr (image_of N t)" "private_regular (files s') destination"
    by (auto simp: fs_read_at)
  with src new that show ?thesis by blast
qed

lemma read_from_Inr:
  assumes "read_from from_json path s = (s', Inr m)"
  obtains bs where "fs_read path (files s) = Inr bs" "from_json bs = Some m" "files s' = files s"
  using assms by (auto simp: read_from_def result_simps)

lemma backup_to_frame:
  assumes "backup_to C N S to_json destination v = (v', r)"
  shows "tables v' = tables v \<and> vt_envelope v' = vt_envelope v \<and> vt_root_key v' = vt_root_key v"
proof -
  have "env.more v' = env.more v"
    using evolvesD [OF sparing_create_snapshot assms [unfolded backup_to_def create_backup_def], of "files v" "{}"] by simp
  then show ?thesis by (cases v, cases v') simp
qed

section \<open>Properties\<close>

text \<open>C19. A completed backup restores to the database it was taken of. When the snapshot and the sidecar still hold the
  bytes the backup wrote, the sidecar reads as the manifest the backup returned, a restore that succeeds
  leaves an owner-private file in which the engine finds exactly the tables of the vault at the time of
  the backup, and a vault opened on it has the envelope of the vault that was backed up, so that its
  passphrase and its objects are the same.\<close>

theorem backup_restore_roundtrip:
  assumes "codec_law to_json from_json" "snapshot_law N (tables v)" "inodes_ok (files v)" "inodes_ok (files s2)"
    and b: "backup_to C N S to_json destination v = (v', Inr m)"
    and rd: "read_from from_json (manifest_path destination) s = (s', Inr m')"
    and r: "restore_from_backup C N S destination m' out s2 = (s3, Inr ())"
    and same: "fs_read (manifest_path destination) (files s) = fs_read (manifest_path destination) (files v')"
      "fs_read destination (files s2) = fs_read destination (files v')"
  shows "m' = m \<and> private_regular (files s3) out
    \<and> and_then (fs_read out (files s3)) (\<lambda>bs. ok_or OtherIoError (database_in N bs)) = Inr (tables v)
    \<and> (\<forall>E integrity_check c c' w. holds_envelope C v \<and> tables c = tables v
        \<and> vault_open C E integrity_check out c = (c', Inr w) \<longrightarrow> vt_envelope w = vt_envelope v \<and> tables w = tables v)"
proof -
  obtain json where json: "to_json m = Some json" and files: "backup_files N (tables v) json destination (files v')"
    using create_snapshot_Inr [OF assms(3) b [unfolded backup_to_def create_backup_def]] by blast
  from rd obtain bs where "fs_read (manifest_path destination) (files s) = Inr bs" "from_json bs = Some m'"
    by (rule read_from_Inr)
  with same(1) files codec_lawD [OF assms(1) json] have m: "m' = m"
    by (simp add: backup_files_def)
  from r obtain bs t where src: "fs_read destination (files s2) = Inr bs" "database_in N bs = Some t"
    and out: "fs_read out (files s3) = Inr (image_of N t)" "private_regular (files s3) out"
    by (auto simp: restore_from_backup_def restore_backup_def elim!: restore_snapshot_Inr [OF assms(4)])
  with same(2) files assms(2) have "t = tables v"
    by (simp add: backup_files_def snapshot_law_def)
  with out assms(2) have db: "and_then (fs_read out (files s3)) (\<lambda>bs. ok_or OtherIoError (database_in N bs)) = Inr (tables v)"
    by (simp add: snapshot_law_def)
  have "vt_envelope w = vt_envelope v \<and> tables w = tables v"
    if "holds_envelope C v" "tables c = tables v" "vault_open C E ic out c = (c', Inr w)" for E ic c c' w
    using vault_open_Inr [OF that(3)] that(1,2) by (auto simp: holds_envelope_def)
  with m out db show ?thesis by blast
qed

text \<open>C20. A restore that succeeds has read a file of the length and the SHA-256 that its manifest states, which holds an
  intact database of the vault the manifest names, and has created its destination, a name that did not
  exist.\<close>

theorem restore_accepts_only_manifest:
  assumes "inodes_ok (files s)" "restore_from_backup C N S backup m destination s = (s', Inr ())"
  shows "\<exists>bs t row. fs_read backup (files s) = Inr bs \<and> bm_database_sha256 m = to_hex (sha256 C bs)
    \<and> unat (bm_database_bytes m) = length bs \<and> database_in N bs = Some t \<and> integrity_of N t = ''ok''
    \<and> foreign_keys_ok t \<and> vault_meta t = Some row \<and> bm_vault_id m = to_hex (mr_vault_id row)
    \<and> symlink_metadata (files s) destination = Inl NotFoundError
    \<and> fs_read destination (files s') = Inr (image_of N t) \<and> private_regular (files s') destination"
proof -
  note r = assms(2) [unfolded restore_from_backup_def restore_backup_def]
  from r obtain v1 where v: "verify_backup C N m backup s = (v1, Inr ())"
    by (auto simp: restore_snapshot_def result_simps)
  from v obtain bs t row where "fs_read backup (files s) = Inr bs" "bm_database_sha256 m = to_hex (sha256 C bs)"
    "unat (bm_database_bytes m) = length bs" "database_in N bs = Some t" "integrity_of N t = ''ok''" "foreign_keys_ok t"
    "vault_meta t = Some row" "bm_vault_id m = to_hex (mr_vault_id row)"
    by (rule verify_backup_Inr)
  moreover from r obtain bs2 t2 where "fs_read backup (files s) = Inr bs2" "database_in N bs2 = Some t2"
    "fs_read destination (files s') = Inr (image_of N t2)" "private_regular (files s') destination"
    "symlink_metadata (files s) destination = Inl NotFoundError"
    by (rule restore_snapshot_Inr [OF assms(1)])
  ultimately show ?thesis by auto
qed

text \<open>C21. No backup and no restore, whatever it returns and whichever calls fail, changes a file that was there: every
  name keeps leading to the same file with the same bytes and permission bits.\<close>

theorem backup_never_overwrites:
  assumes "inodes_ok (files v)" "inodes_ok (files s)"
  shows "kept (files v) (files (fst (backup_to C N S to_json destination v)))
    \<and> kept (files s) (files (fst (restore_from_backup C N S backup m out s)))"
proof -
  obtain v' r where v: "create_snapshot C N S to_json (tables v) (vault_id_of v) destination v = (v', r)" by force
  obtain s' q where s: "restore_snapshot C N S backup m out s = (s', q)" by force
  have "spares (files v) {} (files v')"
    using evolvesD [OF sparing_create_snapshot v, of "files v" "{}"] assms(1) by simp
  moreover have "spares (files s) {} (files s')"
    using evolvesD [OF sparing_restore_snapshot s, of "files s" "{}"] assms(2) by simp
  ultimately show ?thesis
    using v s by (simp add: spares_def backup_to_def create_backup_def restore_from_backup_def restore_backup_def)
qed

text \<open>C27. A failure that leaves the vault in doubt locks it, with two exceptions. Whenever one of the operations on objects, the
  sweeps, the recovery, the checkpoint or the change of the passphrase returns a storage, format,
  invariant, authentication or witness error, the vault is locked. The same errors of \<open>unlock\<close> and of
  \<open>backup_to\<close> leave it as it was: an unlocked vault stays unlocked.\<close>

theorem failure_locks:
  assumes "requires_lock e"
  shows "(put_with_chunk_size C oid pt n v = (v', Inl e)
      \<or> put_from_reader_with_chunk_size C oid rs n v = (v', Inl e)
      \<or> get C oid v = (v', Inl e) \<or> get_to_writer C write_all oid v w = (v', w', Inl e)
      \<or> verify_active_objects C v = (v', Inl e) \<or> full_checkpoint busy v = (v', Inl e)
      \<or> rotate_passphrase C current replacement v = (v', Inl e)
      \<or> put_with_witness C issue oid pt (v, p) = ((v', p'), Inl e)
      \<or> recover_pending_witness_publications C issue (v, p) = ((v', p'), Inl e)
      \<or> verify_active_objects_with_witness C head (v, p) = ((v', p'), Inl e)
      \<longrightarrow> status v' = StatusLocked)
    \<and> (unlock C passphrase v = (v', Inl e) \<or> backup_to C N S to_json destination v = (v', Inl e)
      \<longrightarrow> status v' = status v)"
proof (intro conjI impI)
  assume op: "put_with_chunk_size C oid pt n v = (v', Inl e)
      \<or> put_from_reader_with_chunk_size C oid rs n v = (v', Inl e)
      \<or> get C oid v = (v', Inl e) \<or> get_to_writer C write_all oid v w = (v', w', Inl e)
      \<or> verify_active_objects C v = (v', Inl e) \<or> full_checkpoint busy v = (v', Inl e)
      \<or> rotate_passphrase C current replacement v = (v', Inl e)
      \<or> put_with_witness C issue oid pt (v, p) = ((v', p'), Inl e)
      \<or> recover_pending_witness_publications C issue (v, p) = ((v', p'), Inl e)
      \<or> verify_active_objects_with_witness C head (v, p) = ((v', p'), Inl e)"
  have "vt_root_key v' = None" using op operation_locks [OF assms] by (elim disjE) blast+
  then show "status v' = StatusLocked" by (simp add: status_def)
next
  assume "unlock C passphrase v = (v', Inl e) \<or> backup_to C N S to_json destination v = (v', Inl e)"
  then have "vt_root_key v' = vt_root_key v"
    using backup_to_frame by (auto simp: unlock_def split: sum.splits)
  then show "status v' = status v" by (simp add: status_def)
qed

section \<open>A concrete run\<close>

definition backup_database :: database where
  "backup_database = empty_database\<lparr>vault_meta := Some \<lparr>mr_format_version = 1, mr_vault_id = replicate 16 1,
     mr_root_salt = replicate 16 2, mr_argon_memory_kib = 1, mr_argon_iterations = 1, mr_argon_lanes = 1,
     mr_root_nonce = replicate 12 3, mr_root_ciphertext = []\<rparr>\<rparr>"

definition backup_vault :: vault where
  "backup_vault = vault_of (sample_connection\<lparr>tables := backup_database\<rparr>)
     \<lparr>env_vault_id = replicate 16 1, env_salt = replicate 16 2, env_params = interactive,
      env_record = \<lparr>nonce = replicate 12 3, ciphertext = []\<rparr>\<rparr> None"

definition sample_os :: os where
  "sample_os = \<lparr>temp_name = \<lambda>_ _. ''/t'', partial_write = \<lambda>_. 0\<rparr>"

definition sample_snapshots :: snapshot_engine where
  "sample_snapshots = \<lparr>image_of = \<lambda>_. [1, 2, 3], database_in = \<lambda>_. Some backup_database, integrity_of = \<lambda>_. ''ok'',
     torn_image = \<lambda>_. []\<rparr>"

definition sample_backup_manifest :: backup_manifest where
  "sample_backup_manifest = \<lparr>bm_format = BACKUP_FORMAT, bm_vault_id = to_hex (replicate 16 1),
     bm_database_sha256 = to_hex (sha256 toy_crypto [1, 2, 3]), bm_database_bytes = 3\<rparr>"

abbreviation (input) sample_backup_json :: "(backup_manifest \<times> bytes) list" where
  "sample_backup_json \<equiv> [(sample_backup_manifest, [5])]"

lemma sample_run:
  "case backup_to toy_crypto sample_snapshots sample_os (table_print sample_backup_json) ''/b'' backup_vault of (v, r1) \<Rightarrow>
   case read_from (table_parse sample_backup_json) (manifest_path ''/b'') (env.truncate v) of (s, r2) \<Rightarrow>
   case restore_from_backup toy_crypto sample_snapshots sample_os ''/b'' sample_backup_manifest ''/r'' s of (s', r3) \<Rightarrow>
     r1 = Inr sample_backup_manifest \<and> r2 = Inr sample_backup_manifest \<and> r3 = Inr ()"
  by code_simp

lemma inodes_ok_backup_vault: "inodes_ok (files backup_vault)"
  by (auto simp: inodes_ok_def backup_vault_def vault_of_def sample_connection_def sample_files_def)

lemma files_truncate [simp]: "files (env.truncate s) = files s"
  by (simp add: env.truncate_def)

lemma sample_backup:
  obtains v s s' where
    "backup_to toy_crypto sample_snapshots sample_os (table_print sample_backup_json) ''/b'' backup_vault = (v, Inr sample_backup_manifest)"
    "read_from (table_parse sample_backup_json) (manifest_path ''/b'') (env.truncate v) = (s, Inr sample_backup_manifest)"
    "restore_from_backup toy_crypto sample_snapshots sample_os ''/b'' sample_backup_manifest ''/r'' s = (s', Inr ())"
    "files s = files v" "inodes_ok (files s)"
proof -
  obtain v r1 where v: "backup_to toy_crypto sample_snapshots sample_os (table_print sample_backup_json) ''/b'' backup_vault = (v, r1)"
    by force
  obtain s r2 where s: "read_from (table_parse sample_backup_json) (manifest_path ''/b'') (env.truncate v) = (s, r2)" by force
  obtain s' r3 where s': "restore_from_backup toy_crypto sample_snapshots sample_os ''/b'' sample_backup_manifest ''/r'' s = (s', r3)"
    by force
  have r: "r1 = Inr sample_backup_manifest" "r2 = Inr sample_backup_manifest" "r3 = Inr ()"
    using sample_run by (simp_all add: v s s')
  have "files s = files v" using read_from_Inr [OF s [unfolded r]] by auto
  moreover have "spares (files backup_vault) {} (files v)"
    using evolvesD [OF sparing_create_snapshot v [unfolded backup_to_def create_backup_def], of "files backup_vault" "{}"]
      inodes_ok_backup_vault by simp
  then have "inodes_ok (files v)" by (simp add: spares_def)
  ultimately show ?thesis using that v s s' r by simp
qed

theorem backup_restore_roundtrip_witness:
  "\<exists>v s s'. backup_to toy_crypto sample_snapshots sample_os (table_print sample_backup_json) ''/b'' backup_vault
        = (v, Inr sample_backup_manifest)
     \<and> read_from (table_parse sample_backup_json) (manifest_path ''/b'') (env.truncate v) = (s, Inr sample_backup_manifest)
     \<and> restore_from_backup toy_crypto sample_snapshots sample_os ''/b'' sample_backup_manifest ''/r'' s = (s', Inr ())
     \<and> and_then (fs_read ''/r'' (files s')) (\<lambda>bs. ok_or OtherIoError (database_in sample_snapshots bs)) = Inr backup_database"
proof -
  obtain v s s' where run:
    "backup_to toy_crypto sample_snapshots sample_os (table_print sample_backup_json) ''/b'' backup_vault = (v, Inr sample_backup_manifest)"
    "read_from (table_parse sample_backup_json) (manifest_path ''/b'') (env.truncate v) = (s, Inr sample_backup_manifest)"
    "restore_from_backup toy_crypto sample_snapshots sample_os ''/b'' sample_backup_manifest ''/r'' s = (s', Inr ())"
    and fs: "files s = files v" "inodes_ok (files s)"
    by (rule sample_backup)
  have "codec_law (table_print sample_backup_json) (table_parse sample_backup_json)" by (rule table_codec) simp
  moreover have t: "tables backup_vault = backup_database" by (simp add: backup_vault_def vault_of_def)
  then have "snapshot_law sample_snapshots (tables backup_vault)" by (simp add: snapshot_law_def sample_snapshots_def)
  ultimately show ?thesis
    using backup_restore_roundtrip [OF _ _ inodes_ok_backup_vault fs(2) run] run fs(1) t by auto
qed

theorem restore_accepts_only_manifest_witness:
  "\<exists>(s :: env) s'. restore_from_backup toy_crypto sample_snapshots sample_os ''/b'' sample_backup_manifest ''/r'' s = (s', Inr ())
     \<and> fs_read ''/r'' (files s') = Inr [1, 2, 3]"
proof -
  obtain s s' :: env where r: "restore_from_backup toy_crypto sample_snapshots sample_os ''/b'' sample_backup_manifest ''/r'' s = (s', Inr ())"
    and fs: "inodes_ok (files s)"
    by (rule sample_backup)
  from restore_accepts_only_manifest [OF fs r] r show ?thesis by (auto simp: sample_snapshots_def)
qed

theorem backup_never_overwrites_witness:
  "inodes_ok (files backup_vault)
   \<and> kept (files backup_vault) (files (fst (backup_to toy_crypto sample_snapshots sample_os (table_print []) ''/b'' backup_vault)))"
proof -
  have "inodes_ok (files (env.truncate backup_vault))" using inodes_ok_backup_vault by simp
  from backup_never_overwrites [OF inodes_ok_backup_vault this, THEN conjunct1] inodes_ok_backup_vault
  show ?thesis by (rule conjI [rotated])
qed

text \<open>A checkpoint that fails locks; a backup whose manifest cannot be written fails and does not.\<close>

theorem failure_locks_witness:
  "\<exists>v' w'. full_checkpoint (\<lambda>_. 1) sample_vault = (v', Inl Storage) \<and> requires_lock Storage \<and> status v' = StatusLocked
     \<and> backup_to toy_crypto sample_snapshots sample_os (table_print []) ''/b'' (backup_vault\<lparr>vt_root_key := Some []\<rparr>) = (w', Inl Storage)
     \<and> status w' = StatusUnlocked"
proof -
  let ?v = "backup_vault\<lparr>vt_root_key := Some []\<rparr>"
  obtain v' where v: "full_checkpoint (\<lambda>_. 1) sample_vault = (v', Inl Storage)"
    by (simp add: full_checkpoint_def require_root_key_def sample_vault_fields storage_full_checkpoint_def sql_query_def
        lock_after_failure_def tick_def)
  have "snd (backup_to toy_crypto sample_snapshots sample_os (table_print []) ''/b'' ?v) = Inl Storage" by code_simp
  then obtain w' where w: "backup_to toy_crypto sample_snapshots sample_os (table_print []) ''/b'' ?v = (w', Inl Storage)"
    by (metis prod.collapse)
  have "status ?v = StatusUnlocked" by (simp add: status_def)
  with v w failure_locks [of Storage] show ?thesis by (metis requires_lock.simps(4))
qed

end
