(* ===== verification/Vlt_Daemon.thy ===== *)
theory Vlt_Daemon
  imports Vlt_Backup
begin

text \<open>
  The daemon, \<open>crates/vlt1-daemon/src/lib.rs\<close>: its configuration and state, the requests it answers, binary
  upload and download, and the preparation of its socket. The state is the record behind the
  daemon's \<open>Arc\<close>: a mutex is its value with a flag that says whether it is poisoned. One connection is
  handled from start to end; how connections interleave is the subject of the theory on admission. What is
  outside the sources (the HTTP agent, base64, JSON, the database engine, the cryptographic primitives)
  is collected in the record \<open>services\<close>.
\<close>

section \<open>Configuration and state\<close>

record witness_config =
  wc_endpoint :: string
  wc_bearer_token :: string
  wc_public_key :: bytes
  wc_previous_public_key :: "bytes option"

record daemon_config =
  socket_path :: string
  vault_path :: string
  allowed_uid :: u32
  allow_shutdown :: bool
  dc_witness :: "witness_config option"
  max_connections :: nat
  io_timeout :: nat

definition DEFAULT_MAX_CONNECTIONS :: nat where
  "DEFAULT_MAX_CONNECTIONS = 32"

text \<open>Durations are in milliseconds.\<close>

definition DEFAULT_IO_TIMEOUT :: nat where
  "DEFAULT_IO_TIMEOUT = 5 * 1000"

definition for_current_user :: "u32 \<Rightarrow> string \<Rightarrow> string \<Rightarrow> daemon_config" where
  "for_current_user current_uid socket vault =
     \<lparr>socket_path = socket, vault_path = vault, allowed_uid = current_uid, allow_shutdown = False,
      dc_witness = None, max_connections = DEFAULT_MAX_CONNECTIONS, io_timeout = DEFAULT_IO_TIMEOUT\<rparr>"

record 'w daemon =
  dm_config :: daemon_config
  dm_vault :: vault
  dm_vault_poisoned :: bool
  dm_startup_scan :: string
  dm_verified_active_objects :: "u64 option"
  dm_recovery_poisoned :: bool
  dm_witness :: "https_provider option"
  dm_witness_poisoned :: bool
  dm_active_connections :: nat
  dm_long_operation_active :: bool
  dm_shutdown :: bool
  dm_world :: 'w

text \<open>\<open>dm_world\<close> is the state of what answers the witness requests.\<close>

record 'w services =
  sx_crypto :: crypto
  sx_engine :: engine
  sx_integrity_check :: "database \<Rightarrow> string"
  sx_checkpoint_busy :: "database \<Rightarrow> int"
  sx_snapshots :: snapshot_engine
  sx_os :: os
  sx_backup_json :: "backup_manifest \<Rightarrow> bytes option"
  sx_agent :: "'w http_agent"
  sx_base64_decode :: "string \<Rightarrow> bytes option"
  sx_base64_encode :: "bytes \<Rightarrow> string"
  sx_parse_request :: "bytes \<Rightarrow> request option"
  sx_print_response :: "response \<Rightarrow> bytes option"
  sx_parse_response :: "bytes \<Rightarrow> response option"

definition open_witness :: "daemon_config \<Rightarrow> https_provider option result" where
  "open_witness cfg =
     (case dc_witness cfg of
        None \<Rightarrow> Inr None
      | Some policy \<Rightarrow>
          and_then (new_with_previous (wc_endpoint policy) (wc_bearer_token policy) (wc_public_key policy)
            (wc_previous_public_key policy)) (\<lambda>p. Inr (Some p)))"

definition daemon_open ::
    "'w services \<Rightarrow> daemon_config \<Rightarrow> 'w \<Rightarrow> database connection \<Rightarrow> database connection \<times> 'w daemon result" where
  "daemon_open X cfg world c =
     (if max_connections cfg = 0 \<or> io_timeout cfg = 0 then (c, Inl (InvalidInput ''daemon resource configuration''))
      else
        then_do (vault_open (sx_crypto X) (sx_engine X) (sx_integrity_check X) (vault_path cfg)) (\<lambda>v c.
          (c, and_then (open_witness cfg) (\<lambda>w.
            Inr \<lparr>dm_config = cfg, dm_vault = v, dm_vault_poisoned = False, dm_startup_scan = ''startup_integrity_ok'',
              dm_verified_active_objects = None, dm_recovery_poisoned = False, dm_witness = w,
              dm_witness_poisoned = False, dm_active_connections = 0, dm_long_operation_active = False,
              dm_shutdown = False, dm_world = world\<rparr>))) c)"

section \<open>Failures\<close>

definition failure_of :: "error_code \<Rightarrow> string \<Rightarrow> failure" where
  "failure_of code message = \<lparr>fl_code = code, fl_message = message\<rparr>"

definition error_response :: "error_code \<Rightarrow> string \<Rightarrow> response" where
  "error_response code message = ResponseError (failure_of code message)"

definition overloaded_response :: "string \<Rightarrow> response" where
  "overloaded_response message = error_response CodeOverloaded message"

fun map_vault_error :: "vault_error \<Rightarrow> failure" where
  "map_vault_error Locked = failure_of CodeLocked ''vault is locked''"
| "map_vault_error NotFound = failure_of CodeNotFound ''requested object was not found''"
| "map_vault_error (InvalidInput _) = failure_of CodeInvalidInput ''request input is invalid''"
| "map_vault_error UnlockFailed = failure_of CodeVerification ''vault verification failed''"
| "map_vault_error Authentication = failure_of CodeVerification ''vault verification failed''"
| "map_vault_error (Invariant _) = failure_of CodeVerification ''vault verification failed''"
| "map_vault_error (InvalidFormat _) = failure_of CodeVerification ''vault format verification failed''"
| "map_vault_error Storage = failure_of CodeStorage ''vault storage operation failed''"
| "map_vault_error WitnessUnavailable = failure_of CodeWitnessUnavailable ''freshness witness is unavailable''"
| "map_vault_error WitnessConflict =
     failure_of CodeWitnessConflict ''freshness witness state conflicts with local vault state''"

definition result_response :: "success result \<Rightarrow> response" where
  "result_response r = (case r of Inr s \<Rightarrow> ResponseOk s | Inl e \<Rightarrow> ResponseError (map_vault_error e))"

text \<open>After the check of its length and characters, a pair of digits always parses.\<close>

definition daemon_parse_object_id :: "string \<Rightarrow> response + object_id" where
  "daemon_parse_object_id text =
     (if length text \<noteq> 32 \<or> \<not> list_all is_ascii_hexdigit text
      then Inl (error_response CodeInvalidInput ''object identifier must be 32 hexadecimal characters'')
      else case and_then (parse_pairs [] text) from_slice of
        Inl _ \<Rightarrow> Inl (error_response CodeInvalidInput ''object identifier is malformed'')
      | Inr oid \<Rightarrow> Inr oid)"

section \<open>Access to the guarded state\<close>

definition with_vault :: "(vault \<Rightarrow> vault \<times> success result) \<Rightarrow> 'w daemon \<Rightarrow> 'w daemon \<times> response" where
  "with_vault operation d =
     (if dm_vault_poisoned d then (d, error_response CodeInternal ''daemon state is unavailable'')
      else case operation (dm_vault d) of (v, r) \<Rightarrow> (d\<lparr>dm_vault := v\<rparr>, result_response r))"

definition with_vault_result :: "(vault \<Rightarrow> vault \<times> u64 result) \<Rightarrow> 'w daemon \<Rightarrow> 'w daemon \<times> u64 result" where
  "with_vault_result operation d =
     (if dm_vault_poisoned d then (d, Inl Storage)
      else case operation (dm_vault d) of (v, r) \<Rightarrow> (d\<lparr>dm_vault := v\<rparr>, r))"

definition with_witness ::
    "(https_provider \<Rightarrow> vault \<times> 'w \<Rightarrow> (vault \<times> 'w) \<times> success result) \<Rightarrow> 'w daemon \<Rightarrow> 'w daemon \<times> response" where
  "with_witness operation d =
     (case dm_witness d of
        None \<Rightarrow> (d, error_response CodePolicy ''external witness is not configured'')
      | Some p \<Rightarrow>
          if dm_witness_poisoned d then (d, error_response CodeInternal ''witness state is unavailable'')
          else if dm_vault_poisoned d then (d, error_response CodeInternal ''daemon state is unavailable'')
          else case operation p (dm_vault d, dm_world d) of
            ((v, w), r) \<Rightarrow> (d\<lparr>dm_vault := v, dm_world := w\<rparr>, result_response r))"

definition with_witness_result ::
    "(https_provider \<Rightarrow> vault \<times> 'w \<Rightarrow> (vault \<times> 'w) \<times> u64 result) \<Rightarrow> 'w daemon \<Rightarrow> 'w daemon \<times> u64 result" where
  "with_witness_result operation d =
     (case dm_witness d of
        None \<Rightarrow> (d, Inl WitnessUnavailable)
      | Some p \<Rightarrow>
          if dm_witness_poisoned d then (d, Inl Storage)
          else if dm_vault_poisoned d then (d, Inl Storage)
          else case operation p (dm_vault d, dm_world d) of
            ((v, w), r) \<Rightarrow> (d\<lparr>dm_vault := v, dm_world := w\<rparr>, r))"

text \<open>The permit of a long operation is taken before it and given back when it returns.\<close>

definition try_acquire_long_operation :: "'w daemon \<Rightarrow> 'w daemon option" where
  "try_acquire_long_operation d =
     (if dm_long_operation_active d then None else Some (d\<lparr>dm_long_operation_active := True\<rparr>))"

definition drop_long_operation :: "'w daemon \<Rightarrow> 'w daemon" where
  "drop_long_operation d = d\<lparr>dm_long_operation_active := False\<rparr>"

abbreviation (input) BUSY :: string where
  "BUSY \<equiv> ''daemon long operation is in progress''"

abbreviation (input) succeed :: "success \<Rightarrow> 's \<Rightarrow> 's \<times> success result" where
  "succeed s \<equiv> lift_result (Inr s)"

section \<open>Requests\<close>

definition daemon_status :: "'w daemon \<Rightarrow> response" where
  "daemon_status d =
     (if dm_long_operation_active d then overloaded_response BUSY
      else if dm_vault_poisoned d then error_response CodeInternal ''daemon state is unavailable''
      else if dm_recovery_poisoned d then error_response CodeInternal ''daemon recovery state is unavailable''
      else ResponseOk (ScStatus \<lparr>st_format = ''VLT/1'', st_vault_id = to_hex (vault_id_of (dm_vault d)),
        st_lifecycle = (case status (dm_vault d) of StatusLocked \<Rightarrow> ''locked'' | StatusUnlocked \<Rightarrow> ''unlocked''),
        st_recovery = dm_startup_scan d, st_verified_active_objects = dm_verified_active_objects d\<rparr>))"

definition daemon_unlock :: "'w services \<Rightarrow> string \<Rightarrow> 'w daemon \<Rightarrow> 'w daemon \<times> response" where
  "daemon_unlock X passphrase d =
     (let C = sx_crypto X; A = sx_agent X in
      if dm_witness d \<noteq> None then
        with_witness (\<lambda>p.
          then_do (on_vault (unlock C passphrase)) (\<lambda>_.
          then_do (recover_pending_witness_publications C (https_issue_receipt C A p)) (\<lambda>_.
          then_do (verify_active_objects_with_witness C (https_object_head C A p)) (\<lambda>_.
          succeed ScEmpty)))) d
      else with_vault (then_do (unlock C passphrase) (\<lambda>_. succeed ScEmpty)) d)"

definition daemon_verify :: "'w services \<Rightarrow> 'w daemon \<Rightarrow> 'w daemon \<times> response" where
  "daemon_verify X d =
     (case try_acquire_long_operation d of
        None \<Rightarrow> (d, overloaded_response BUSY)
      | Some d \<Rightarrow>
          (case (if dm_witness d \<noteq> None
                 then with_witness_result (\<lambda>p. verify_active_objects_with_witness (sx_crypto X)
                        (https_object_head (sx_crypto X) (sx_agent X) p)) d
                 else with_vault_result (verify_active_objects (sx_crypto X)) d) of
             (d, Inr active_objects) \<Rightarrow>
               if dm_recovery_poisoned d
               then (drop_long_operation d, error_response CodeInternal ''daemon recovery state is unavailable'')
               else (drop_long_operation (d\<lparr>dm_verified_active_objects := Some active_objects\<rparr>),
                     ResponseOk (ScVerified active_objects))
           | (d, Inl e) \<Rightarrow> (drop_long_operation d, ResponseError (map_vault_error e))))"

definition daemon_backup :: "'w services \<Rightarrow> string \<Rightarrow> 'w daemon \<Rightarrow> 'w daemon \<times> response" where
  "daemon_backup X destination d =
     (case try_acquire_long_operation d of
        None \<Rightarrow> (d, overloaded_response BUSY)
      | Some d \<Rightarrow>
          (case with_vault (then_do (backup_to (sx_crypto X) (sx_snapshots X) (sx_os X) (sx_backup_json X) destination)
             (\<lambda>m. succeed (ScBackup (bm_format m) (bm_database_sha256 m) (bm_database_bytes m)))) d of
             (d, rsp) \<Rightarrow> (drop_long_operation d, rsp)))"

definition daemon_put :: "'w services \<Rightarrow> string \<Rightarrow> string \<Rightarrow> 'w daemon \<Rightarrow> 'w daemon \<times> response" where
  "daemon_put X object_text plaintext_b64 d =
     (let C = sx_crypto X in
      case daemon_parse_object_id object_text of
        Inl rsp \<Rightarrow> (d, rsp)
      | Inr oid \<Rightarrow>
          (case sx_base64_decode X plaintext_b64 of
             None \<Rightarrow> (d, error_response CodeInvalidInput ''plaintext is not valid base64'')
           | Some plaintext \<Rightarrow>
               if dm_witness d \<noteq> None then
                 with_witness (\<lambda>p. then_do (put_with_witness C (https_issue_receipt C (sx_agent X) p) oid plaintext)
                   (\<lambda>ver. succeed (ScPublished (to_hex ver)))) d
               else with_vault (then_do (put C oid plaintext) (\<lambda>ver. succeed (ScPublished (to_hex ver)))) d))"

definition daemon_get :: "'w services \<Rightarrow> string \<Rightarrow> 'w daemon \<Rightarrow> 'w daemon \<times> response" where
  "daemon_get X object_text d =
     (let C = sx_crypto X in
      case daemon_parse_object_id object_text of
        Inl rsp \<Rightarrow> (d, rsp)
      | Inr oid \<Rightarrow>
          if dm_witness d \<noteq> None then
            with_witness (\<lambda>p.
              then_do (verify_active_objects_with_witness C (https_object_head C (sx_agent X) p)) (\<lambda>_.
              then_do (on_vault (get C oid)) (\<lambda>plaintext.
              succeed (ScPlaintext (sx_base64_encode X plaintext))))) d
          else with_vault (then_do (get C oid) (\<lambda>plaintext. succeed (ScPlaintext (sx_base64_encode X plaintext)))) d)"

definition daemon_dispatch :: "'w services \<Rightarrow> request \<Rightarrow> 'w daemon \<Rightarrow> 'w daemon \<times> response" where
  "daemon_dispatch X rq d =
     (if dm_long_operation_active d \<and> rq \<noteq> RqShutdown then (d, overloaded_response BUSY)
      else case rq of
        RqStatus \<Rightarrow> (d, daemon_status d)
      | RqUnlock passphrase \<Rightarrow> daemon_unlock X passphrase d
      | RqLock \<Rightarrow> with_vault (\<lambda>v. (lock v, Inr ScEmpty)) d
      | RqPut object_text plaintext_b64 \<Rightarrow> daemon_put X object_text plaintext_b64 d
      | RqGet object_text \<Rightarrow> daemon_get X object_text d
      | RqPutStream _ \<Rightarrow> (d, error_response CodeProtocol ''streaming request was not handled as a stream'')
      | RqGetStream _ \<Rightarrow> (d, error_response CodeProtocol ''streaming request was not handled as a stream'')
      | RqRotatePassphrase current replacement \<Rightarrow>
          with_vault (then_do (rotate_passphrase (sx_crypto X) current replacement) (\<lambda>_. succeed ScEmpty)) d
      | RqVerify \<Rightarrow> daemon_verify X d
      | RqCheckpoint \<Rightarrow> with_vault (then_do (full_checkpoint (sx_checkpoint_busy X)) (\<lambda>_. succeed ScEmpty)) d
      | RqBackup destination \<Rightarrow> daemon_backup X destination d
      | RqShutdown \<Rightarrow>
          if allow_shutdown (dm_config d) then (d\<lparr>dm_shutdown := True\<rparr>, ResponseOk ScEmpty)
          else (d, error_response CodePolicy ''daemon shutdown is disabled by policy''))"

section \<open>Binary streams\<close>

record stream_reader =
  sr_stream :: channel
  sr_current :: bytes
  sr_offset :: nat
  sr_finished :: bool

definition stream_reader_new :: "channel \<Rightarrow> stream_reader" where
  "stream_reader_new ch = \<lparr>sr_stream = ch, sr_current = [], sr_offset = 0, sr_finished = False\<rparr>"

datatype fill_result = FillReady | FillEnd | FillFailed

lemma read_exact_shrinks:
  "read_exact n ch = (ch', r) \<Longrightarrow> length (incoming ch') \<le> length (incoming ch)"
  "read_exact n ch = (ch', Inr bs) \<Longrightarrow> length (incoming ch') + n = length (incoming ch)"
  by (auto simp: read_exact_def split: if_splits)

lemma read_stream_item_shrinks:
  assumes "read_stream_item parse ch = (ch', Inr (ItemData bs))"
  shows "length (incoming ch') < length (incoming ch) \<and> bs \<noteq> [] \<and> length bs \<le> MAX_STREAM_CHUNK_BYTES"
proof -
  from assms obtain ch1 lb where lb: "read_exact 4 ch = (ch1, Inr lb)"
    and rest: "(let len = from_be_bytes lb :: u32 in
       if len = STREAM_END then (\<lambda>ch. (ch, Inr ItemEnd))
       else if len = STREAM_ERROR then
         then_do (read_frame parse) (\<lambda>rsp ch. (ch, Inr (ItemError rsp)))
       else if unat len > MAX_STREAM_CHUNK_BYTES then (\<lambda>ch. (ch, Inl InvalidLength))
       else then_do (read_exact (unat len)) (\<lambda>data ch. (ch, Inr (ItemData data)))) ch1 = (ch', Inr (ItemData bs))"
    unfolding read_stream_item_def then_do_eq_Inr by blast
  let ?len = "from_be_bytes lb :: u32"
  from rest have d: "read_exact (unat ?len) ch1 = (ch', Inr bs)" "?len \<noteq> STREAM_END" "unat ?len \<le> MAX_STREAM_CHUNK_BYTES"
    by (auto simp: Let_def result_simps split: if_splits)
  from d(2) have "0 < unat ?len" by (simp add: STREAM_END_def unat_gt_0)
  with d read_exact_shrinks(2) [OF lb] read_exact_shrinks(2) [OF d(1)] show ?thesis
    by (auto simp: read_exact_Inr)
qed

text \<open>The loop of \<open>read\<close>, which looks for unread bytes.\<close>

function stream_reader_fill :: "(bytes \<Rightarrow> response option) \<Rightarrow> stream_reader \<Rightarrow> stream_reader \<times> fill_result" where
  "stream_reader_fill parse r =
     (if sr_offset r = length (sr_current r) then
        (let r = r\<lparr>sr_current := [], sr_offset := 0\<rparr> in
         if sr_finished r then (r, FillEnd)
         else case read_stream_item parse (sr_stream r) of
           (ch, Inr (ItemData data)) \<Rightarrow> stream_reader_fill parse (r\<lparr>sr_stream := ch, sr_current := data\<rparr>)
         | (ch, Inr ItemEnd) \<Rightarrow> (r\<lparr>sr_stream := ch, sr_finished := True\<rparr>, FillEnd)
         | (ch, Inr (ItemError _)) \<Rightarrow> (r\<lparr>sr_stream := ch\<rparr>, FillFailed)
         | (ch, Inl _) \<Rightarrow> (r\<lparr>sr_stream := ch\<rparr>, FillFailed))
      else (r, FillReady))"
  by pat_completeness auto
termination
  by (relation "measure (\<lambda>(_, r). length (incoming (sr_stream r)))")
     (auto dest!: read_stream_item_shrinks [OF sym])

declare stream_reader_fill.simps [simp del]

definition stream_reader_read ::
    "(bytes \<Rightarrow> response option) \<Rightarrow> nat \<Rightarrow> stream_reader \<Rightarrow> stream_reader \<times> read_result" where
  "stream_reader_read parse n r =
     (if n = 0 then (r, ReadOk [])
      else case stream_reader_fill parse r of
        (r, FillEnd) \<Rightarrow> (r, ReadOk [])
      | (r, FillFailed) \<Rightarrow> (r, ReadFailed)
      | (r, FillReady) \<Rightarrow>
          (let available = drop (sr_offset r) (sr_current r); copied = min (length available) n in
           (r\<lparr>sr_offset := sr_offset r + copied\<rparr>, ReadOk (take copied available))))"

text \<open>What the successive reads of a stream deliver, up to the first failure.\<close>

function channel_deliveries :: "(bytes \<Rightarrow> response option) \<Rightarrow> channel \<Rightarrow> delivery list" where
  "channel_deliveries parse ch =
     (case read_stream_item parse ch of
        (ch, Inr (ItemData data)) \<Rightarrow> Data data # channel_deliveries parse ch
      | (ch, Inr ItemEnd) \<Rightarrow> []
      | (ch, Inr (ItemError _)) \<Rightarrow> [Failed]
      | (ch, Inl _) \<Rightarrow> [Failed])"
  by pat_completeness auto
termination
  by (relation "measure (\<lambda>(_, ch). length (incoming ch))") (auto dest!: read_stream_item_shrinks [OF sym])

declare channel_deliveries.simps [simp del]

definition reader_deliveries :: "(bytes \<Rightarrow> response option) \<Rightarrow> stream_reader \<Rightarrow> delivery list" where
  "reader_deliveries parse r =
     (if sr_offset r < length (sr_current r) then [Data (drop (sr_offset r) (sr_current r))] else [])
     @ (if sr_finished r then [] else channel_deliveries parse (sr_stream r))"

primrec write_stream_chunks :: "bytes list \<Rightarrow> channel \<Rightarrow> channel \<times> bool" where
  "write_stream_chunks [] ch = (ch, True)"
| "write_stream_chunks (c # cs) ch =
     (case write_stream_chunk c ch of
        (ch, Inl _) \<Rightarrow> (ch, False)
      | (ch, Inr _) \<Rightarrow> write_stream_chunks cs ch)"

text \<open>\<open>write\<close> takes its whole buffer, so \<open>write_all\<close> is one call of it, or none for an empty buffer.\<close>

definition stream_writer_write :: "bytes \<Rightarrow> channel \<Rightarrow> channel \<times> bool" where
  "stream_writer_write buffer ch = write_stream_chunks (chunks MAX_STREAM_CHUNK_BYTES buffer) ch"

section \<open>Connections\<close>

datatype serve_error = SocketOption | ResponseWrite | StreamErrorWrite | StreamEndWrite

definition write_response :: "'w services \<Rightarrow> response \<Rightarrow> channel \<Rightarrow> channel \<times> (serve_error + unit)" where
  "write_response X rsp ch =
     (case write_frame (sx_print_response X) rsp ch of
        (ch, Inl _) \<Rightarrow> (ch, Inl ResponseWrite)
      | (ch, Inr u) \<Rightarrow> (ch, Inr u))"

definition write_stream_response :: "'w services \<Rightarrow> response \<Rightarrow> channel \<Rightarrow> channel \<times> (serve_error + unit)" where
  "write_stream_response X rsp ch =
     (case write_stream_error (sx_print_response X) rsp ch of
        (ch, Inl _) \<Rightarrow> (ch, Inl StreamErrorWrite)
      | (ch, Inr u) \<Rightarrow> (ch, Inr u))"

definition write_stream_failure :: "'w services \<Rightarrow> error_code \<Rightarrow> string \<Rightarrow> channel \<Rightarrow> channel \<times> (serve_error + unit)" where
  "write_stream_failure X code message = write_stream_response X (error_response code message)"

text \<open>Nothing reads from the connection after the upload, so how much of the input the reader consumed is not
  tracked.\<close>

definition put_stream_admitted ::
    "'w services \<Rightarrow> string \<Rightarrow> 'w daemon \<Rightarrow> channel \<Rightarrow> 'w daemon \<times> channel \<times> (serve_error + unit)" where
  "put_stream_admitted X object_text d ch =
     (case daemon_parse_object_id object_text of
        Inl rsp \<Rightarrow> (d, write_response X rsp ch)
      | Inr oid \<Rightarrow>
          (case write_response X (ResponseOk ScStreamReady) ch of
             (ch, Inl e) \<Rightarrow> (d, ch, Inl e)
           | (ch, Inr _) \<Rightarrow>
               if dm_vault_poisoned d then (d, write_stream_failure X CodeInternal ''daemon state is unavailable'' ch)
               else case put_from_reader (sx_crypto X) oid
                   (reader_deliveries (sx_parse_response X) (stream_reader_new ch)) (dm_vault d) of
                 (v, Inr ver) \<Rightarrow> (d\<lparr>dm_vault := v\<rparr>, write_response X (ResponseOk (ScPublished (to_hex ver))) ch)
               | (v, Inl e) \<Rightarrow> (d\<lparr>dm_vault := v\<rparr>, write_stream_response X (ResponseError (map_vault_error e)) ch)))"

definition put_stream ::
    "'w services \<Rightarrow> string \<Rightarrow> 'w daemon \<Rightarrow> channel \<Rightarrow> 'w daemon \<times> channel \<times> (serve_error + unit)" where
  "put_stream X object_text d ch =
     (case try_acquire_long_operation d of
        None \<Rightarrow> (d, write_response X (overloaded_response BUSY) ch)
      | Some d \<Rightarrow> (case put_stream_admitted X object_text d ch of (d, out) \<Rightarrow> (drop_long_operation d, out)))"

definition get_stream_admitted ::
    "'w services \<Rightarrow> string \<Rightarrow> 'w daemon \<Rightarrow> channel \<Rightarrow> 'w daemon \<times> channel \<times> (serve_error + unit)" where
  "get_stream_admitted X object_text d ch =
     (case daemon_parse_object_id object_text of
        Inl rsp \<Rightarrow> (d, write_response X rsp ch)
      | Inr oid \<Rightarrow>
          (case write_response X (ResponseOk ScStreamReady) ch of
             (ch, Inl e) \<Rightarrow> (d, ch, Inl e)
           | (ch, Inr _) \<Rightarrow>
               if dm_vault_poisoned d then (d, write_stream_failure X CodeInternal ''daemon state is unavailable'' ch)
               else case get_to_writer (sx_crypto X) stream_writer_write oid (dm_vault d) ch of
                 (v, ch, Inr _) \<Rightarrow>
                   (d\<lparr>dm_vault := v\<rparr>,
                    case write_stream_end ch of (ch, Inl _) \<Rightarrow> (ch, Inl StreamEndWrite) | (ch, Inr u) \<Rightarrow> (ch, Inr u))
               | (v, ch, Inl e) \<Rightarrow> (d\<lparr>dm_vault := v\<rparr>, write_stream_response X (ResponseError (map_vault_error e)) ch)))"

definition get_stream ::
    "'w services \<Rightarrow> string \<Rightarrow> 'w daemon \<Rightarrow> channel \<Rightarrow> 'w daemon \<times> channel \<times> (serve_error + unit)" where
  "get_stream X object_text d ch =
     (case try_acquire_long_operation d of
        None \<Rightarrow> (d, write_response X (overloaded_response BUSY) ch)
      | Some d \<Rightarrow> (case get_stream_admitted X object_text d ch of (d, out) \<Rightarrow> (drop_long_operation d, out)))"

text \<open>The peer is the uid that the socket reports, if it reports one.\<close>

definition authorize :: "u32 option \<Rightarrow> 'w daemon \<Rightarrow> bool" where
  "authorize peer d = (case peer of None \<Rightarrow> False | Some uid \<Rightarrow> uid = allowed_uid (dm_config d))"

definition serve_stream ::
    "'w services \<Rightarrow> bool \<Rightarrow> u32 option \<Rightarrow> 'w daemon \<Rightarrow> channel \<Rightarrow> 'w daemon \<times> channel \<times> (serve_error + unit)" where
  "serve_stream X timeouts_set peer d ch =
     (if \<not> timeouts_set then (d, ch, Inl SocketOption)
      else if \<not> authorize peer d then (d, write_response X (error_response CodeUnauthorized ''local peer is not authorized'') ch)
      else case read_frame (sx_parse_request X) ch of
        (ch, Inl _) \<Rightarrow> (d, write_response X (error_response CodeProtocol ''invalid local protocol request'') ch)
      | (ch, Inr (RqPutStream object_text)) \<Rightarrow> put_stream X object_text d ch
      | (ch, Inr (RqGetStream object_text)) \<Rightarrow> get_stream X object_text d ch
      | (ch, Inr rq) \<Rightarrow> (case daemon_dispatch X rq d of (d, rsp) \<Rightarrow> (d, write_response X rsp ch)))"

definition reject_overloaded :: "'w services \<Rightarrow> channel \<Rightarrow> channel" where
  "reject_overloaded X ch = fst (write_frame (sx_print_response X) (overloaded_response ''daemon connection limit reached'') ch)"

definition shutdown_requested :: "'w daemon \<Rightarrow> bool" where
  "shutdown_requested d = dm_shutdown d"

section \<open>The socket\<close>

datatype socket_error = SocketIo io_error | SocketExists | SocketInvalid string

fun check_socket_directories :: "file_system \<Rightarrow> path_component list list \<Rightarrow> socket_error + unit" where
  "check_socket_directories fs [] = Inr ()"
| "check_socket_directories fs (a # as) =
     (case symlink_metadata fs (path_string a) of
        Inl e \<Rightarrow> Inl (SocketIo e)
      | Inr m \<Rightarrow> if file_type m = Symlink \<or> file_type m \<noteq> Directory
                then Inl (SocketInvalid ''socket parent must be a direct directory path'')
                else check_socket_directories fs as)"

definition validate_socket_parent :: "file_system \<Rightarrow> string \<Rightarrow> socket_error + unit" where
  "validate_socket_parent fs path =
     and_then (ok_or (SocketInvalid ''socket path has no parent directory'') (parent (components path))) (\<lambda>p.
     check_socket_directories fs (ancestors (if p = [] then components ''.'' else p)))"

definition socket_call ::
    "(file_system \<Rightarrow> file_system \<times> (io_error + unit)) \<Rightarrow> 'z env_scheme \<Rightarrow> 'z env_scheme \<times> (socket_error + unit)" where
  "socket_call f s =
     (case tick s of (s, failed) \<Rightarrow>
        if failed then (s, Inl (SocketIo OtherIoError)) else
        case f (files s) of (fs, r) \<Rightarrow> (s\<lparr>files := fs\<rparr>, case r of Inl e \<Rightarrow> Inl (SocketIo e) | Inr u \<Rightarrow> Inr u))"

definition remove_file :: "string \<Rightarrow> file_system \<Rightarrow> file_system \<times> (io_error + unit)" where
  "remove_file path fs =
     (case fs_inode path fs of Inl e \<Rightarrow> (fs, Inl e) | Inr _ \<Rightarrow> (fs_unlink path fs, Inr ()))"

text \<open>\<open>UnixListener::bind\<close> creates the socket with the permission bits that the process mask leaves.\<close>

definition fs_bind :: "u32 \<Rightarrow> string \<Rightarrow> file_system \<Rightarrow> file_system \<times> (io_error + unit)" where
  "fs_bind masked path fs =
     (case fs_create path masked fs of
        (fs', Inl e) \<Rightarrow> (fs', Inl e)
      | (fs', Inr _) \<Rightarrow>
          (case lookup fs' path of
             Inl e \<Rightarrow> (fs', Inl e)
           | Inr i \<Rightarrow> (fs'\<lparr>inodes := (inodes fs')(i := (inodes fs' i)\<lparr>file_type := Socket\<rparr>)\<rparr>, Inr ())))"

definition bind_socket :: "u32 \<Rightarrow> string \<Rightarrow> 'z env_scheme \<Rightarrow> 'z env_scheme \<times> (socket_error + unit)" where
  "bind_socket masked path =
     then_do (\<lambda>s. (s, validate_socket_parent (files s) path)) (\<lambda>_.
     then_do (\<lambda>s.
       case symlink_metadata (files s) path of
         Inr m \<Rightarrow> if file_type m = Socket then socket_call (remove_file path) s else (s, Inl SocketExists)
       | Inl NotFoundError \<Rightarrow> (s, Inr ())
       | Inl e \<Rightarrow> (s, Inl (SocketIo e))) (\<lambda>_.
     then_do (socket_call (fs_bind masked path)) (\<lambda>_.
     socket_call (set_permissions path MODE_600))))"

definition ignore_not_found :: "socket_error \<Rightarrow> socket_error + unit" where
  "ignore_not_found e = (if e = SocketIo NotFoundError then Inr () else Inl e)"

text \<open>The end of \<open>serve\<close>, after the accept loop saw the request to shut down.\<close>

definition serve_cleanup :: "string \<Rightarrow> 'z env_scheme \<Rightarrow> 'z env_scheme \<times> (socket_error + unit)" where
  "serve_cleanup path s =
     (case socket_call (remove_file path) s of
        (s, Inl e) \<Rightarrow> (s, ignore_not_found e)
      | (s, Inr u) \<Rightarrow> (s, Inr u))"

section \<open>Start-up configuration\<close>

text \<open>\<open>crates/vlt1-daemon/src/main.rs\<close>. \<open>stat\<close> and \<open>read_to_string\<close> are what the operating system answers for a
  path, symbolic links followed. An error is the message the process ends with.\<close>

definition trim_text :: "string \<Rightarrow> string" where
  "trim_text s =
     (let blank = (\<lambda>c. c \<in> {CHR 0x09, CHR 0x0A, CHR 0x0B, CHR 0x0C, CHR 0x0D, CHR '' ''}) in
      rev (dropWhile blank (rev (dropWhile blank s))))"

definition read_secret ::
    "(string \<Rightarrow> metadata option) \<Rightarrow> (string \<Rightarrow> string option) \<Rightarrow> string \<Rightarrow> string + string" where
  "read_secret stat read_to_string path =
     and_then (ok_or (''cannot stat '' @ path) (stat path)) (\<lambda>m.
     if file_type m \<noteq> RegularFile then Inl (path @ '' is not a regular file'')
     else if mode m AND MODE_077 \<noteq> 0 then Inl (path @ '' must not be readable by group or other'')
     else
       and_then (ok_or (''cannot read '' @ path) (read_to_string path)) (\<lambda>text.
       let text = trim_text text in
       if text = [] then Inl (path @ '' is empty'') else Inr text))"

definition parse_hex32 :: "string \<Rightarrow> string + bytes" where
  "parse_hex32 value =
     (if length value \<noteq> 64 \<or> \<not> list_all (\<lambda>c. is_ascii_hexdigit c \<and> \<not> is_ascii_uppercase c) value
      then Inl ''witness public key must be 64 lowercase hexadecimal characters''
      else case parse_pairs [] value of Inl _ \<Rightarrow> Inl ''witness public key encoding'' | Inr bs \<Rightarrow> Inr bs)"

definition witness_config_of ::
    "(string \<Rightarrow> metadata option) \<Rightarrow> (string \<Rightarrow> string option) \<Rightarrow> string option \<Rightarrow> string option \<Rightarrow> string option
       \<Rightarrow> string option \<Rightarrow> string + witness_config option" where
  "witness_config_of stat read_to_string endpoint token_file public_key_file previous_file =
     (case (endpoint, token_file, public_key_file) of
        (None, None, None) \<Rightarrow>
          (if previous_file = None then Inr None
           else Inl ''witness endpoint, token file and primary public key file must be supplied together'')
      | (Some endpoint, Some token_file, Some public_key_file) \<Rightarrow>
          and_then (read_secret stat read_to_string token_file) (\<lambda>token.
          and_then (and_then (read_secret stat read_to_string public_key_file) (\<lambda>text. parse_hex32 (trim_text text))) (\<lambda>public_key.
          and_then (case previous_file of
              None \<Rightarrow> Inr None
            | Some path \<Rightarrow> and_then (and_then (read_secret stat read_to_string path) (\<lambda>text. parse_hex32 (trim_text text)))
                (\<lambda>key. Inr (Some key))) (\<lambda>previous.
          if previous = Some public_key then Inl ''witness previous public key must differ from the primary public key''
          else Inr (Some \<lparr>wc_endpoint = endpoint, wc_bearer_token = token, wc_public_key = public_key,
            wc_previous_public_key = previous\<rparr>))))
      | _ \<Rightarrow> Inl ''witness endpoint, token file and primary public key file must be supplied together'')"

definition main_config ::
    "(string \<Rightarrow> metadata option) \<Rightarrow> (string \<Rightarrow> string option) \<Rightarrow> u32 \<Rightarrow> string \<Rightarrow> string \<Rightarrow> u32 option \<Rightarrow> bool
       \<Rightarrow> string option \<Rightarrow> string option \<Rightarrow> string option \<Rightarrow> string option \<Rightarrow> string + daemon_config" where
  "main_config stat read_to_string current_uid vault socket allow_uid shutdown endpoint token_file public_key_file previous_file =
     (let cfg = for_current_user current_uid socket vault;
          cfg = (case allow_uid of None \<Rightarrow> cfg | Some uid \<Rightarrow> cfg\<lparr>allowed_uid := uid\<rparr>);
          cfg = cfg\<lparr>allow_shutdown := shutdown\<rparr> in
      and_then (witness_config_of stat read_to_string endpoint token_file public_key_file previous_file) (\<lambda>w.
      Inr (cfg\<lparr>dc_witness := w\<rparr>)))"

end
