(* ===== verification/Vlt_Daemon_Streams.thy ===== *)
theory Vlt_Daemon_Streams
  imports Vlt_Daemon
begin

text \<open>
  Binary streams through the daemon. The stream reader is shown to deliver what the client's stream items
  carry, however the reads cut them, and to end cleanly only at the client's end marker, so that an upload
  the daemon acknowledges is the client's complete stream; a download puts the contents of
  the object on the wire as stream items. What the vault expects of a writer is the locale
  \<open>plaintext_writer\<close>, which the stream writer satisfies.
\<close>

section \<open>The stream reader\<close>

lemma channel_deliveries_cases:
  "channel_deliveries parse ch =
     (case snd (read_stream_item parse ch) of
        Inr (ItemData data) \<Rightarrow> Data data # channel_deliveries parse (fst (read_stream_item parse ch))
      | Inr ItemEnd \<Rightarrow> []
      | _ \<Rightarrow> [Failed])"
  by (subst channel_deliveries.simps) (auto split: prod.splits sum.splits stream_item.splits)

lemma stream_reader_fill_deliveries:
  assumes "stream_reader_fill parse r = (r', res)" "sr_offset r \<le> length (sr_current r)"
  shows "(res = FillReady \<longrightarrow> sr_offset r' < length (sr_current r') \<and> reader_deliveries parse r' = reader_deliveries parse r)
    \<and> (res = FillEnd \<longrightarrow> reader_deliveries parse r = [] \<and> reader_deliveries parse r' = [] \<and> sr_offset r' = length (sr_current r'))
    \<and> (res = FillFailed \<longrightarrow> reader_deliveries parse r = [Failed] \<and> sr_offset r' = length (sr_current r'))"
  using assms
proof (induction parse r rule: stream_reader_fill.induct)
  case (1 parse r)
  show ?case
  proof (cases "sr_offset r = length (sr_current r)")
    case True
    let ?r = "r\<lparr>sr_current := [], sr_offset := 0\<rparr>"
    obtain ch item where item: "read_stream_item parse (sr_stream r) = (ch, item)" by force
    note step = 1(2) [unfolded stream_reader_fill.simps [of parse r]]
    note cd = channel_deliveries_cases [of parse "sr_stream r", unfolded item]
    show ?thesis
    proof (cases "sr_finished r")
      case False
      show ?thesis
      proof (cases item)
        case (Inr it)
        show ?thesis
        proof (cases it)
          case (ItemData data)
          let ?n = "?r\<lparr>sr_stream := ch, sr_current := data\<rparr>"
          have "reader_deliveries parse ?n = reader_deliveries parse r"
            using read_stream_item_shrinks [OF item [unfolded Inr ItemData]] cd True False Inr ItemData
            by (simp add: reader_deliveries_def)
          moreover have "stream_reader_fill parse ?n = (r', res)"
            using step True False item Inr ItemData by simp
          ultimately show ?thesis
            using 1(1) [OF True refl _ _ Inr ItemData, of ch] item False by simp
        qed (use step True False item Inr cd in \<open>auto simp: reader_deliveries_def\<close>)
      qed (use step True False item cd in \<open>auto simp: reader_deliveries_def\<close>)
    qed (use step True in \<open>auto simp: reader_deliveries_def\<close>)
  next
    case False
    with 1(2,3) show ?thesis by (subst (asm) stream_reader_fill.simps) auto
  qed
qed

text \<open>The daemon's stream reader refines the list of deliveries that the vault's upload loop is stated over: a read
  returns the bytes the list delivers next and leaves a reader of the remaining list, it reports the end
  only when nothing is left, and it fails when the list does.\<close>

theorem stream_reader_refines:
  assumes "0 < n" "sr_offset r \<le> length (sr_current r)" "stream_reader_read parse n r = (r', res)"
  shows "sr_offset r' \<le> length (sr_current r')
    \<and> (case res of
         ReadOk bs \<Rightarrow> reader_read n (reader_deliveries parse r) = (reader_deliveries parse r', ReadOk bs)
           \<and> (bs = [] \<longleftrightarrow> reader_deliveries parse r = [])
       | ReadFailed \<Rightarrow> reader_read n (reader_deliveries parse r) = ([], ReadFailed)
       | ReadInterrupted \<Rightarrow> False)"
proof -
  obtain r1 f where f: "stream_reader_fill parse r = (r1, f)" by force
  note fill = stream_reader_fill_deliveries [OF f assms(2)]
  show ?thesis
  proof (cases f)
    case FillReady
    let ?av = "drop (sr_offset r1) (sr_current r1)"
    have r': "r' = r1\<lparr>sr_offset := sr_offset r1 + min (length ?av) n\<rparr>" "res = ReadOk (take (min (length ?av) n) ?av)"
      using assms(1,3) f FillReady by (auto simp: stream_reader_read_def Let_def)
    have "reader_deliveries parse r = reader_deliveries parse r1" using fill FillReady by simp
    also have "\<dots> = Data ?av # (if sr_finished r1 then [] else channel_deliveries parse (sr_stream r1))"
      using fill FillReady by (simp add: reader_deliveries_def [of parse r1])
    finally have "reader_deliveries parse r = \<dots>" .
    moreover have "reader_deliveries parse r' =
        (if length ?av \<le> n then [] else [Data (drop n ?av)]) @ (if sr_finished r1 then [] else channel_deliveries parse (sr_stream r1))"
      using fill FillReady by (auto simp: r' reader_deliveries_def min_def add.commute)
    ultimately show ?thesis
      using fill FillReady assms(1) by (auto simp: r' min_def)
  qed (use assms(1,3) f fill in \<open>auto simp: stream_reader_read_def\<close>)
qed

section \<open>What the client sent\<close>

abbreviation stream_bytes :: "bytes list \<Rightarrow> bytes" where
  "stream_bytes cs \<equiv> concat (map prefixed cs)"

abbreviation stream_chunk_ok :: "bytes \<Rightarrow> bool" where
  "stream_chunk_ok c \<equiv> c \<noteq> [] \<and> length c \<le> MAX_STREAM_CHUNK_BYTES"

lemma read_stream_item_Data:
  assumes "read_stream_item parse ch = (ch', Inr (ItemData bs))"
  shows "incoming ch = prefixed bs @ incoming ch' \<and> stream_chunk_ok bs"
proof -
  from assms obtain ch1 lb where lb: "read_exact 4 ch = (ch1, Inr lb)"
    and d: "read_exact (unat (from_be_bytes lb :: u32)) ch1 = (ch', Inr bs)"
    by (auto simp: read_stream_item_def Let_def result_simps split: if_splits)
  have "length lb = 4" "incoming ch = lb @ incoming ch1" using lb by (auto simp: read_exact_Inr)
  moreover have "length bs = unat (from_be_bytes lb :: u32)" "incoming ch1 = bs @ incoming ch'"
    using d by (auto simp: read_exact_Inr)
  ultimately show ?thesis
    using read_stream_item_shrinks [OF assms] by (simp add: prefixed_def u32_to_be_bytes_from)
qed

lemma read_stream_item_End:
  assumes "read_stream_item parse ch = (ch', Inr ItemEnd)"
  shows "incoming ch = u32_to_be_bytes STREAM_END @ incoming ch'"
proof -
  from assms obtain lb where lb: "read_exact 4 ch = (ch', Inr lb)" "(from_be_bytes lb :: u32) = STREAM_END"
    by (auto simp: read_stream_item_def Let_def result_simps split: if_splits)
  then have "length lb = 4" "incoming ch = lb @ incoming ch'" by (auto simp: read_exact_Inr)
  with lb(2) show ?thesis by (metis u32_to_be_bytes_from)
qed

text \<open>Deliveries without a failure come from a complete stream.\<close>

lemma complete_stream:
  "Failed \<notin> set (channel_deliveries parse ch) \<Longrightarrow>
     \<exists>cs rest. incoming ch = stream_bytes cs @ u32_to_be_bytes STREAM_END @ rest
       \<and> list_all stream_chunk_ok cs \<and> channel_deliveries parse ch = map Data cs"
proof (induction parse ch rule: channel_deliveries.induct)
  case (1 parse ch)
  obtain ch' item where item: "read_stream_item parse ch = (ch', item)" by force
  note cd = channel_deliveries_cases [of parse ch, unfolded item, simplified]
  from 1(2) cd consider (data) data where "item = Inr (ItemData data)" | (last) "item = Inr ItemEnd"
    by (auto split: sum.splits stream_item.splits)
  then show ?case
  proof cases
    case (data data)
    with 1(2) cd have nf: "Failed \<notin> set (channel_deliveries parse ch')" by simp
    from 1(1) [OF item [symmetric] data refl nf] obtain cs rest where
      "incoming ch' = stream_bytes cs @ u32_to_be_bytes STREAM_END @ rest" "list_all stream_chunk_ok cs"
      "channel_deliveries parse ch' = map Data cs" by blast
    with read_stream_item_Data [OF item [unfolded data]] cd data show ?thesis
      by (intro exI [of _ "data # cs"] exI [of _ rest]) simp
  next
    case last
    with read_stream_item_End [OF item [unfolded last]] cd show ?thesis
      by (intro exI [of _ "[]"] exI [of _ "incoming ch'"]) simp
  qed
qed

lemma stream_delivered:
  "incoming ch = stream_bytes cs @ u32_to_be_bytes STREAM_END @ rest \<Longrightarrow> list_all stream_chunk_ok cs \<Longrightarrow>
     channel_deliveries parse ch = map Data cs"
proof (induction cs arbitrary: ch)
  case Nil
  then show ?case
    by (subst channel_deliveries.simps) (simp add: read_stream_item_end [of ch rest])
next
  case (Cons c cs)
  let ?rest = "stream_bytes cs @ u32_to_be_bytes STREAM_END @ rest"
  have "read_stream_item parse ch = (ch\<lparr>incoming := ?rest\<rparr>, Inr (ItemData c))"
    using Cons.prems by (intro read_stream_item_chunk) simp_all
  with Cons.IH [of "ch\<lparr>incoming := ?rest\<rparr>"] Cons.prems show ?case
    by (subst channel_deliveries.simps) simp
qed

lemma channel_deliveries_honest: "honest_reader (channel_deliveries parse ch)"
proof (induction parse ch rule: channel_deliveries.induct)
  case (1 parse ch)
  show ?case
    by (subst channel_deliveries.simps)
       (use 1 in \<open>auto simp: honest_reader_def dest: read_stream_item_shrinks read_stream_item_shrinks [OF sym] split: prod.splits sum.splits stream_item.splits\<close>)
qed

lemma new_reader_deliveries [simp]: "reader_deliveries parse (stream_reader_new ch) = channel_deliveries parse ch"
  by (simp add: reader_deliveries_def stream_reader_new_def)

lemma delivered_map_Data [simp]: "delivered (map Data cs) = concat cs"
  by (induction cs) auto

section \<open>Streams that fail\<close>

lemma reader_read_failed:
  assumes "reader_read n rs = (rs', res)" "honest_reader rs" "0 < n" "Failed \<in> set rs"
  shows "res = ReadOk bs \<Longrightarrow> bs \<noteq> [] \<and> Failed \<in> set rs'" "res = ReadInterrupted \<Longrightarrow> Failed \<in> set rs'"
  using assms by (induction n rs rule: reader_read.induct) (auto simp: honest_reader_def split: if_splits)

lemma read_next_chunk_failed:
  assumes "read_next_chunk n filled rs = (rs', Inr buf)" "honest_reader rs" "Failed \<in> set rs" "length filled \<le> n"
  shows "length buf = n \<and> Failed \<in> set rs'"
  using assms
proof (induction n filled rs arbitrary: rs' buf rule: read_next_chunk.induct)
  case (1 n filled rs)
  obtain rs1 res where r: "reader_read (n - length filled) rs = (rs1, res)" by force
  note step = 1(3) [unfolded read_next_chunk.simps [of n filled rs]]
  show ?case
  proof (cases "length filled < n")
    case True
    then have "0 < n - length filled" by simp
    note read = reader_read_failed [OF r 1(4) this 1(5)] and honest = reader_read_delivered(1) [OF r 1(4) this]
    show ?thesis
    proof (cases res)
      case (ReadOk bs)
      then have bs: "bs \<noteq> []" "Failed \<in> set rs1" using read(1) by auto
      with step True r ReadOk have rest: "read_next_chunk n (filled @ bs) rs1 = (rs', Inr buf)" by simp
      have "length (filled @ bs) \<le> n" using reader_read_size(1) [OF r [unfolded ReadOk]] True by auto
      from 1(1) [OF True r [symmetric] ReadOk bs(1) rest honest bs(2) this] show ?thesis .
    next
      case ReadInterrupted
      with step True r have rest: "read_next_chunk n filled rs1 = (rs', Inr buf)" by simp
      from 1(2) [OF True r [symmetric] ReadInterrupted rest honest read(2) [OF ReadInterrupted] 1(6)] show ?thesis .
    qed (use step True r in simp)
  qed (use step 1(5,6) in auto)
qed

lemma stream_parts_failed:
  "stream_parts n rs = Some parts \<Longrightarrow> honest_reader rs \<Longrightarrow> 0 < n \<Longrightarrow> Failed \<notin> set rs"
proof (induction n rs arbitrary: parts rule: stream_parts.induct)
  case (1 n rs)
  then obtain rs' buf where r: "read_next_chunk n [] rs = (rs', Inr buf)"
    by (subst (asm) (2) stream_parts.simps) (auto split: prod.splits sum.splits)
  note step = 1(2) [unfolded stream_parts.simps [of n rs] r, simplified]
  show ?case
  proof
    assume "Failed \<in> set rs"
    with read_next_chunk_failed [OF r 1(3)] have f: "length buf = n" "Failed \<in> set rs'" by auto
    with 1(4) have ne: "buf \<noteq> []" by auto
    with step obtain rest where rest: "stream_parts n rs' = Some rest" by auto
    have "honest_reader rs'" using read_next_chunk_delivered [OF r 1(3)] by simp
    from 1(1) [OF r [symmetric] refl ne rest this 1(4)] f(2) show False by contradiction
  qed
qed

section \<open>Uploads\<close>

text \<open>A stored upload is the client's complete stream.\<close>

lemma upload_stored:
  assumes "aead_correct C" "hash_width C" "db_ok (tables v)"
    and "put_from_reader C oid (channel_deliveries parse ch) v = (v', Inr ver)"
  obtains rk cs rest where "vt_root_key v = Some rk" "vt_root_key v' = Some rk" "vault_id_of v' = vault_id_of v"
    "incoming ch = stream_bytes cs @ u32_to_be_bytes STREAM_END @ rest" "list_all stream_chunk_ok cs"
    "contents C rk (vault_id_of v) (tables v') = (contents C rk (vault_id_of v) (tables v))(oid \<mapsto> concat cs)"
    "db_ok (tables v')" "frozen (tables v) (tables v')"
proof -
  let ?rs = "channel_deliveries parse ch"
  from assms(4) have "put_from_reader_inner C oid ?rs DEFAULT_CHUNK_SIZE v = (v', Inr ver)"
    by (simp add: put_from_reader_def put_from_reader_with_chunk_size_def)
  with assms(1) show thesis
  proof (cases rule: put_from_reader_cases)
    case (committed rk s cs u)
    have h: "honest_reader ?rs" by (rule channel_deliveries_honest)
    from committed(2) obtain parts where "stream_parts DEFAULT_CHUNK_SIZE ?rs = Some parts" by (auto simp: streams_def)
    then have "Failed \<notin> set ?rs" by (rule stream_parts_failed [OF _ h]) (simp add: DEFAULT_CHUNK_SIZE_def)
    from complete_stream [OF this] obtain xs rest where
      wire: "incoming ch = stream_bytes xs @ u32_to_be_bytes STREAM_END @ rest" "list_all stream_chunk_ok xs" "?rs = map Data xs"
      by blast
    have enc: "encrypts C rk (vault_id_of v) s cs (concat xs)"
      using committed(2) h wire(3) by (simp add: streams_def)
    have "contents C rk (vault_id_of v) (tables v') = (contents C rk (vault_id_of v) (tables v))(oid \<mapsto> concat xs)"
      using contents_published [OF assms(1,2) enc committed(4) assms(3)] committed(3,5) by simp
    moreover have "db_ok (tables v')" "frozen (tables v) (tables v')"
      using committed(4,5) assms(3) by (auto simp: db_ok_published frozen_published publishable_def)
    moreover have "vt_root_key v' = Some rk" using committed(1,6) by (simp add: same_identity_def)
    ultimately show thesis using that committed(1) wire(1,2) same_identity_id [OF committed(6)] by blast
  qed simp
qed

section \<open>What a client reads\<close>

lemma write_response_Inr:
  assumes "write_response X rsp ch = (ch', Inr u)"
  obtains body where "sx_print_response X rsp = Some body" "body \<noteq> []" "length body \<le> MAX_FRAME_BYTES"
    "sends (prefixed body) ch ch'"
  using assms by (auto simp: write_response_def split: prod.splits sum.splits elim!: write_frame_Inr)

lemma write_stream_response_Inr:
  assumes "write_stream_response X rsp ch = (ch', Inr u)"
  obtains body where "sx_print_response X rsp = Some body" "body \<noteq> []" "length body \<le> MAX_FRAME_BYTES"
    "sends (u32_to_be_bytes STREAM_ERROR @ prefixed body) ch ch'"
  using assms by (auto simp: write_stream_response_def split: prod.splits sum.splits elim!: write_stream_error_Inr)

lemma client_reads_response:
  assumes "codec_law (sx_print_response X) parse" "write_response X rsp ch = (ch', Inr u)" "incoming rd = sent ch ch' @ rest"
  shows "read_frame parse rd = (rd\<lparr>incoming := rest\<rparr>, Inr rsp)"
  using assms(2)
proof (rule write_response_Inr)
  fix body assume b: "sx_print_response X rsp = Some body" "body \<noteq> []" "length body \<le> MAX_FRAME_BYTES" "sends (prefixed body) ch ch'"
  with assms(3) have "incoming rd = prefixed body @ rest" by (simp add: sent_sends)
  from read_frame_prefixed [OF this b(2,3), of parse] codec_lawD [OF assms(1) b(1)] show ?thesis by simp
qed

text \<open>The frame reader takes the marker of a stream error for a length out of range.\<close>

lemma read_frame_stream_error:
  assumes "incoming rd = u32_to_be_bytes STREAM_ERROR @ rest"
  shows "read_frame parse rd = (rd\<lparr>incoming := rest\<rparr>, Inl InvalidLength)"
  using read_exact_append [OF _ assms, of 4] stream_markers(3) by (simp add: read_frame_def)

lemma sends_sent: "write_response X rsp ch = (ch', Inr u) \<Longrightarrow> outgoing ch' = outgoing ch @ sent ch ch' \<and> incoming ch' = incoming ch"
  by (erule write_response_Inr) (simp add: sends_def sent_def)

lemma sent_append:
  assumes "outgoing b = outgoing a @ sent a b" "outgoing c = outgoing b @ sent b c"
  shows "sent a c = sent a b @ sent b c"
proof -
  have "outgoing c = outgoing a @ sent a b @ sent b c" using assms by simp
  then show ?thesis unfolding sent_def [of a c] by simp
qed

lemma client_misreads_error:
  assumes "codec_law (sx_print_response X) parse" "write_response X rsp ch = (ch1, Inr u)"
    and "write_stream_response X err ch1 = (ch', Inr u')" "incoming rd = sent ch ch'" "read_frame parse rd = (rd1, r)"
  shows "\<exists>rd2. read_frame parse rd1 = (rd2, Inl InvalidLength)"
  using assms(3)
proof (rule write_stream_response_Inr)
  fix body assume s: "sends (u32_to_be_bytes STREAM_ERROR @ prefixed body) ch1 ch'"
  have "outgoing ch1 = outgoing ch @ sent ch ch1" using sends_sent [OF assms(2)] by simp
  then have "sent ch ch' = sent ch ch1 @ u32_to_be_bytes STREAM_ERROR @ prefixed body"
    using s unfolding sends_def sent_def [of ch ch'] by simp
  then have "incoming rd = sent ch ch1 @ u32_to_be_bytes STREAM_ERROR @ prefixed body" using assms(4) by simp
  from client_reads_response [OF assms(1,2) this] assms(5)
  have "rd1 = rd\<lparr>incoming := u32_to_be_bytes STREAM_ERROR @ prefixed body\<rparr>" by simp
  then have "incoming rd1 = u32_to_be_bytes STREAM_ERROR @ prefixed body" by simp
  from read_frame_stream_error [OF this] show ?thesis by (rule exI)
qed

text \<open>How an upload ends: refused before the stream, acknowledged, or ended by a stream error.\<close>

lemma put_stream_cases:
  assumes "put_stream X object_text d ch = (d', ch', Inr u)"
  obtains (refused) rsp where "write_response X rsp ch = (ch', Inr ())" "rsp \<noteq> ResponseOk ScStreamReady" "d' = d"
  | (accepted) oid ch1 v r where "daemon_parse_object_id object_text = Inr oid" "\<not> dm_long_operation_active d"
      "write_response X (ResponseOk ScStreamReady) ch = (ch1, Inr ())" "\<not> dm_vault_poisoned d"
      "put_from_reader (sx_crypto X) oid (channel_deliveries (sx_parse_response X) ch1) (dm_vault d) = (v, r)"
      "d' = d\<lparr>dm_vault := v\<rparr>"
      "case r of Inr ver \<Rightarrow> write_response X (ResponseOk (ScPublished (to_hex ver))) ch1 = (ch', Inr ())
        | Inl e \<Rightarrow> write_stream_response X (ResponseError (map_vault_error e)) ch1 = (ch', Inr ())"
  | (unavailable) ch1 where "write_response X (ResponseOk ScStreamReady) ch = (ch1, Inr ())" "d' = d"
      "write_stream_response X (error_response CodeInternal ''daemon state is unavailable'') ch1 = (ch', Inr ())"
proof (cases "dm_long_operation_active d")
  case True
  with assms show thesis
    by (intro refused [of "overloaded_response BUSY"])
       (auto simp: put_stream_def try_acquire_long_operation_def overloaded_response_def error_response_def)
next
  case False
  let ?d = "d\<lparr>dm_long_operation_active := True\<rparr>"
  have drop: "drop_long_operation ?d = d" "drop_long_operation (?d\<lparr>dm_vault := v\<rparr>) = d\<lparr>dm_vault := v\<rparr>" for v
    using False by (simp_all add: drop_long_operation_def)
  from assms False obtain d1 where a: "put_stream_admitted X object_text ?d ch = (d1, ch', Inr ())" "d' = drop_long_operation d1"
    by (auto simp: put_stream_def try_acquire_long_operation_def split: prod.splits)
  show thesis
  proof (cases "daemon_parse_object_id object_text")
    case (Inl rsp)
    then have "rsp \<noteq> ResponseOk ScStreamReady"
      by (auto simp: daemon_parse_object_id_def error_response_def split: if_splits sum.splits)
    with a Inl drop show thesis by (intro refused [of rsp]) (auto simp: put_stream_admitted_def)
  next
    case (Inr oid)
    with a obtain ch1 where ready: "write_response X (ResponseOk ScStreamReady) ch = (ch1, Inr ())"
      by (auto simp: put_stream_admitted_def split: prod.splits sum.splits)
    show thesis
    proof (cases "dm_vault_poisoned d")
      case True
      with a Inr ready drop show thesis
        by (intro unavailable [OF ready]) (auto simp: put_stream_admitted_def write_stream_failure_def)
    next
      case ok: False
      obtain v r where p: "put_from_reader (sx_crypto X) oid (channel_deliveries (sx_parse_response X) ch1) (dm_vault d) = (v, r)"
        by force
      show thesis
        by (rule accepted [OF Inr False ready ok p])
           (use a Inr ready ok p drop in \<open>auto simp: put_stream_admitted_def split: sum.splits\<close>)
    qed
  qed
qed

lemma acknowledged_commit:
  assumes "codec_law (sx_print_response X) parse" "put_stream X object_text d ch = (d', ch', Inr ())"
    and "incoming rd = sent ch ch'" "read_frame parse rd = (rd1, Inr (ResponseOk ScStreamReady))"
    and "read_frame parse rd1 = (rd2, Inr (ResponseOk (ScPublished ver)))"
  obtains oid ch1 v n where "daemon_parse_object_id object_text = Inr oid" "\<not> dm_long_operation_active d" "\<not> dm_vault_poisoned d"
    "write_response X (ResponseOk ScStreamReady) ch = (ch1, Inr ())"
    "put_from_reader (sx_crypto X) oid (channel_deliveries (sx_parse_response X) ch1) (dm_vault d) = (v, Inr n)"
    "d' = d\<lparr>dm_vault := v\<rparr>"
  using assms(2)
proof (cases rule: put_stream_cases)
  case (refused rsp)
  from client_reads_response [OF assms(1) refused(1), of rd "[]"] assms(3,4) refused(2) show thesis by simp
next
  case (unavailable ch1)
  from client_misreads_error [OF assms(1) unavailable(1,3) assms(3,4)] assms(5) show thesis by simp
next
  case (accepted oid ch1 v r)
  show thesis
  proof (cases r)
    case (Inl e)
    then have "write_stream_response X (ResponseError (map_vault_error e)) ch1 = (ch', Inr ())" using accepted(7) by simp
    from client_misreads_error [OF assms(1) accepted(3) this assms(3,4)] assms(5) show thesis by simp
  qed (use that accepted in blast)
qed

lemma acknowledged_upload:
  assumes "codec_law (sx_print_response X) parse" "aead_correct (sx_crypto X)" "hash_width (sx_crypto X)"
    and "db_ok (tables (dm_vault d))" "put_stream X object_text d ch = (d', ch', Inr ())"
    and "incoming rd = sent ch ch'" "read_frame parse rd = (rd1, Inr (ResponseOk ScStreamReady))"
    and "read_frame parse rd1 = (rd2, Inr (ResponseOk (ScPublished ver)))"
  obtains oid rk cs rest v ch1 where "daemon_parse_object_id object_text = Inr oid" "vt_root_key (dm_vault d) = Some rk"
    "incoming ch = stream_bytes cs @ u32_to_be_bytes STREAM_END @ rest" "list_all stream_chunk_ok cs"
    "contents (sx_crypto X) rk (vault_id_of (dm_vault d)) (tables v)
      = (contents (sx_crypto X) rk (vault_id_of (dm_vault d)) (tables (dm_vault d)))(oid \<mapsto> concat cs)"
    "db_ok (tables v)" "frozen (tables (dm_vault d)) (tables v)" "vt_root_key v = Some rk" "vault_id_of v = vault_id_of (dm_vault d)"
    "d' = d\<lparr>dm_vault := v\<rparr>" "\<not> dm_long_operation_active d" "\<not> dm_vault_poisoned d"
    "write_response X (ResponseOk ScStreamReady) ch = (ch1, Inr ())"
proof -
  obtain oid ch1 v n where c: "daemon_parse_object_id object_text = Inr oid" "\<not> dm_long_operation_active d" "\<not> dm_vault_poisoned d"
    "write_response X (ResponseOk ScStreamReady) ch = (ch1, Inr ())"
    "put_from_reader (sx_crypto X) oid (channel_deliveries (sx_parse_response X) ch1) (dm_vault d) = (v, Inr n)"
    "d' = d\<lparr>dm_vault := v\<rparr>"
    by (rule acknowledged_commit [OF assms(1,5-8)])
  have inc: "incoming ch1 = incoming ch" using sends_sent [OF c(4)] by simp
  show thesis
    by (rule upload_stored [OF assms(2-4) c(5)])
       (rule that [OF c(1) _ _ _ _ _ _ _ _ c(6,2,3,4)], simp_all add: inc)
qed

text \<open>An upload the client sees acknowledged is stored, completely: when the client reads \<open>stream_ready\<close> and then
  \<open>published\<close>, the bytes it sent are a sequence of stream chunks closed by the end marker, and the contents of
  the object are exactly their concatenation, with every other object as it was. A stream cut short is
  never acknowledged.\<close>

theorem acknowledged_upload_stored:
  assumes "codec_law (sx_print_response X) parse" "aead_correct (sx_crypto X)" "hash_width (sx_crypto X)"
    and "db_ok (tables (dm_vault d))" "put_stream X object_text d ch = (d', ch', Inr ())"
    and "incoming rd = sent ch ch'" "read_frame parse rd = (rd1, Inr (ResponseOk ScStreamReady))"
    and "read_frame parse rd1 = (rd2, Inr (ResponseOk (ScPublished ver)))"
  shows "\<exists>oid rk cs rest. daemon_parse_object_id object_text = Inr oid \<and> vt_root_key (dm_vault d) = Some rk
    \<and> incoming ch = stream_bytes cs @ u32_to_be_bytes STREAM_END @ rest \<and> list_all stream_chunk_ok cs
    \<and> contents (sx_crypto X) rk (vault_id_of (dm_vault d)) (tables (dm_vault d'))
      = (contents (sx_crypto X) rk (vault_id_of (dm_vault d)) (tables (dm_vault d)))(oid \<mapsto> concat cs)
    \<and> db_ok (tables (dm_vault d')) \<and> frozen (tables (dm_vault d)) (tables (dm_vault d'))"
proof (rule acknowledged_upload [OF assms])
  fix oid rk cs rest v
  assume "daemon_parse_object_id object_text = Inr oid" "vt_root_key (dm_vault d) = Some rk"
    "incoming ch = stream_bytes cs @ u32_to_be_bytes STREAM_END @ rest" "list_all stream_chunk_ok cs"
    "contents (sx_crypto X) rk (vault_id_of (dm_vault d)) (tables v)
      = (contents (sx_crypto X) rk (vault_id_of (dm_vault d)) (tables (dm_vault d)))(oid \<mapsto> concat cs)"
    "db_ok (tables v)" "frozen (tables (dm_vault d)) (tables v)" "d' = d\<lparr>dm_vault := v\<rparr>"
  then show ?thesis by (intro exI [of _ oid] exI [of _ rk] exI [of _ cs] exI [of _ rest]) simp
qed

section \<open>Downloads\<close>

text \<open>A visitor that simulates another sees the same chunks.\<close>

lemma visit_rows_simulates:
  assumes sim: "\<And>chunk a b a'. R a b \<Longrightarrow> f chunk a = (a', Inr ()) \<Longrightarrow> \<exists>b'. g chunk b = (b', Inr ()) \<and> R a' b'"
  shows "visit_rows f rows c a = (c', a', Inr u) \<Longrightarrow> R a b \<Longrightarrow> \<exists>b'. visit_rows g rows c b = (c', b', Inr u) \<and> R a' b'"
proof (induction rows arbitrary: c a b)
  case Nil
  then show ?case by (auto split: prod.splits)
next
  case (Cons row rows)
  from Cons.prems(1) obtain c1 chunk a1 where q: "sql_query (\<lambda>_. row_chunk row) c = (c1, Inr chunk)"
    and v: "f chunk a = (a1, Inr ())" and rest: "visit_rows f rows c1 a1 = (c', a', Inr u)"
    by (auto split: prod.splits sum.splits)
  obtain b1 where "g chunk b = (b1, Inr ())" "R a1 b1" using sim [OF Cons.prems(2) v] by blast
  with Cons.IH [OF rest, of b1] q show ?case by auto
qed

text \<open>What the vault expects of the writer that a read is streamed into, as of any \<open>std::io::Write\<close>: after a write that
  succeeded it holds what it held before, followed by the bytes written. A successful read then leaves the
  contents of the object in the writer.\<close>

locale plaintext_writer =
  fixes write_all :: "bytes \<Rightarrow> 'w \<Rightarrow> 'w \<times> bool"
    and holds :: "'w \<Rightarrow> bytes \<Rightarrow> bool"
  assumes write_holds: "holds w u \<Longrightarrow> write_all part w = (w', True) \<Longrightarrow> holds w' (u @ part)"
begin

lemma write_chunk_holds:
  assumes R: "fst a = fst b" "holds (snd a) (snd b)" and f: "write_chunk C write_all dek vid oid ver m chunk a = (a', Inr ())"
  shows "\<exists>b'. write_chunk C write_vec dek vid oid ver m chunk b = (b', Inr ()) \<and> fst a' = fst b' \<and> holds (snd a') (snd b')"
proof -
  obtain n w u where ab: "a = (n, w)" "b = (n, u)" using R(1) by (cases a; cases b) auto
  with f obtain len part w' k where "expected_plaintext_chunk_len m (ck_index chunk) = Inr len"
    "open_record C dek (chunk_aad vid oid ver (ck_index chunk) len) (ck_record chunk) = Inr part"
    "length part = unat len" "write_all part w = (w', True)" "checked_add n (ucast len) = Some k" "a' = (k, w')"
    by (auto split: sum.splits if_splits prod.splits bool.splits option.splits)
  with ab R(2) write_holds show ?thesis by (auto simp: write_vec_def)
qed

lemma get_to_writer_holds:
  assumes "holds w []" and g: "get_to_writer C write_all oid v w = (v', w', Inr u)"
  obtains rk pt where "vt_root_key v = Some rk" "contents C rk (vault_id_of v) (tables v) oid = Some pt" "holds w' pt"
proof -
  from g have "get_to_writer_inner C write_all oid v w = (v', w', Inr u)"
    by (auto simp: get_to_writer_def lock_after_failure_def split: prod.splits sum.splits)
  then obtain v1 s dek m where o: "open_version C oid v = (v1, Inr (s, dek, m))"
    and visit: "visit_chunks (sv_version_id s) (write_chunk C write_all dek (vault_id_of v1) oid (sv_version_id s) m)
      v1 (0, w) = (v', (mf_plaintext_len m, w'), Inr ())"
    by (auto simp: get_to_writer_inner_def split: prod.splits sum.splits if_splits)
  then obtain c1 rows where sel: "sql_select (version_chunks (sv_version_id s)) v1 = (c1, Inr rows)"
    and vr: "visit_rows (write_chunk C write_all dek (vault_id_of v1) oid (sv_version_id s) m) rows c1 (0, w)
      = (v', (mf_plaintext_len m, w'), Inr ())"
    by (auto simp: visit_chunks_def split: prod.splits sum.splits)
  have "\<exists>b'. visit_rows (write_chunk C write_vec dek (vault_id_of v1) oid (sv_version_id s) m) rows c1 (0, [])
      = (v', b', Inr ()) \<and> (fst (mf_plaintext_len m, w') = fst b' \<and> holds (snd (mf_plaintext_len m, w')) (snd b'))"
    by (rule visit_rows_simulates [OF _ vr, where R = "\<lambda>a b. fst a = fst b \<and> holds (snd a) (snd b)"])
       (use write_chunk_holds assms(1) in \<open>auto simp del: write_chunk.simps\<close>)
  then obtain pt where "visit_rows (write_chunk C write_vec dek (vault_id_of v1) oid (sv_version_id s) m) rows c1 (0, [])
      = (v', (mf_plaintext_len m, pt), Inr ())" "holds w' pt" by auto
  with o sel have "get_inner C oid v = (v', Inr pt)"
    by (simp add: get_inner_def get_to_writer_inner_def visit_chunks_def)
  from get_inner_Inr [OF this] \<open>holds w' pt\<close> that show thesis by blast
qed

end

interpretation vec: plaintext_writer write_vec "(=)"
  by unfold_locales (auto simp: write_vec_def)

lemma write_stream_chunks_sends:
  "write_stream_chunks cs ch = (ch', True) \<Longrightarrow> list_all stream_chunk_ok cs \<and> sends (stream_bytes cs) ch ch'"
proof (induction cs arbitrary: ch)
  case (Cons c cs)
  then obtain ch1 where c: "write_stream_chunk c ch = (ch1, Inr ())" and rest: "write_stream_chunks cs ch1 = (ch', True)"
    by (auto split: prod.splits sum.splits)
  from Cons.IH [OF rest] write_stream_chunk_Inr [OF c] show ?case by (auto intro: sends_trans)
qed simp

text \<open>The writer's connection holds stream items that carry what was written.\<close>

definition streamed :: "channel \<Rightarrow> channel \<Rightarrow> bytes \<Rightarrow> bool" where
  "streamed ch0 ch bs \<longleftrightarrow> (\<exists>cs. concat cs = bs \<and> list_all stream_chunk_ok cs \<and> sends (stream_bytes cs) ch0 ch)"

lemma stream_writer_streams:
  assumes "streamed ch0 ch bs" "stream_writer_write part ch = (ch', True)"
  shows "streamed ch0 ch' (bs @ part)"
proof -
  obtain cs where "concat cs = bs" "list_all stream_chunk_ok cs" "sends (stream_bytes cs) ch0 ch"
    using assms(1) by (auto simp: streamed_def)
  moreover have "list_all stream_chunk_ok (chunks MAX_STREAM_CHUNK_BYTES part)"
    "sends (stream_bytes (chunks MAX_STREAM_CHUNK_BYTES part)) ch ch'"
    using write_stream_chunks_sends assms(2) by (auto simp: stream_writer_write_def)
  moreover have "concat (chunks MAX_STREAM_CHUNK_BYTES part) = part"
    by (rule concat_chunks) (rule frame_bounds(3))
  ultimately show ?thesis
    unfolding streamed_def by (intro exI [of _ "cs @ chunks MAX_STREAM_CHUNK_BYTES part"]) (auto intro: sends_trans)
qed

interpretation sw: plaintext_writer stream_writer_write "streamed ch" for ch
  by unfold_locales (rule stream_writer_streams)

lemma streamed_refl: "streamed ch ch []"
  unfolding streamed_def by (intro exI [of _ "[]"]) simp

text \<open>Success of a download.\<close>

lemma get_stream_Inr:
  assumes "get_stream X object_text d ch = (d', ch', Inr u)" "write_response X (ResponseOk ScStreamReady) ch = (ch1, Inr ())"
    and "\<not> dm_long_operation_active d" "daemon_parse_object_id object_text = Inr oid" "\<not> dm_vault_poisoned d"
  obtains v w r where "get_to_writer (sx_crypto X) stream_writer_write oid (dm_vault d) ch1 = (v, w, r)"
    "d' = d\<lparr>dm_vault := v\<rparr>"
    "case r of Inr _ \<Rightarrow> write_stream_end w = (ch', Inr ())
      | Inl e \<Rightarrow> write_stream_response X (ResponseError (map_vault_error e)) w = (ch', Inr ())"
proof -
  obtain v w r where g: "get_to_writer (sx_crypto X) stream_writer_write oid (dm_vault d) ch1 = (v, w, r)"
    by (metis surj_pair)
  show thesis
    by (rule that [OF g])
       (use assms g in \<open>auto simp: get_stream_def get_stream_admitted_def try_acquire_long_operation_def drop_long_operation_def
         split: sum.splits prod.splits\<close>)
qed

lemma visit_rows_invariant:
  assumes inv: "\<And>chunk a. I a \<Longrightarrow> I (fst (f chunk a))"
  shows "visit_rows f rows c a = (c', a', r) \<Longrightarrow> I a \<Longrightarrow> I a'"
proof (induction rows arbitrary: c a)
  case Nil
  then show ?case by (auto split: prod.splits)
next
  case (Cons row rows)
  from Cons.prems inv show ?case
    by (auto split: prod.splits sum.splits dest: Cons.IH) (metis fst_conv Cons.IH)+
qed

lemma write_chunk_invariant:
  assumes "\<And>part w. I w \<Longrightarrow> I (fst (wr part w))" "I (snd a)"
  shows "I (snd (fst (write_chunk C wr dek vid oid ver m chunk a)))"
  using assms(2) assms(1) [of "snd a"]
  by (cases a) (auto split: sum.splits if_splits prod.splits bool.splits option.splits; metis fst_conv)

lemma get_to_writer_invariant:
  assumes "\<And>part w. I w \<Longrightarrow> I (fst (wr part w))" "I w" "get_to_writer C wr oid v w = (v', w', r)"
  shows "I w'"
proof -
  obtain u where g: "get_to_writer_inner C wr oid v w = (u, w', r)"
    using assms(3) by (auto simp: get_to_writer_def lock_after_failure_def split: prod.splits)
  show ?thesis
  proof (cases "snd (open_version C oid v)")
    case (Inl e)
    with g assms(2) show ?thesis by (auto simp: get_to_writer_inner_def split: prod.splits)
  next
    case (Inr x)
    then obtain v1 s dek m where o: "open_version C oid v = (v1, Inr (s, dek, m))" by (metis prod.collapse)
    let ?f = "write_chunk C wr dek (vault_id_of v1) oid (sv_version_id s) m"
    obtain v2 n w2 q where vis: "visit_chunks (sv_version_id s) ?f v1 (0, w) = (v2, (n, w2), q)" by (metis surj_pair)
    with o g have "w' = w2" by (auto simp: get_to_writer_inner_def split: sum.splits if_splits)
    moreover have "I (snd (n, w2))"
    proof (cases "sql_select (version_chunks (sv_version_id s)) v1")
      case (Pair c1 rows)
      show ?thesis
      proof (cases rows)
        case (Inl e)
        with vis Pair assms(2) show ?thesis by (auto simp: visit_chunks_def)
      next
        case (Inr rs)
        with vis Pair have vr: "visit_rows ?f rs c1 (0, w) = (v2, (n, w2), q)" by (simp add: visit_chunks_def)
        show ?thesis
          by (rule visit_rows_invariant [OF _ vr, where I = "\<lambda>a. I (snd a)"])
             (use write_chunk_invariant [of I wr, OF assms(1)] assms(2) in \<open>auto simp del: write_chunk.simps\<close>)
      qed
    qed
    ultimately show ?thesis by simp
  qed
qed

lemma sends_quiet: "sends bs ch ch' \<Longrightarrow> quiet ch \<Longrightarrow> quiet ch'"
  by (simp add: sends_def)

lemma write_stream_chunks_quiet:
  "quiet ch \<Longrightarrow> list_all stream_chunk_ok cs \<Longrightarrow> \<exists>ch'. write_stream_chunks cs ch = (ch', True)"
proof (induction cs arbitrary: ch)
  case (Cons c cs)
  then obtain ch1 where c: "write_stream_chunk c ch = (ch1, Inr ())" using write_stream_chunk_quiet [of ch c] by auto
  then have "quiet ch1" using write_stream_chunk_Inr [OF c] Cons.prems(1) sends_quiet by blast
  from Cons.IH [OF this] Cons.prems(2) c show ?case by simp
qed simp

lemma stream_writer_ok:
  assumes "quiet ch"
  shows "\<exists>ch'. stream_writer_write part ch = (ch', True) \<and> quiet ch'"
proof -
  let ?cs = "chunks MAX_STREAM_CHUNK_BYTES part"
  have "list_all stream_chunk_ok ?cs"
    using chunks_nonempty [OF frame_bounds(3)] by (auto simp: list_all_iff)
  from write_stream_chunks_quiet [OF assms this] obtain ch' where w: "write_stream_chunks ?cs ch = (ch', True)" by blast
  then have "quiet ch'" using write_stream_chunks_sends [OF w] sends_quiet assms by blast
  with w show ?thesis by (simp add: stream_writer_write_def)
qed

lemma stream_writer_quiet:
  assumes "quiet ch" "streamed ch0 ch bs"
  shows "quiet (fst (stream_writer_write part ch)) \<and> (\<exists>bs. streamed ch0 (fst (stream_writer_write part ch)) bs)"
  using stream_writer_ok [OF assms(1), of part] stream_writer_streams [OF assms(2)] by fastforce

lemma stream_delivered_error:
  "incoming ch = stream_bytes cs @ u32_to_be_bytes STREAM_ERROR @ rest \<Longrightarrow> list_all stream_chunk_ok cs \<Longrightarrow>
     Failed \<in> set (channel_deliveries parse ch)"
proof (induction cs arbitrary: ch)
  case Nil
  then have "read_exact 4 ch = (ch\<lparr>incoming := rest\<rparr>, Inr (u32_to_be_bytes STREAM_ERROR))"
    by (intro read_exact_append) simp_all
  then have "\<nexists>data. snd (read_stream_item parse ch) = Inr (ItemData data)" "snd (read_stream_item parse ch) \<noteq> Inr ItemEnd"
    by (auto simp: read_stream_item_def stream_markers then_do_def split: prod.splits sum.splits)
  then show ?case
    by (subst channel_deliveries_cases) (auto split: sum.splits stream_item.splits)
next
  case (Cons c cs)
  let ?rest = "stream_bytes cs @ u32_to_be_bytes STREAM_ERROR @ rest"
  have "read_stream_item parse ch = (ch\<lparr>incoming := ?rest\<rparr>, Inr (ItemData c))"
    using Cons.prems by (intro read_stream_item_chunk) simp_all
  with Cons.IH [of "ch\<lparr>incoming := ?rest\<rparr>"] Cons.prems show ?case
    by (subst channel_deliveries.simps) simp
qed

text \<open>What a download that was accepted puts on the wire.\<close>

lemma get_stream_accepted:
  assumes "quiet ch" "get_stream X object_text d ch = (d', ch', Inr u)"
    and "\<not> dm_long_operation_active d" "daemon_parse_object_id object_text = Inr oid"
    and ready: "write_response X (ResponseOk ScStreamReady) ch = (ch1, Inr ())"
  shows "\<exists>cs mark rest. list_all stream_chunk_ok cs \<and> outgoing ch' = outgoing ch1 @ stream_bytes cs @ u32_to_be_bytes mark @ rest
    \<and> (mark = STREAM_ERROR \<or> mark = STREAM_END \<and> (\<exists>rk. vt_root_key (dm_vault d) = Some rk
         \<and> contents (sx_crypto X) rk (vault_id_of (dm_vault d)) (tables (dm_vault d)) oid = Some (concat cs)))"
proof (cases "dm_vault_poisoned d")
  case True
  with assms have "write_stream_response X (error_response CodeInternal ''daemon state is unavailable'') ch1 = (ch', Inr ())"
    by (auto simp: get_stream_def get_stream_admitted_def try_acquire_long_operation_def write_stream_failure_def split: prod.splits)
  then obtain body where "sends (u32_to_be_bytes STREAM_ERROR @ prefixed body) ch1 ch'" by (elim write_stream_response_Inr)
  then show ?thesis
    by (intro exI [of _ "[]"] exI [of _ STREAM_ERROR] exI [of _ "prefixed body"]) (simp add: sends_def)
next
  case False
  obtain v w r where g: "get_to_writer (sx_crypto X) stream_writer_write oid (dm_vault d) ch1 = (v, w, r)"
    and fin: "case r of Inr _ \<Rightarrow> write_stream_end w = (ch', Inr ())
      | Inl e \<Rightarrow> write_stream_response X (ResponseError (map_vault_error e)) w = (ch', Inr ())"
    by (rule get_stream_Inr [OF assms(2) ready assms(3,4) False])
  have q: "quiet ch1" using ready assms(1) by (elim write_response_Inr) (simp add: sends_def)
  show ?thesis
  proof (cases r)
    case (Inl e)
    have "quiet w \<and> (\<exists>bs. streamed ch1 w bs)"
    proof (rule get_to_writer_invariant [OF _ _ g])
      show "quiet ch1 \<and> (\<exists>bs. streamed ch1 ch1 bs)" using q streamed_refl by blast
    qed (use stream_writer_quiet in blast)
    then obtain cs where "list_all stream_chunk_ok cs" "sends (stream_bytes cs) ch1 w" by (auto simp: streamed_def)
    moreover obtain body where "sends (u32_to_be_bytes STREAM_ERROR @ prefixed body) w ch'"
      using fin Inl by (auto elim!: write_stream_response_Inr)
    ultimately show ?thesis
      by (intro exI [of _ cs] exI [of _ STREAM_ERROR] exI [of _ "prefixed body"]) (auto simp: sends_def)
  next
    case (Inr x)
    obtain rk pt where c: "vt_root_key (dm_vault d) = Some rk"
      "contents (sx_crypto X) rk (vault_id_of (dm_vault d)) (tables (dm_vault d)) oid = Some pt" "streamed ch1 w pt"
      by (rule sw.get_to_writer_holds [OF streamed_refl g [unfolded Inr]])
    then obtain cs where "list_all stream_chunk_ok cs" "sends (stream_bytes cs) ch1 w" "concat cs = pt" by (auto simp: streamed_def)
    moreover have "sends (u32_to_be_bytes STREAM_END) w ch'" using fin Inr by (auto dest: write_stream_end_Inr)
    ultimately show ?thesis using c(1,2)
      by (intro exI [of _ cs] exI [of _ STREAM_END] exI [of _ "[]"]) (auto simp: sends_def)
  qed
qed

text \<open>A download that the client reads to its end marker is the contents of the object: on a connection whose writes
  do not fail, the data of the stream items that follow \<open>stream_ready\<close>, if the stream ends without an error
  item or a broken frame, is exactly the plaintext that the vault authenticates for that object.\<close>

lemma complete_download_is_contents:
  assumes "codec_law (sx_print_response X) parse" "quiet ch" "get_stream X object_text d ch = (d', ch', Inr ())"
    and "incoming rd = sent ch ch'" "read_frame parse rd = (rd1, Inr (ResponseOk ScStreamReady))"
    and "Failed \<notin> set (channel_deliveries parse rd1)"
  shows "\<exists>oid rk. daemon_parse_object_id object_text = Inr oid \<and> vt_root_key (dm_vault d) = Some rk
    \<and> contents (sx_crypto X) rk (vault_id_of (dm_vault d)) (tables (dm_vault d)) oid
      = Some (delivered (channel_deliveries parse rd1))"
proof -
  have not_ready: "write_response X rsp ch = (ch', Inr ()) \<Longrightarrow> rsp = ResponseOk ScStreamReady" for rsp
    using client_reads_response [OF assms(1), of rsp ch ch' _ rd "[]"] assms(4,5) by simp
  have idle: "\<not> dm_long_operation_active d"
    using assms(3) not_ready [of "overloaded_response BUSY"]
    by (auto simp: get_stream_def try_acquire_long_operation_def overloaded_response_def error_response_def)
  have "\<exists>oid. daemon_parse_object_id object_text = Inr oid"
  proof (cases "daemon_parse_object_id object_text")
    case (Inl rsp)
    then have "rsp \<noteq> ResponseOk ScStreamReady"
      by (auto simp: daemon_parse_object_id_def error_response_def split: if_splits sum.splits)
    with not_ready [of rsp] assms(3) idle Inl show ?thesis
      by (auto simp: get_stream_def get_stream_admitted_def try_acquire_long_operation_def split: prod.splits)
  qed simp
  then obtain oid where oid: "daemon_parse_object_id object_text = Inr oid" by blast
  obtain ch1 where ready: "write_response X (ResponseOk ScStreamReady) ch = (ch1, Inr ())"
    using assms(3) idle oid by (auto simp: get_stream_def get_stream_admitted_def try_acquire_long_operation_def
        split: prod.splits sum.splits)
  obtain cs mark rest where wire: "list_all stream_chunk_ok cs"
    "outgoing ch' = outgoing ch1 @ stream_bytes cs @ u32_to_be_bytes mark @ rest"
    and mark: "mark = STREAM_ERROR \<or> mark = STREAM_END \<and> (\<exists>rk. vt_root_key (dm_vault d) = Some rk
         \<and> contents (sx_crypto X) rk (vault_id_of (dm_vault d)) (tables (dm_vault d)) oid = Some (concat cs))"
    using get_stream_accepted [OF assms(2,3) idle oid ready] by blast
  have out: "outgoing ch1 = outgoing ch @ sent ch ch1" using sends_sent [OF ready] by simp
  have "incoming rd = sent ch ch1 @ stream_bytes cs @ u32_to_be_bytes mark @ rest"
    unfolding assms(4) sent_def [of ch ch'] wire(2) unfolding out by simp
  from client_reads_response [OF assms(1) ready this] assms(5)
  have rd1: "incoming rd1 = stream_bytes cs @ u32_to_be_bytes mark @ rest" by auto
  from mark show ?thesis
  proof
    assume "mark = STREAM_ERROR"
    with stream_delivered_error [of rd1 cs rest parse] rd1 wire(1) assms(6) show ?thesis by simp
  next
    assume "mark = STREAM_END \<and> (\<exists>rk. vt_root_key (dm_vault d) = Some rk
         \<and> contents (sx_crypto X) rk (vault_id_of (dm_vault d)) (tables (dm_vault d)) oid = Some (concat cs))"
    with stream_delivered [of rd1 cs rest parse] rd1 wire(1) oid show ?thesis by auto
  qed
qed

section \<open>Concrete runs\<close>

lemma lower_is_hexdigit: "lower_hexdigit c \<Longrightarrow> is_ascii_hexdigit c"
  by (auto simp: lower_hexdigit_def is_ascii_hexdigit_def)

lemma daemon_parse_hex: "id_ok oid \<Longrightarrow> daemon_parse_object_id (to_hex oid) = Inr oid"
  using hex_encode_wf [of oid] lower_is_hexdigit
  by (auto simp: daemon_parse_object_id_def to_hex_eq parse_pairs_hex_encode id_ok_def list_all_iff from_slice_def)

definition text_bytes :: "string \<Rightarrow> bytes" where
  "text_bytes s = map (\<lambda>c. word_of_nat (of_char c)) s"

definition bytes_text :: "bytes \<Rightarrow> string" where
  "bytes_text bs = map (\<lambda>b. char_of (unat b)) bs"

lemma bytes_text_text_bytes [simp]: "bytes_text (text_bytes s) = s"
proof -
  have "unat (word_of_nat (of_char c) :: u8) = of_char c" for c
    using nat_of_char_less_256 [of c] by (simp add: unat_of_nat)
  then show ?thesis by (simp add: bytes_text_def text_bytes_def comp_def)
qed

text \<open>Printers and parsers of the messages that the runs exchange.\<close>

definition sample_codes :: "error_code list" where
  "sample_codes = [CodeProtocol, CodeUnauthorized, CodeLocked, CodeNotFound, CodeInvalidInput, CodeVerification,
     CodeStorage, CodeWitnessUnavailable, CodeWitnessConflict, CodeOverloaded, CodePolicy, CodeInternal]"

primrec code_byte :: "error_code list \<Rightarrow> error_code \<Rightarrow> u8" where
  "code_byte [] c = 0"
| "code_byte (x # xs) c = (if x = c then 0 else 1 + code_byte xs c)"

lemma code_byte_inverse: "sample_codes ! unat (code_byte sample_codes c) = c"
  by (cases c) (simp_all add: sample_codes_def)

fun sample_print_response :: "response \<Rightarrow> bytes option" where
  "sample_print_response (ResponseOk ScStreamReady) = Some [1]"
| "sample_print_response (ResponseOk (ScPublished s)) = Some (2 # text_bytes s)"
| "sample_print_response (ResponseError f) = Some (3 # code_byte sample_codes (fl_code f) # text_bytes (fl_message f))"
| "sample_print_response (ResponseOk ScEmpty) = Some [4]"
| "sample_print_response _ = None"

definition sample_parse_response :: "bytes \<Rightarrow> response option" where
  "sample_parse_response bs =
     (case bs of
        [] \<Rightarrow> None
      | b # rest \<Rightarrow>
          if b = 1 then Some (ResponseOk ScStreamReady)
          else if b = 2 then Some (ResponseOk (ScPublished (bytes_text rest)))
          else if b = 3 then
            (case rest of
               [] \<Rightarrow> None
             | c # rest \<Rightarrow> Some (ResponseError \<lparr>fl_code = sample_codes ! unat c, fl_message = bytes_text rest\<rparr>))
          else Some (ResponseOk ScEmpty))"

lemma sample_response_codec: "codec_law sample_print_response sample_parse_response"
  unfolding codec_law_def
proof (intro allI impI)
  fix v body assume "sample_print_response v = Some body"
  then show "sample_parse_response body = Some v"
    by (cases v rule: sample_print_response.cases) (auto simp: sample_parse_response_def code_byte_inverse)
qed

definition sample_parse_request :: "bytes \<Rightarrow> request option" where
  "sample_parse_request bs =
     (if bs = [1] then Some RqStatus
      else if bs = [2] then Some (RqPutStream (to_hex (replicate 16 2)))
      else if bs = [3] then Some (RqGetStream (to_hex (replicate 16 2)))
      else None)"

definition sample_services :: "'w http_agent \<Rightarrow> 'w services" where
  "sample_services A = \<lparr>sx_crypto = toy_crypto, sx_engine = sample_engine, sx_integrity_check = \<lambda>_. ''ok'',
     sx_checkpoint_busy = \<lambda>_. 0, sx_snapshots = sample_snapshots, sx_os = sample_os, sx_backup_json = \<lambda>_. Some [5],
     sx_agent = A, sx_base64_decode = \<lambda>s. Some (text_bytes s), sx_base64_encode = bytes_text,
     sx_parse_request = sample_parse_request, sx_print_response = sample_print_response,
     sx_parse_response = sample_parse_response\<rparr>"

definition sample_daemon :: "vault \<Rightarrow> https_provider option \<Rightarrow> 'w \<Rightarrow> 'w daemon" where
  "sample_daemon v p w = \<lparr>dm_config = for_current_user 1000 ''/s'' ''/v'', dm_vault = v, dm_vault_poisoned = False,
     dm_startup_scan = ''startup_integrity_ok'', dm_verified_active_objects = None, dm_recovery_poisoned = False,
     dm_witness = p, dm_witness_poisoned = False, dm_active_connections = 0, dm_long_operation_active = False,
     dm_shutdown = False, dm_world = w\<rparr>"

lemma sample_services_simps [simp]:
  "sx_crypto (sample_services A) = toy_crypto" "sx_print_response (sample_services A) = sample_print_response"
  "sx_parse_response (sample_services A) = sample_parse_response" "sx_parse_request (sample_services A) = sample_parse_request"
  "sx_agent (sample_services A) = A"
  by (simp_all add: sample_services_def)

lemma sample_daemon_simps [simp]:
  "dm_vault (sample_daemon v p w) = v" "\<not> dm_vault_poisoned (sample_daemon v p w)" "dm_witness (sample_daemon v p w) = p"
  "\<not> dm_long_operation_active (sample_daemon v p w)" "dm_world (sample_daemon v p w) = w"
  "\<not> dm_witness_poisoned (sample_daemon v p w)"
  by (simp_all add: sample_daemon_def)

lemma write_response_quiet:
  assumes "quiet ch" "sx_print_response X rsp = Some body" "body \<noteq> []" "length body \<le> MAX_FRAME_BYTES"
  obtains ch' where "write_response X rsp ch = (ch', Inr ())" "quiet ch'" "incoming ch' = incoming ch"
proof -
  obtain ch' where "write_frame (sx_print_response X) rsp ch = (ch', Inr ())"
    using write_frame_quiet [of ch "sx_print_response X" rsp body] assms by blast
  then have w: "write_response X rsp ch = (ch', Inr ())" by (simp add: write_response_def)
  then have "quiet ch'" "incoming ch' = incoming ch"
    using assms(1) by (auto elim!: write_response_Inr simp: sends_def)
  with w that show thesis by blast
qed

lemma length_to_hex: "length (to_hex bs) = 2 * length bs"
  using hex_encode_wf [of bs] by (simp add: to_hex_eq)

lemma put_from_reader_version:
  assumes "aead_correct C" "put_from_reader C oid rs v = (v', Inr ver)"
  shows "length ver = 16"
proof -
  from assms(2) have "put_from_reader_inner C oid rs DEFAULT_CHUNK_SIZE v = (v', Inr ver)"
    by (simp add: put_from_reader_def put_from_reader_with_chunk_size_def)
  with assms(1) show ?thesis
    by (cases rule: put_from_reader_cases) (auto simp: publishable_def version_fits_def id_ok_def split: sum.splits)
qed

abbreviation (input) sample_object :: string where
  "sample_object \<equiv> to_hex (replicate 16 2)"

lemma sample_object [simp]: "daemon_parse_object_id sample_object = Inr (replicate 16 2)"
  by (rule daemon_parse_hex) (simp add: id_ok_def)

definition upload_channel :: channel where
  "upload_channel = channel_of (prefixed [1, 2, 3] @ u32_to_be_bytes STREAM_END)"

lemma sample_upload:
  obtains v ver ch where "put_stream (sample_services A) sample_object (sample_daemon sample_vault p w) upload_channel
      = (sample_daemon v p w, ch, Inr ())" "healthy v"
    "put_from_reader toy_crypto (replicate 16 2) [Data [1, 2, 3]] sample_vault = (v, Inr ver)"
    "\<exists>ch1. write_response (sample_services A) (ResponseOk ScStreamReady) upload_channel = (ch1, Inr ())
       \<and> write_response (sample_services A) (ResponseOk (ScPublished (to_hex ver))) ch1 = (ch, Inr ())"
proof -
  obtain ch1 where ready: "write_response (sample_services A) (ResponseOk ScStreamReady) upload_channel = (ch1, Inr ())"
    "quiet ch1" "incoming ch1 = incoming upload_channel"
    by (rule write_response_quiet [of upload_channel "sample_services A" "ResponseOk ScStreamReady" "[1]"])
       (simp_all add: upload_channel_def MAX_FRAME_BYTES_def)
  have rs: "channel_deliveries sample_parse_response ch1 = [Data [1, 2, 3]]"
    using stream_delivered [of ch1 "[[1, 2, 3]]" "[]" sample_parse_response] ready(3)
    by (simp add: upload_channel_def MAX_STREAM_CHUNK_BYTES_def)
  obtain v ver where p: "put_from_reader toy_crypto (replicate 16 2) [Data [1, 2, 3]] sample_vault = (v, Inr ver)" "healthy v"
    using sample_stream [OF sample_read(3)] by (auto simp: put_from_reader_def)
  have len: "length ver = 16" by (rule put_from_reader_version [OF toy_crypto_laws(1) p(1)])
  obtain ch where pub: "write_response (sample_services A) (ResponseOk (ScPublished (to_hex ver))) ch1 = (ch, Inr ())"
    by (rule write_response_quiet [OF ready(2), of "sample_services A" "ResponseOk (ScPublished (to_hex ver))" "2 # text_bytes (to_hex ver)"])
       (simp_all add: text_bytes_def length_to_hex len MAX_FRAME_BYTES_def)
  have "put_stream (sample_services A) sample_object (sample_daemon sample_vault p w) upload_channel = (sample_daemon v p w, ch, Inr ())"
    using ready(1) rs p(1) pub
    by (simp add: put_stream_def try_acquire_long_operation_def put_stream_admitted_def)
       (simp add: sample_daemon_def drop_long_operation_def)
  with that p ready(1) pub show thesis by blast
qed

lemma sample_acknowledged:
  obtains v ver ch rd1 rd2 where
    "put_stream (sample_services A) sample_object (sample_daemon sample_vault p w) upload_channel = (sample_daemon v p w, ch, Inr ())"
    "healthy v" "put_from_reader toy_crypto (replicate 16 2) [Data [1, 2, 3]] sample_vault = (v, Inr ver)"
    "read_frame sample_parse_response (channel_of (sent upload_channel ch)) = (rd1, Inr (ResponseOk ScStreamReady))"
    "read_frame sample_parse_response rd1 = (rd2, Inr (ResponseOk (ScPublished (to_hex ver))))"
proof -
  obtain v ver ch where run: "put_stream (sample_services A) sample_object (sample_daemon sample_vault p w) upload_channel
      = (sample_daemon v p w, ch, Inr ())" "healthy v" "put_from_reader toy_crypto (replicate 16 2) [Data [1, 2, 3]] sample_vault = (v, Inr ver)"
    and wr: "\<exists>ch1. write_response (sample_services A) (ResponseOk ScStreamReady) upload_channel = (ch1, Inr ())
       \<and> write_response (sample_services A) (ResponseOk (ScPublished (to_hex ver))) ch1 = (ch, Inr ())"
    by (rule sample_upload)
  from wr obtain ch1 where ready: "write_response (sample_services A) (ResponseOk ScStreamReady) upload_channel = (ch1, Inr ())"
    and pub: "write_response (sample_services A) (ResponseOk (ScPublished (to_hex ver))) ch1 = (ch, Inr ())" by blast
  let ?rd = "channel_of (sent upload_channel ch)"
  have "sent upload_channel ch = sent upload_channel ch1 @ sent ch1 ch"
    using sends_sent [OF ready] sends_sent [OF pub] by (intro sent_append) simp_all
  then have inc: "incoming ?rd = sent upload_channel ch1 @ sent ch1 ch" by simp
  have law: "codec_law (sx_print_response (sample_services A)) sample_parse_response" by (simp add: sample_response_codec)
  have "read_frame sample_parse_response (?rd\<lparr>incoming := sent ch1 ch\<rparr>)
      = (?rd\<lparr>incoming := []\<rparr>, Inr (ResponseOk (ScPublished (to_hex ver))))"
    using client_reads_response [OF law pub, of "?rd\<lparr>incoming := sent ch1 ch\<rparr>" "[]"] by simp
  with that [OF run client_reads_response [OF law ready inc]] show thesis by blast
qed

lemma daemon_sample_laws:
  "codec_law (sx_print_response (sample_services A)) sample_parse_response" "aead_correct (sx_crypto (sample_services A))"
  "hash_width (sx_crypto (sample_services A))" "db_ok (tables (dm_vault (sample_daemon sample_vault p w)))"
  using sample_response_codec toy_crypto_laws(1,5) sample_vault_simps(1) by simp_all

lemma upload_channel_chunks:
  assumes "incoming upload_channel = stream_bytes cs @ u32_to_be_bytes STREAM_END @ rest" "list_all stream_chunk_ok cs"
  shows "concat cs = [1, 2, 3]"
proof -
  have "[Data [1, 2, 3]] = map Data cs"
    using stream_delivered [OF assms, of sample_parse_response]
      stream_delivered [of upload_channel "[[1, 2, 3]]" "[]" sample_parse_response]
    by (simp add: upload_channel_def MAX_STREAM_CHUNK_BYTES_def)
  then show ?thesis by (cases cs) auto
qed

theorem acknowledged_upload_stored_witness:
  "\<exists>v ch. put_stream (sample_services sample_agent) sample_object (sample_daemon sample_vault None ()) upload_channel
        = (sample_daemon v None (), ch, Inr ())
     \<and> contents toy_crypto (replicate 32 7) (replicate 16 1) (tables v) (replicate 16 2) = Some [1, 2, 3]"
proof -
  obtain v ver ch rd1 rd2 where run:
    "put_stream (sample_services sample_agent) sample_object (sample_daemon sample_vault None ()) upload_channel = (sample_daemon v None (), ch, Inr ())"
    "read_frame sample_parse_response (channel_of (sent upload_channel ch)) = (rd1, Inr (ResponseOk ScStreamReady))"
    "read_frame sample_parse_response rd1 = (rd2, Inr (ResponseOk (ScPublished (to_hex ver))))"
    by (rule sample_acknowledged)
  obtain oid rk cs rest where up: "daemon_parse_object_id sample_object = Inr oid" "vt_root_key sample_vault = Some rk"
    "incoming upload_channel = stream_bytes cs @ u32_to_be_bytes STREAM_END @ rest" "list_all stream_chunk_ok cs"
    "contents toy_crypto rk (vault_id_of sample_vault) (tables v)
      = (contents toy_crypto rk (vault_id_of sample_vault) (tables sample_vault))(oid \<mapsto> concat cs)"
    using acknowledged_upload_stored [OF daemon_sample_laws run(1) _ run(2,3)] by auto
  with run(1) upload_channel_chunks [OF up(3,4)] show ?thesis by (auto simp: sample_vault_fields)
qed

section \<open>A download that completes\<close>

lemma write_chunk_quiet:
  assumes "fst a = fst b" "quiet (snd b)" "write_chunk C write_vec dek vid oid ver m chunk a = (a', Inr ())"
  shows "\<exists>b'. write_chunk C stream_writer_write dek vid oid ver m chunk b = (b', Inr ()) \<and> fst a' = fst b' \<and> quiet (snd b')"
proof -
  obtain n w u where ab: "a = (n, w)" "b = (n, u)" using assms(1) by (cases a; cases b) auto
  with assms(3) obtain len part k where "expected_plaintext_chunk_len m (ck_index chunk) = Inr len"
    "open_record C dek (chunk_aad vid oid ver (ck_index chunk) len) (ck_record chunk) = Inr part"
    "length part = unat len" "checked_add n (ucast len) = Some k" "a' = (k, w @ part)"
    by (auto simp: write_vec_def split: sum.splits if_splits option.splits)
  moreover obtain u' where "stream_writer_write part u = (u', True)" "quiet u'"
    using stream_writer_ok [of u part] assms(2) ab(2) by auto
  ultimately show ?thesis using ab by simp
qed

lemma get_to_writer_quiet:
  assumes "get_inner C oid v = (v', Inr pt)" "quiet ch"
  shows "\<exists>ch'. get_to_writer C stream_writer_write oid v ch = (v', ch', Inr ()) \<and> quiet ch'"
proof -
  from assms(1) obtain v1 s dek m where o: "open_version C oid v = (v1, Inr (s, dek, m))"
    and visit: "visit_chunks (sv_version_id s) (write_chunk C write_vec dek (vault_id_of v1) oid (sv_version_id s) m)
      v1 (0, []) = (v', (mf_plaintext_len m, pt), Inr ())"
    by (auto simp: get_inner_def get_to_writer_inner_def split: prod.splits sum.splits if_splits)
  then obtain c1 rows where sel: "sql_select (version_chunks (sv_version_id s)) v1 = (c1, Inr rows)"
    and vr: "visit_rows (write_chunk C write_vec dek (vault_id_of v1) oid (sv_version_id s) m) rows c1 (0, [])
      = (v', (mf_plaintext_len m, pt), Inr ())"
    by (auto simp: visit_chunks_def split: prod.splits sum.splits)
  have "\<exists>b'. visit_rows (write_chunk C stream_writer_write dek (vault_id_of v1) oid (sv_version_id s) m) rows c1 (0, ch)
      = (v', b', Inr ()) \<and> (fst (mf_plaintext_len m, pt) = fst b' \<and> quiet (snd b'))"
    by (rule visit_rows_simulates [OF _ vr, where R = "\<lambda>a b. fst a = fst b \<and> quiet (snd b)"])
       (use write_chunk_quiet assms(2) in \<open>auto simp del: write_chunk.simps\<close>)
  then obtain ch' where "visit_rows (write_chunk C stream_writer_write dek (vault_id_of v1) oid (sv_version_id s) m) rows c1 (0, ch)
      = (v', (mf_plaintext_len m, ch'), Inr ())" "quiet ch'" by auto
  with o sel show ?thesis
    by (simp add: get_to_writer_def get_to_writer_inner_def visit_chunks_def lock_after_failure_def)
qed

lemma download_succeeds:
  assumes law: "codec_law (sx_print_response X) parse"
    and v: "healthy (dm_vault d)" "vt_root_key (dm_vault d) = Some rk" "\<not> dm_long_operation_active d" "\<not> dm_vault_poisoned d"
    and pt: "contents (sx_crypto X) rk (vault_id_of (dm_vault d)) (tables (dm_vault d)) oid = Some pt"
    and oid: "daemon_parse_object_id object_text = Inr oid"
    and e1: "write_response X (ResponseOk ScStreamReady) ch = (e1, Inr ())" "quiet e1"
  obtains ch' ds where "get_stream X object_text d ch = (d, ch', Inr ())" "list_all stream_chunk_ok ds" "concat ds = pt"
    "sent ch ch' = sent ch e1 @ stream_bytes ds @ u32_to_be_bytes STREAM_END"
proof -
  let ?C = "sx_crypto X" and ?v = "dm_vault d"
  obtain e2 where e2: "get_to_writer ?C stream_writer_write oid ?v e1 = (?v, e2, Inr ())" "quiet e2"
    using get_to_writer_quiet [OF get_inner_healthy [OF v(1,2) pt] e1(2)] by blast
  obtain e3 where e3: "write_stream_end e2 = (e3, Inr ())" using write_stream_end_quiet [OF e2(2)] by blast
  have same: "drop_long_operation (d\<lparr>dm_long_operation_active := True, dm_vault := ?v\<rparr>) = d"
    using v(3) by (cases d) (simp add: drop_long_operation_def)
  have g: "get_stream X object_text d ch = (d, e3, Inr ())"
    using v(3,4) oid e1(1) e2(1) e3 same
    by (simp add: get_stream_def try_acquire_long_operation_def get_stream_admitted_def)
  have "streamed e1 e2 pt"
    by (rule sw.get_to_writer_holds [OF streamed_refl e2(1)])
       (use v(2) pt in auto)
  then obtain ds where ds: "concat ds = pt" "list_all stream_chunk_ok ds" "sends (stream_bytes ds) e1 e2"
    by (auto simp: streamed_def)
  have "sends (stream_bytes ds @ u32_to_be_bytes STREAM_END) e1 e3"
    using sends_trans [OF ds(3) write_stream_end_Inr [OF e3]] .
  then have "sent e1 e3 = stream_bytes ds @ u32_to_be_bytes STREAM_END" "outgoing e3 = outgoing e1 @ sent e1 e3"
    by (simp_all add: sent_sends) (simp add: sends_def)
  with sent_append [of e1 ch e3] sends_sent [OF e1(1)] that [OF g ds(2,1)] show thesis by simp
qed

text \<open>C8. What was uploaded is what is downloaded. After an acknowledged upload, as long as no engine call and no write on
  the connection fails, a download of the object from the same daemon succeeds, leaves the daemon as
  it was, and puts on the wire a stream that the client reads without error and whose data is, byte for
  byte, the data of the chunks the first client sent.\<close>

theorem upload_download_roundtrip:
  assumes "codec_law (sx_print_response X) parse" "aead_correct (sx_crypto X)" "hash_width (sx_crypto X)"
    and "db_ok (tables (dm_vault d))" "put_stream X object_text d ch = (d', ch', Inr ())"
    and "incoming rd = sent ch ch'" "read_frame parse rd = (rd1, Inr (ResponseOk ScStreamReady))"
    and "read_frame parse rd1 = (rd2, Inr (ResponseOk (ScPublished ver)))"
    and "healthy (dm_vault d')" "quiet down"
  shows "\<exists>cs rest down' cd. incoming ch = stream_bytes cs @ u32_to_be_bytes STREAM_END @ rest \<and> list_all stream_chunk_ok cs
    \<and> get_stream X object_text d' down = (d', down', Inr ())
    \<and> read_frame parse (channel_of (sent down down')) = (cd, Inr (ResponseOk ScStreamReady))
    \<and> Failed \<notin> set (channel_deliveries parse cd) \<and> delivered (channel_deliveries parse cd) = concat cs"
proof (rule acknowledged_upload [OF assms(1-8)])
  fix oid rk cs rest v ch1
  assume up: "daemon_parse_object_id object_text = Inr oid"
    "incoming ch = stream_bytes cs @ u32_to_be_bytes STREAM_END @ rest" "list_all stream_chunk_ok cs"
    "contents (sx_crypto X) rk (vault_id_of (dm_vault d)) (tables v)
      = (contents (sx_crypto X) rk (vault_id_of (dm_vault d)) (tables (dm_vault d)))(oid \<mapsto> concat cs)"
    "vt_root_key v = Some rk" "vault_id_of v = vault_id_of (dm_vault d)" "d' = d\<lparr>dm_vault := v\<rparr>"
    "\<not> dm_long_operation_active d" "\<not> dm_vault_poisoned d" "write_response X (ResponseOk ScStreamReady) ch = (ch1, Inr ())"
  obtain body where "sx_print_response X (ResponseOk ScStreamReady) = Some body" "body \<noteq> []" "length body \<le> MAX_FRAME_BYTES"
    using up(10) by (elim write_response_Inr)
  then obtain e1 where e1: "write_response X (ResponseOk ScStreamReady) down = (e1, Inr ())" "quiet e1"
    by (rule write_response_quiet [OF assms(10)])
  have c: "contents (sx_crypto X) rk (vault_id_of (dm_vault d')) (tables (dm_vault d')) oid = Some (concat cs)"
    and d: "vt_root_key (dm_vault d') = Some rk" "\<not> dm_long_operation_active d'" "\<not> dm_vault_poisoned d'"
    using up by simp_all
  obtain down' ds where g: "get_stream X object_text d' down = (d', down', Inr ())" and ds: "list_all stream_chunk_ok ds"
    "concat ds = concat cs" and wire: "sent down down' = sent down e1 @ stream_bytes ds @ u32_to_be_bytes STREAM_END"
    by (rule download_succeeds [OF assms(1,9) d c up(1) e1])
  let ?rd = "channel_of (sent down down')" and ?rest = "stream_bytes ds @ u32_to_be_bytes STREAM_END"
  have inc: "incoming ?rd = sent down e1 @ ?rest" using wire by simp
  have "channel_deliveries parse (?rd\<lparr>incoming := ?rest\<rparr>) = map Data ds"
    using stream_delivered [of "?rd\<lparr>incoming := ?rest\<rparr>" ds "[]" parse] ds(1) by simp
  then have "Failed \<notin> set (channel_deliveries parse (?rd\<lparr>incoming := ?rest\<rparr>))"
    "delivered (channel_deliveries parse (?rd\<lparr>incoming := ?rest\<rparr>)) = concat cs"
    using ds(2) by auto
  with up(2,3) g client_reads_response [OF assms(1) e1(1) inc] show ?thesis
    by (intro exI [of _ cs] exI [of _ rest] exI [of _ down'] exI [of _ "?rd\<lparr>incoming := ?rest\<rparr>"] conjI)
qed

theorem upload_download_roundtrip_witness:
  "\<exists>v down cd. get_stream (sample_services sample_agent) sample_object (sample_daemon v None ()) (channel_of []) = (sample_daemon v None (), down, Inr ())
     \<and> read_frame sample_parse_response (channel_of (sent (channel_of []) down)) = (cd, Inr (ResponseOk ScStreamReady))
     \<and> delivered (channel_deliveries sample_parse_response cd) = [1, 2, 3]"
proof -
  obtain v ver ch rd1 rd2 where run:
    "put_stream (sample_services sample_agent) sample_object (sample_daemon sample_vault None ()) upload_channel = (sample_daemon v None (), ch, Inr ())"
    "healthy (dm_vault (sample_daemon v None ()))"
    "read_frame sample_parse_response (channel_of (sent upload_channel ch)) = (rd1, Inr (ResponseOk ScStreamReady))"
    "read_frame sample_parse_response rd1 = (rd2, Inr (ResponseOk (ScPublished (to_hex ver))))"
    by (rule sample_acknowledged) simp
  obtain cs rest down cd where up: "incoming upload_channel = stream_bytes cs @ u32_to_be_bytes STREAM_END @ rest" "list_all stream_chunk_ok cs"
    "get_stream (sample_services sample_agent) sample_object (sample_daemon v None ()) (channel_of []) = (sample_daemon v None (), down, Inr ())"
    "read_frame sample_parse_response (channel_of (sent (channel_of []) down)) = (cd, Inr (ResponseOk ScStreamReady))"
    "delivered (channel_deliveries sample_parse_response cd) = concat cs"
    using upload_download_roundtrip [OF daemon_sample_laws run(1) _ run(3,4,2), of "channel_of []"] by auto
  with upload_channel_chunks [OF up(1,2)] show ?thesis by auto
qed

text \<open>A vault that can be read and has the upload of the run.\<close>

definition sample_stored :: "vault \<Rightarrow> bool" where
  "sample_stored v \<longleftrightarrow> healthy v \<and> vt_root_key v = Some (replicate 32 7) \<and> vault_id_of v = replicate 16 1
     \<and> contents toy_crypto (replicate 32 7) (replicate 16 1) (tables v) (replicate 16 2) = Some [1, 2, 3]"

lemma sample_upload_stored:
  assumes "put_stream (sample_services A) sample_object (sample_daemon sample_vault p w) upload_channel = (sample_daemon v p w, ch, Inr ())"
  shows "sample_stored v"
proof -
  obtain v' ver ch' rd1 rd2 where run:
    "put_stream (sample_services A) sample_object (sample_daemon sample_vault p w) upload_channel = (sample_daemon v' p w, ch', Inr ())"
    "healthy v'"
    "read_frame sample_parse_response (channel_of (sent upload_channel ch')) = (rd1, Inr (ResponseOk ScStreamReady))"
    "read_frame sample_parse_response rd1 = (rd2, Inr (ResponseOk (ScPublished (to_hex ver))))"
    by (rule sample_acknowledged)
  obtain rk oid cs rest u where up: "daemon_parse_object_id sample_object = Inr oid" "vt_root_key sample_vault = Some rk"
    "incoming upload_channel = stream_bytes cs @ u32_to_be_bytes STREAM_END @ rest" "list_all stream_chunk_ok cs"
    "contents toy_crypto rk (vault_id_of sample_vault) (tables u)
      = (contents toy_crypto rk (vault_id_of sample_vault) (tables sample_vault))(oid \<mapsto> concat cs)"
    "vt_root_key u = Some rk" "vault_id_of u = vault_id_of sample_vault" "sample_daemon v' p w = (sample_daemon sample_vault p w)\<lparr>dm_vault := u\<rparr>"
    by (rule acknowledged_upload [OF daemon_sample_laws run(1) _ run(3,4)]) simp_all
  have "u = v'" "v' = v" using up(8) run(1) assms by (simp_all add: sample_daemon_def)
  with run(2) up upload_channel_chunks [OF up(3,4)] show ?thesis by (auto simp: sample_stored_def sample_vault_fields)
qed

lemma sample_download:
  assumes "sample_stored v"
  obtains ch ds where
    "get_stream (sample_services sample_agent) sample_object (sample_daemon v None ()) (channel_of []) = (sample_daemon v None (), ch, Inr ())"
    "list_all stream_chunk_ok ds" "concat ds = [1, 2, 3]" "sent (channel_of []) ch = prefixed [1] @ stream_bytes ds @ u32_to_be_bytes STREAM_END"
proof -
  note v = assms [unfolded sample_stored_def]
  obtain e1 where e1: "write_response (sample_services sample_agent) (ResponseOk ScStreamReady) (channel_of []) = (e1, Inr ())" "quiet e1"
    by (rule write_response_quiet [of "channel_of []" "sample_services sample_agent" "ResponseOk ScStreamReady" "[1]"])
       (simp_all add: MAX_FRAME_BYTES_def)
  obtain ch' ds where g: "get_stream (sample_services sample_agent) sample_object (sample_daemon v None ()) (channel_of []) = (sample_daemon v None (), ch', Inr ())"
    and ds: "list_all stream_chunk_ok ds" "concat ds = [1, 2, 3]"
    and wire: "sent (channel_of []) ch' = sent (channel_of []) e1 @ stream_bytes ds @ u32_to_be_bytes STREAM_END"
    by (rule download_succeeds [OF daemon_sample_laws(1), where d = "sample_daemon v None ()" and pt = "[1, 2, 3]" and oid = "replicate 16 2"
          and object_text = sample_object and rk = "replicate 32 7", OF _ _ _ _ _ sample_object e1]) (use v in simp_all)
  have "sent (channel_of []) e1 = prefixed [1]" using e1(1) by (auto elim!: write_response_Inr simp: sends_def sent_def)
  with that g ds wire show thesis by simp
qed

theorem stream_reader_refines_witness:
  "stream_reader_read sample_parse_response 2 (stream_reader_new upload_channel)
     = (\<lparr>sr_stream = channel_of (u32_to_be_bytes STREAM_END), sr_current = [1, 2, 3], sr_offset = 2, sr_finished = False\<rparr>, ReadOk [1, 2])
   \<and> reader_read 2 [Data [1, 2, 3]] = ([Data [3]], ReadOk [1, 2])"
proof -
  let ?r = "\<lparr>sr_stream = channel_of (u32_to_be_bytes STREAM_END), sr_current = [1, 2, 3], sr_offset = 2, sr_finished = False\<rparr>"
  have item: "read_stream_item sample_parse_response upload_channel = (channel_of (u32_to_be_bytes STREAM_END), Inr (ItemData [1, 2, 3]))"
    using read_stream_item_chunk [of upload_channel "[1, 2, 3]" "u32_to_be_bytes STREAM_END" sample_parse_response]
    by (simp add: upload_channel_def channel_of_def MAX_STREAM_CHUNK_BYTES_def)
  have "stream_reader_fill sample_parse_response (stream_reader_new upload_channel) = (?r\<lparr>sr_offset := 0\<rparr>, FillReady)"
    by (subst stream_reader_fill.simps, simp add: stream_reader_new_def item, subst stream_reader_fill.simps, simp)
  then have r: "stream_reader_read sample_parse_response 2 (stream_reader_new upload_channel) = (?r, ReadOk [1, 2])"
    by (simp add: stream_reader_read_def)
  have "reader_deliveries sample_parse_response (stream_reader_new upload_channel) = [Data [1, 2, 3]]"
    using stream_delivered [of upload_channel "[[1, 2, 3]]" "[]" sample_parse_response]
    by (simp add: upload_channel_def MAX_STREAM_CHUNK_BYTES_def)
  moreover have "reader_deliveries sample_parse_response ?r = [Data [3]]"
    using stream_delivered [of "channel_of (u32_to_be_bytes STREAM_END)" "[]" "[]" sample_parse_response]
    by (simp add: reader_deliveries_def)
  ultimately show ?thesis
    using stream_reader_refines [OF _ _ r] r by (simp add: stream_reader_new_def)
qed

end
