(* ===== verification/Vlt_Daemon_Requests.thy ===== *)
theory Vlt_Daemon_Requests
  imports Vlt_Daemon_Streams
begin

text \<open>
  The daemon as a whole. Whatever connections it serves, what happens to the vault are vault operations,
  downloads and backups, so every invariant of the vault carries over; a refused connection changes
  nothing; and an answer has the payload that the protocol has for its request.
\<close>

section \<open>What a connection does to the vault\<close>

text \<open>A step on the vault and the witness that the daemon guards: an operation of the vault, a download or a
  backup. The witness provider is the configured one.\<close>

inductive guarded_step :: "'w services \<Rightarrow> https_provider \<Rightarrow> vault \<times> 'w \<Rightarrow> vault \<times> 'w \<Rightarrow> bool"
  for X p where
  guarded_vault: "vault_step (sx_crypto X) (https_issue_receipt (sx_crypto X) (sx_agent X) p)
      (https_object_head (sx_crypto X) (sx_agent X) p) s s' \<Longrightarrow> guarded_step X p s s'"
| guarded_download: "get_to_writer (sx_crypto X) stream_writer_write oid v ch = (v', ch', r) \<Longrightarrow>
      guarded_step X p (v, w) (v', w)"
| guarded_backup: "backup_to (sx_crypto X) (sx_snapshots X) (sx_os X) (sx_backup_json X) destination v = (v', r) \<Longrightarrow>
      guarded_step X p (v, w) (v', w)"

lemma guarded_step_keeps:
  assumes "aead_correct (sx_crypto X)" "guarded_step X p s s'"
  shows "keeps (fst s) (fst s')"
  using assms(2)
proof cases
  case guarded_vault
  then show ?thesis by (rule vault_step_keeps [OF assms(1)])
next
  case (guarded_download oid v ch v' ch' r w)
  then show ?thesis by (simp add: get_to_writer_keeps)
next
  case (guarded_backup destination v v' r w)
  with backup_to_frame show ?thesis by (fastforce simp: vault_id_of_def intro: keeps_same)
qed

abbreviation stepping :: "'w services \<Rightarrow> https_provider \<Rightarrow> (vault \<times> 'w \<Rightarrow> (vault \<times> 'w) \<times> 'a) \<Rightarrow> bool" where
  "stepping X p m \<equiv> evolves (guarded_step X p)\<^sup>*\<^sup>* m"

lemma stepping_then_do [intro]:
  "stepping X p m \<Longrightarrow> (\<And>x. stepping X p (f x)) \<Longrightarrow> stepping X p (then_do m f)"
  by (rule evolves_then_do) auto

lemma stepping_lift [intro]: "stepping X p (lift_result r)"
  by (simp add: evolves_def lift_result_def)

lemma on_vault_then_do: "on_vault (then_do m f) = then_do (on_vault m) (\<lambda>x. on_vault (f x))"
  by (auto simp: fun_eq_iff on_vault_def then_do_def split: prod.split sum.split)

lemma on_vault_lift: "on_vault (lift_result r) = lift_result r"
  by (auto simp: fun_eq_iff on_vault_def lift_result_def)

lemma stepping_on_vault:
  assumes "\<And>v v' r w. m v = (v', r) \<Longrightarrow> guarded_step X p (v, w) (v', w)"
  shows "stepping X p (on_vault m)"
  using assms by (auto intro!: evolvesI r_into_rtranclp simp: on_vault_def split: prod.splits)

lemma stepping_provider:
  assumes "\<And>s s' r. m s = (s', r) \<Longrightarrow> vault_step (sx_crypto X) (https_issue_receipt (sx_crypto X) (sx_agent X) p)
      (https_object_head (sx_crypto X) (sx_agent X) p) s s'"
  shows "stepping X p m"
  using assms by (auto intro!: evolvesI r_into_rtranclp guarded_vault)

lemma stepping_vault [intro]:
  "stepping X p (on_vault (unlock (sx_crypto X) passphrase))"
  "stepping X p (on_vault (\<lambda>v. (lock v, r)))"
  "stepping X p (on_vault (put (sx_crypto X) oid pt))"
  "stepping X p (on_vault (put_from_reader (sx_crypto X) oid rs))"
  "stepping X p (on_vault (get (sx_crypto X) oid))"
  "stepping X p (on_vault (verify_active_objects (sx_crypto X)))"
  "stepping X p (on_vault (full_checkpoint busy))"
  "stepping X p (on_vault (rotate_passphrase (sx_crypto X) current replacement))"
  "stepping X p (on_vault (backup_to (sx_crypto X) (sx_snapshots X) (sx_os X) (sx_backup_json X) destination))"
  by (rule stepping_on_vault; auto simp: put_def put_from_reader_def intro: vault_step.intros guarded_vault guarded_backup)+

lemma stepping_witness [intro]:
  "stepping X p (put_with_witness (sx_crypto X) (https_issue_receipt (sx_crypto X) (sx_agent X) p) oid pt)"
  "stepping X p (recover_pending_witness_publications (sx_crypto X) (https_issue_receipt (sx_crypto X) (sx_agent X) p))"
  "stepping X p (verify_active_objects_with_witness (sx_crypto X) (https_object_head (sx_crypto X) (sx_agent X) p))"
  by (rule stepping_provider; auto intro: vault_step.intros)+

section \<open>What a connection leaves alone\<close>

text \<open>\<open>serves X p d d'\<close>: between the two states of the daemon lie steps on what it guards, and nothing but the
  vault, the witness, the verified count and the request to shut down has changed. In particular the permit
  for long operations has been given back.\<close>

definition serves :: "'w services \<Rightarrow> https_provider \<Rightarrow> 'w daemon \<Rightarrow> 'w daemon \<Rightarrow> bool" where
  "serves X p d d' \<longleftrightarrow>
     (guarded_step X p)\<^sup>*\<^sup>* (dm_vault d, dm_world d) (dm_vault d', dm_world d')
     \<and> d' = d\<lparr>dm_vault := dm_vault d', dm_world := dm_world d',
          dm_verified_active_objects := dm_verified_active_objects d', dm_shutdown := dm_shutdown d'\<rparr>
     \<and> (dm_shutdown d \<longrightarrow> dm_shutdown d')"

lemma serves_refl [simp, intro]: "serves X p d d"
  by (simp add: serves_def)

lemma serves_trans: "serves X p a b \<Longrightarrow> serves X p b c \<Longrightarrow> serves X p a c"
  unfolding serves_def by (cases a, cases b, cases c) (auto intro: rtranclp_trans)

lemma serves_with_vault:
  assumes "stepping X p (on_vault m)" "with_vault m d = (d', rsp)"
  shows "serves X p d d'"
  using assms(2) evolvesD [OF assms(1), of "(dm_vault d, dm_world d)"]
  by (auto simp: with_vault_def serves_def on_vault_def split: if_splits prod.splits)

lemma serves_with_vault_result:
  assumes "stepping X p (on_vault m)" "with_vault_result m d = (d', rsp)"
  shows "serves X p d d'"
  using assms(2) evolvesD [OF assms(1), of "(dm_vault d, dm_world d)"]
  by (auto simp: with_vault_result_def serves_def on_vault_def split: if_splits prod.splits)

lemma serves_with_witness:
  assumes "\<And>q. dm_witness d = Some q \<Longrightarrow> stepping X p (m q)" "with_witness m d = (d', rsp)"
  shows "serves X p d d'"
  using assms(2) evolvesD [OF assms(1), of _ "(dm_vault d, dm_world d)"]
  by (auto simp: with_witness_def serves_def split: if_splits prod.splits option.splits)

lemma serves_with_witness_result:
  assumes "\<And>q. dm_witness d = Some q \<Longrightarrow> stepping X p (m q)" "with_witness_result m d = (d', rsp)"
  shows "serves X p d d'"
  using assms(2) evolvesD [OF assms(1), of _ "(dm_vault d, dm_world d)"]
  by (auto simp: with_witness_result_def serves_def split: if_splits prod.splits option.splits)

lemmas stepping_intros = stepping_then_do stepping_lift stepping_vault stepping_witness

lemmas serving = serves_with_vault [rotated] serves_with_witness [rotated] serves_with_vault_result [rotated]
  serves_with_witness_result [rotated]

lemma serves_long:
  assumes "try_acquire_long_operation d = Some e" "serves X p e e'"
  shows "serves X p d (drop_long_operation e')"
  using assms by (cases d, cases e') (auto simp: serves_def try_acquire_long_operation_def drop_long_operation_def split: if_splits)

lemma serves_verified: "serves X p d e \<Longrightarrow> serves X p d (e\<lparr>dm_verified_active_objects := n\<rparr>)"
  by (cases d, cases e) (auto simp: serves_def)

lemma serves_verify:
  assumes "dm_witness d = None \<or> dm_witness d = Some p" "daemon_verify X d = (d', rsp)"
  shows "serves X p d d'"
proof (cases "try_acquire_long_operation d")
  case (Some e)
  then have w: "dm_witness e = dm_witness d" by (auto simp: try_acquire_long_operation_def split: if_splits)
  obtain e' r where e': "(if dm_witness e \<noteq> None
      then with_witness_result (\<lambda>p. verify_active_objects_with_witness (sx_crypto X) (https_object_head (sx_crypto X) (sx_agent X) p)) e
      else with_vault_result (verify_active_objects (sx_crypto X)) e) = (e', r)" by (meson surj_pair)
  then have "serves X p e e'" using assms(1) w by (auto split: if_splits elim!: serving intro!: stepping_intros)
  with assms(2) Some e' show ?thesis
    by (auto simp: daemon_verify_def split: sum.splits if_splits intro: serves_long serves_verified)
qed (use assms in \<open>simp add: daemon_verify_def\<close>)

lemma serves_backup:
  assumes "daemon_backup X destination d = (d', rsp)"
  shows "serves X p d d'"
proof (cases "try_acquire_long_operation d")
  case (Some e)
  with assms show ?thesis
    by (auto simp: daemon_backup_def on_vault_then_do on_vault_lift split: prod.splits
        intro!: serves_long [OF Some] elim!: serving intro!: stepping_intros)
qed (use assms in \<open>simp add: daemon_backup_def\<close>)

lemma serves_dispatch:
  assumes "dm_witness d = None \<or> dm_witness d = Some p" "daemon_dispatch X rq d = (d', rsp)"
  shows "serves X p d d'"
proof (cases "dm_long_operation_active d \<and> rq \<noteq> RqShutdown")
  case False
  show ?thesis
  proof (cases rq)
    case (RqUnlock passphrase)
    with assms False show ?thesis
      by (auto simp: daemon_dispatch_def daemon_unlock_def Let_def on_vault_then_do on_vault_lift split: if_splits
        elim!: serving intro!: stepping_intros)
  next
    case RqLock
    with assms False show ?thesis by (auto simp: daemon_dispatch_def elim!: serving intro!: stepping_intros)
  next
    case (RqPut object_text plaintext_b64)
    with assms False show ?thesis
      by (auto simp: daemon_dispatch_def daemon_put_def Let_def on_vault_then_do on_vault_lift
        split: if_splits sum.splits option.splits elim!: serving intro!: stepping_intros)
  next
    case (RqGet object_text)
    with assms False show ?thesis
      by (auto simp: daemon_dispatch_def daemon_get_def Let_def on_vault_then_do on_vault_lift
        split: if_splits sum.splits option.splits elim!: serving intro!: stepping_intros)
  next
    case (RqRotatePassphrase current replacement)
    with assms False show ?thesis
      by (auto simp: daemon_dispatch_def on_vault_then_do on_vault_lift elim!: serving intro!: stepping_intros)
  next
    case RqVerify
    with assms False show ?thesis by (auto simp: daemon_dispatch_def intro: serves_verify)
  next
    case RqCheckpoint
    with assms False show ?thesis
      by (auto simp: daemon_dispatch_def on_vault_then_do on_vault_lift elim!: serving intro!: stepping_intros)
  next
    case (RqBackup destination)
    with assms False show ?thesis by (auto simp: daemon_dispatch_def intro: serves_backup)
  next
    case RqShutdown
    with assms show ?thesis by (auto simp: daemon_dispatch_def serves_def split: if_splits)
  qed (use assms False in \<open>auto simp: daemon_dispatch_def\<close>)
qed (use assms in \<open>simp add: daemon_dispatch_def\<close>)

lemma serves_put_stream:
  assumes "put_stream X object_text d ch = (d', out)"
  shows "serves X p d d'"
proof (cases "try_acquire_long_operation d")
  case (Some e)
  obtain e' o' where e': "put_stream_admitted X object_text e ch = (e', o')" by (meson surj_pair)
  have "serves X p e (e\<lparr>dm_vault := v\<rparr>)" if "put_from_reader (sx_crypto X) oid rs (dm_vault e) = (v, r)" for oid rs v r
    using evolvesD [OF stepping_vault(4), of X oid rs "(dm_vault e, dm_world e)" "(v, dm_world e)" r p] that
    by (simp add: serves_def on_vault_def)
  with e' have "serves X p e e'"
    by (auto simp: put_stream_admitted_def split: sum.splits prod.splits if_splits)
  with assms Some e' show ?thesis by (auto simp: put_stream_def intro: serves_long)
qed (use assms in \<open>simp add: put_stream_def\<close>)

lemma serves_get_stream:
  assumes "get_stream X object_text d ch = (d', out)"
  shows "serves X p d d'"
proof (cases "try_acquire_long_operation d")
  case (Some e)
  obtain e' o' where e': "get_stream_admitted X object_text e ch = (e', o')" by (meson surj_pair)
  have "serves X p e (e\<lparr>dm_vault := v\<rparr>)"
    if "get_to_writer (sx_crypto X) stream_writer_write oid (dm_vault e) ch1 = (v, ch2, r)" for oid ch1 v ch2 r
    using guarded_download [OF that] by (auto simp: serves_def)
  with e' have "serves X p e e'"
    by (auto simp: get_stream_admitted_def split: sum.splits prod.splits if_splits)
  with assms Some e' show ?thesis by (auto simp: get_stream_def intro: serves_long)
qed (use assms in \<open>simp add: get_stream_def\<close>)

lemma serves_stream:
  assumes "dm_witness d = None \<or> dm_witness d = Some p" "serve_stream X timeouts_set peer d ch = (d', out)"
  shows "serves X p d d'"
  using assms
  by (auto simp: serve_stream_def split: if_splits prod.splits sum.splits request.splits
      intro: serves_put_stream serves_get_stream serves_dispatch)

lemma guarded_steps_keep:
  assumes "aead_correct (sx_crypto X)" "(guarded_step X p)\<^sup>*\<^sup>* s s'"
  shows "keeps (fst s) (fst s')"
  using assms(2) by (induction rule: rtranclp_induct) (auto intro: keeps_trans guarded_step_keeps [OF assms(1)])

lemma serves_fields:
  assumes "serves X p d d'"
  shows "dm_config d' = dm_config d" "dm_witness d' = dm_witness d" "dm_long_operation_active d' = dm_long_operation_active d"
    "dm_vault_poisoned d' = dm_vault_poisoned d" "dm_witness_poisoned d' = dm_witness_poisoned d"
    "dm_recovery_poisoned d' = dm_recovery_poisoned d" "dm_active_connections d' = dm_active_connections d"
  using assms by (cases d, cases d', simp add: serves_def)+

section \<open>Sequences of connections\<close>

inductive connection :: "'w services \<Rightarrow> 'w daemon \<Rightarrow> 'w daemon \<Rightarrow> bool" for X where
  connection: "serve_stream X timeouts_set peer d ch = (d', out) \<Longrightarrow> connection X d d'"

text \<open>C9. The daemon is no way around the vault. Along every sequence of connections, from whichever peers, with whatever
  bytes and whichever failures of reads, writes, engine calls and the witness, what happens to the vault and the
  witness are steps of vault operations, downloads and backups under the configured witness. So no stored
  version changes, a well-formed database stays well-formed, and the vault keeps its identity. Nothing else
  changes but the verified count and the request to shut down; the permit for long operations is as it was.\<close>

theorem connections_keep_versions:
  assumes "aead_correct (sx_crypto X)" "dm_witness d = None \<or> dm_witness d = Some p" and "(connection X)\<^sup>*\<^sup>* d d'"
  shows "serves X p d d' \<and> frozen (tables (dm_vault d)) (tables (dm_vault d'))
    \<and> (db_ok (tables (dm_vault d)) \<longrightarrow> db_ok (tables (dm_vault d')))
    \<and> vault_id_of (dm_vault d') = vault_id_of (dm_vault d) \<and> dm_long_operation_active d' = dm_long_operation_active d"
proof -
  from assms(3) have s: "serves X p d d'"
  proof (induction rule: rtranclp_induct)
    case (step e e')
    from step(2) assms(2) serves_fields(2) [OF step.IH] have "serves X p e e'" by (auto elim!: connection.cases intro: serves_stream)
    with step.IH show ?case by (rule serves_trans)
  qed simp
  then have "keeps (dm_vault d) (dm_vault d')"
    using guarded_steps_keep [OF assms(1)] by (fastforce simp: serves_def)
  with s show ?thesis by (auto simp: keeps_def serves_fields)
qed

section \<open>Refused connections\<close>

lemma read_frame_outgoing: "read_frame parse ch = (ch', r) \<Longrightarrow> outgoing ch' = outgoing ch"
  by (auto simp: read_frame_def then_do_def read_exact_def Let_def split: prod.splits sum.splits if_splits)

text \<open>The error a connection is refused with, if it is: the peer is not the allowed user, what it sent is no
  request, or a long operation is under way and the request is another one than to shut down.\<close>

definition refusal :: "'w services \<Rightarrow> u32 option \<Rightarrow> 'w daemon \<Rightarrow> channel \<Rightarrow> error_code option" where
  "refusal X peer d ch =
     (if \<not> authorize peer d then Some CodeUnauthorized
      else case snd (read_frame (sx_parse_request X) ch) of
        Inl _ \<Rightarrow> Some CodeProtocol
      | Inr rq \<Rightarrow> if dm_long_operation_active d \<and> rq \<noteq> RqShutdown then Some CodeOverloaded else None)"

lemma refused:
  assumes "refusal X peer d ch = Some code" "serve_stream X True peer d ch = (d', ch', r)"
  obtains ch1 message where "d' = d" "outgoing ch1 = outgoing ch" "write_response X (error_response code message) ch1 = (ch', r)"
proof (cases "authorize peer d")
  case True
  obtain ch1 r1 where rf: "read_frame (sx_parse_request X) ch = (ch1, r1)" by (meson surj_pair)
  have out: "outgoing ch1 = outgoing ch" by (rule read_frame_outgoing [OF rf])
  show thesis
  proof (cases r1)
    case (Inl e)
    with assms True rf have "d' = d" "code = CodeProtocol"
      "write_response X (error_response CodeProtocol ''invalid local protocol request'') ch1 = (ch', r)"
      by (auto simp: refusal_def serve_stream_def)
    with that out show thesis by blast
  next
    case (Inr rq)
    with assms True rf have "code = CodeOverloaded" "dm_long_operation_active d" "rq \<noteq> RqShutdown"
      by (auto simp: refusal_def split: if_splits)
    moreover from this assms(2) True rf Inr have "d' = d" "write_response X (overloaded_response BUSY) ch1 = (ch', r)"
      by (auto simp: serve_stream_def put_stream_def get_stream_def try_acquire_long_operation_def daemon_dispatch_def
          split: request.splits)
    ultimately show thesis using that out by (auto simp: overloaded_response_def)
  qed
qed (use assms that in \<open>auto simp: refusal_def serve_stream_def\<close>)

text \<open>C35. A refused connection changes nothing: when the peer is not the allowed user, or what it sent is not a well-formed
  request, or a long operation is under way and the request is not the one to shut down, then the daemon,
  its vault and its witness are exactly as they were, and a client that gets an answer reads the error with
  the matching code and nothing after it.\<close>

theorem refused_connection_changes_nothing:
  assumes "codec_law (sx_print_response X) parse"
    and "refusal X peer d ch = Some code" and "serve_stream X True peer d ch = (d', ch', r)"
  shows "d' = d \<and> (r = Inr () \<longrightarrow>
    (\<exists>rd message. read_frame parse (channel_of (sent ch ch')) = (rd, Inr (error_response code message)) \<and> incoming rd = []))"
proof -
  obtain ch1 message where w: "d' = d" "outgoing ch1 = outgoing ch" "write_response X (error_response code message) ch1 = (ch', r)"
    by (rule refused [OF assms(2,3)])
  have "read_frame parse (channel_of (sent ch ch')) = ((channel_of (sent ch ch'))\<lparr>incoming := []\<rparr>, Inr (error_response code message))"
    if "r = Inr ()"
  proof (rule client_reads_response [OF assms(1)])
    show "write_response X (error_response code message) ch1 = (ch', Inr ())" using w(3) that by simp
    show "incoming (channel_of (sent ch ch')) = sent ch1 ch' @ []" using w(2) by (simp add: sent_def)
  qed
  with w(1) show ?thesis by auto
qed

theorem refused_connection_changes_nothing_witness:
  "\<exists>d ch' rd message. serve_stream (sample_services sample_agent) True (Some 0) (sample_daemon sample_vault None ()) upload_channel = (d, ch', Inr ())
     \<and> d = sample_daemon sample_vault None ()
     \<and> read_frame sample_parse_response (channel_of (sent upload_channel ch')) = (rd, Inr (error_response CodeUnauthorized message))"
proof -
  have no: "\<not> authorize (Some 0) (sample_daemon sample_vault None ())"
    by (simp add: authorize_def sample_daemon_def for_current_user_def)
  let ?rsp = "error_response CodeUnauthorized ''local peer is not authorized''"
  obtain ch' where w: "write_response (sample_services sample_agent) ?rsp upload_channel = (ch', Inr ())"
    by (rule write_response_quiet [of upload_channel "sample_services sample_agent" ?rsp
        "3 # code_byte sample_codes CodeUnauthorized # text_bytes ''local peer is not authorized''"])
       (simp_all add: upload_channel_def error_response_def failure_of_def text_bytes_def MAX_FRAME_BYTES_def)
  have s: "serve_stream (sample_services sample_agent) True (Some 0) (sample_daemon sample_vault None ()) upload_channel
      = (sample_daemon sample_vault None (), ch', Inr ())"
    using no w by (simp add: serve_stream_def)
  have "refusal (sample_services sample_agent) (Some 0) (sample_daemon sample_vault None ()) upload_channel = Some CodeUnauthorized"
    using no by (simp add: refusal_def)
  from refused_connection_changes_nothing [OF daemon_sample_laws(1) this s] s show ?thesis by auto
qed

theorem connections_keep_versions_witness:
  "\<exists>v. (connection (sample_services sample_agent))\<^sup>*\<^sup>* (sample_daemon sample_vault None ()) (sample_daemon v None ())
     \<and> db_ok (tables v) \<and> contents toy_crypto (replicate 32 7) (replicate 16 1) (tables v) (replicate 16 2) = Some [1, 2, 3]"
proof -
  obtain v ver ch where up: "put_stream (sample_services sample_agent) sample_object (sample_daemon sample_vault None ()) upload_channel
      = (sample_daemon v None (), ch, Inr ())" "put_from_reader toy_crypto (replicate 16 2) [Data [1, 2, 3]] sample_vault = (v, Inr ver)"
    by (rule sample_upload)
  let ?ch = "channel_of (prefixed [2] @ incoming upload_channel)"
  have "read_frame sample_parse_request ?ch = (upload_channel, Inr (RqPutStream sample_object))"
    using read_frame_prefixed [of ?ch "[2]" "incoming upload_channel" sample_parse_request]
    by (simp add: MAX_FRAME_BYTES_def sample_parse_request_def upload_channel_def channel_of_def)
  with up(1) have "serve_stream (sample_services sample_agent) True (Some 1000) (sample_daemon sample_vault None ()) ?ch = (sample_daemon v None (), ch, Inr ())"
    by (simp add: serve_stream_def authorize_def) (simp add: sample_daemon_def for_current_user_def)
  then have c: "(connection (sample_services sample_agent))\<^sup>*\<^sup>* (sample_daemon sample_vault None ()) (sample_daemon v None ())"
    by (blast intro: r_into_rtranclp connection.intros)
  have "db_ok (tables v)"
    using connections_keep_versions [OF daemon_sample_laws(2) _ c] daemon_sample_laws(4) by simp
  moreover have "contents toy_crypto (replicate 32 7) (replicate 16 1) (tables v) (replicate 16 2) = Some [1, 2, 3]"
  proof -
    have "channel_deliveries sample_parse_response upload_channel = [Data [1, 2, 3]]"
      using stream_delivered [of upload_channel "[[1, 2, 3]]" "[]" sample_parse_response]
      by (simp add: upload_channel_def MAX_STREAM_CHUNK_BYTES_def)
    with up(2) have p: "put_from_reader toy_crypto (replicate 16 2) (channel_deliveries sample_parse_response upload_channel) sample_vault
        = (v, Inr ver)" by simp
    obtain rk cs rest where st: "vt_root_key sample_vault = Some rk"
      "incoming upload_channel = stream_bytes cs @ u32_to_be_bytes STREAM_END @ rest" "list_all stream_chunk_ok cs"
      "contents toy_crypto rk (vault_id_of sample_vault) (tables v)
        = (contents toy_crypto rk (vault_id_of sample_vault) (tables sample_vault))(replicate 16 2 \<mapsto> concat cs)"
      by (rule upload_stored [OF toy_crypto_laws(1,5) sample_vault_simps(1) p])
    from st(1,4) upload_channel_chunks [OF st(2,3)] show ?thesis by (auto simp: sample_vault_fields)
  qed
  ultimately show ?thesis using c by blast
qed

section \<open>Answers fit their requests\<close>

definition answer_fits :: "request \<Rightarrow> success \<Rightarrow> bool" where
  "answer_fits rq s =
     (case rq of
        RqStatus \<Rightarrow>
          (case s of
             ScStatus st \<Rightarrow> st_format st = ''VLT/1'' \<and> is_lower_hex (st_vault_id st) 16
               \<and> (st_lifecycle st = ''locked'' \<or> st_lifecycle st = ''unlocked'')
           | _ \<Rightarrow> False)
      | RqPut _ _ \<Rightarrow> (case s of ScPublished version_id \<Rightarrow> is_lower_hex version_id 16 | _ \<Rightarrow> False)
      | RqGet _ \<Rightarrow> (case s of ScPlaintext _ \<Rightarrow> True | _ \<Rightarrow> False)
      | RqPutStream _ \<Rightarrow> False
      | RqGetStream _ \<Rightarrow> False
      | RqVerify \<Rightarrow> (case s of ScVerified _ \<Rightarrow> True | _ \<Rightarrow> False)
      | RqBackup _ \<Rightarrow>
          (case s of ScBackup format database_sha256 _ \<Rightarrow> format = BACKUP_FORMAT \<and> is_lower_hex database_sha256 32 | _ \<Rightarrow> False)
      | _ \<Rightarrow> s = ScEmpty)"

lemma with_vault_Ok:
  assumes "with_vault m d = (d', ResponseOk s)"
  obtains v' where "m (dm_vault d) = (v', Inr s)" "d' = d\<lparr>dm_vault := v'\<rparr>" "\<not> dm_vault_poisoned d"
  using assms by (auto simp: with_vault_def result_response_def error_response_def split: if_splits prod.splits sum.splits)

lemma with_witness_Ok:
  assumes "with_witness m d = (d', ResponseOk s)"
  obtains p v' w' where "dm_witness d = Some p" "m p (dm_vault d, dm_world d) = ((v', w'), Inr s)"
    "d' = d\<lparr>dm_vault := v', dm_world := w'\<rparr>"
  using assms
  by (auto simp: with_witness_def result_response_def error_response_def split: option.splits if_splits prod.splits sum.splits)

lemma lower_not_uppercase: "lower_hexdigit c \<Longrightarrow> \<not> is_ascii_uppercase c"
  by (auto simp: lower_hexdigit_def is_ascii_uppercase_def)

lemma to_hex_lower:
  assumes "length bs = n"
  shows "is_lower_hex (to_hex bs) n"
proof -
  have "list_all lower_hexdigit (to_hex bs)" using hex_encode_wf [of bs] by (simp add: to_hex_eq)
  then have "list_all (\<lambda>c. is_ascii_hexdigit c \<and> \<not> is_ascii_uppercase c) (to_hex bs)"
    by (rule list.pred_mono_strong) (use lower_is_hexdigit lower_not_uppercase in blast)
  then show ?thesis using assms by (simp add: is_lower_hex_def length_to_hex)
qed

lemma put_version:
  assumes "aead_correct C" "put C oid pt v = (v', Inr ver)"
  shows "length ver = 16"
proof -
  from assms(2) have "put_inner C oid pt DEFAULT_CHUNK_SIZE v = (v', Inr ver)"
    by (simp add: put_def put_with_chunk_size_def)
  with assms(1) show ?thesis
    by (cases rule: put_inner_cases) (auto simp: publishable_def version_fits_def id_ok_def split: sum.splits)
qed

lemma put_with_witness_version:
  assumes "aead_correct C" "put_with_witness C issue oid pt (v, p) = ((v', p'), Inr ver)"
  shows "length ver = 16"
proof -
  from assms(2) have "put_with_witness_inner C issue oid pt (v, p) = ((v', p'), Inr ver)"
    by (simp add: put_with_witness_def)
  with assms(1) show ?thesis
    by (cases rule: put_with_witness_cases) (auto simp: publishable_def version_fits_def id_ok_def split: sum.splits)
qed

lemma backup_answer:
  assumes "hash_width C" "inodes_ok (files v)" "backup_to C N S to_json destination v = (v', Inr m)"
  shows "bm_format m = BACKUP_FORMAT \<and> is_lower_hex (bm_database_sha256 m) 32"
  using create_snapshot_Inr [OF assms(2) assms(3) [unfolded backup_to_def create_backup_def]] assms(1)
  by (auto simp: manifest_for_def hash_width_def intro: to_hex_lower)

text \<open>C36. An answer has the type of its request: a success that the daemon answers is the payload that the protocol has for the
  request, with identifiers and digests in lowercase hexadecimal of their width, whatever state the vault is
  in and whether a witness is configured or not.\<close>

theorem dispatch_typed:
  assumes "aead_correct (sx_crypto X)" "hash_width (sx_crypto X)" "length (vault_id_of (dm_vault d)) = 16"
    and "inodes_ok (files (dm_vault d))" and "daemon_dispatch X rq d = (d', ResponseOk s)"
  shows "answer_fits rq s"
proof (cases rq)
  case RqStatus
  with assms(3,5) show ?thesis
    by (auto intro!: to_hex_lower simp: answer_fits_def daemon_dispatch_def daemon_status_def overloaded_response_def error_response_def
        split: if_splits vault_status.splits)
next
  case (RqUnlock pw)
  with assms(5) show ?thesis
    by (auto simp: answer_fits_def daemon_dispatch_def daemon_unlock_def Let_def overloaded_response_def error_response_def then_do_eq_Inr
        lift_result_def split: if_splits elim!: with_vault_Ok with_witness_Ok)
next
  case (RqPut a b)
  with assms(5) show ?thesis
    by (auto intro!: to_hex_lower simp: answer_fits_def daemon_dispatch_def daemon_put_def Let_def overloaded_response_def error_response_def then_do_eq_Inr
        lift_result_def daemon_parse_object_id_def split: if_splits sum.splits option.splits elim!: with_vault_Ok with_witness_Ok)
       (erule put_with_witness_version [OF assms(1)] put_version [OF assms(1)])+
next
  case (RqGet a)
  with assms(5) show ?thesis
    by (auto simp: answer_fits_def daemon_dispatch_def daemon_get_def Let_def overloaded_response_def error_response_def then_do_eq_Inr
        lift_result_def daemon_parse_object_id_def split: if_splits sum.splits elim!: with_vault_Ok with_witness_Ok)
next
  case (RqBackup destination)
  with assms(5) obtain v' m where "backup_to (sx_crypto X) (sx_snapshots X) (sx_os X) (sx_backup_json X) destination (dm_vault d)
      = (v', Inr m)" "s = ScBackup (bm_format m) (bm_database_sha256 m) (bm_database_bytes m)"
    by (auto simp: answer_fits_def daemon_dispatch_def daemon_backup_def try_acquire_long_operation_def overloaded_response_def error_response_def
        then_do_eq_Inr lift_result_def split: if_splits prod.splits elim!: with_vault_Ok)
  with RqBackup backup_answer [OF assms(2,4)] show ?thesis by (auto simp: answer_fits_def)
next
  case RqVerify
  with assms(5) show ?thesis
    by (auto simp: answer_fits_def daemon_dispatch_def daemon_verify_def overloaded_response_def error_response_def
        split: if_splits option.splits prod.splits sum.splits)
qed (use assms(5) in \<open>auto simp: answer_fits_def daemon_dispatch_def overloaded_response_def error_response_def then_do_eq_Inr lift_result_def
        split: if_splits elim!: with_vault_Ok\<close>)

theorem dispatch_typed_witness:
  "\<exists>v' version_id. daemon_dispatch (sample_services sample_agent) (RqPut sample_object (bytes_text [1, 2, 3])) (sample_daemon sample_vault None ())
       = (sample_daemon v' None (), ResponseOk (ScPublished version_id)) \<and> is_lower_hex version_id 16"
proof -
  obtain v' ver where p: "put_with_chunk_size toy_crypto (replicate 16 2) [1, 2, 3] DEFAULT_CHUNK_SIZE sample_vault = (v', Inr ver)"
    using sample_put by blast
  have b: "sx_base64_decode (sample_services sample_agent) (bytes_text [1, 2, 3]) = Some [1, 2, 3]"
    by (simp add: sample_services_def text_bytes_def bytes_text_def)
  have d: "daemon_dispatch (sample_services sample_agent) (RqPut sample_object (bytes_text [1, 2, 3])) (sample_daemon sample_vault None ())
      = (sample_daemon v' None (), ResponseOk (ScPublished (to_hex ver)))"
    using p b by (simp add: daemon_dispatch_def daemon_put_def with_vault_def then_do_def put_def lift_result_def result_response_def)
       (simp add: sample_daemon_def)
  have "length (vault_id_of sample_vault) = 16" "inodes_ok (files sample_vault)"
    by (simp add: sample_vault_fields) (auto simp: sample_vault_def inodes_ok_def sample_files_def)
  with dispatch_typed [OF daemon_sample_laws(2,3) _ _ d] d show ?thesis by (auto simp: answer_fits_def)
qed

end
