(* ===== verification/Vlt_Daemon_Witness.thy ===== *)
theory Vlt_Daemon_Witness
  imports Vlt_Daemon_Requests
begin

text \<open>
  The daemon with a configured witness. What \<open>get\<close> returns and what \<open>unlock\<close> accepts is fresh with respect
  to the witness service of \<open>Vlt_Witness_Service\<close>, through the provider contract of \<open>Vlt_Witness\<close>. Streamed
  uploads do not go through the witness, and leave a state that the other requests refuse.
\<close>

section \<open>Requests under a witness\<close>

lemma contents_active:
  assumes "contents C rk vid t oid \<noteq> None"
  obtains ob where "ob \<in> set (objects t)" "ob_object_id ob = oid"
proof -
  from assms obtain s where "lookup_active oid t = Inr s" by (auto simp: contents_def split: sum.splits)
  then obtain ver where "select_active oid t = Inr ver" by (auto simp: lookup_active_def and_then_eq_Inr)
  then obtain ob where "find (\<lambda>row. ob_object_id row = oid) (objects t) = Some ob" by (auto simp: select_active_def ok_or_eq_Inr)
  then show thesis using that [of ob] by (auto simp: find_Some_iff)
qed

text \<open>C15. Under a witness, what \<open>get\<close> answers is fresh: a plaintext that the daemon returns is the contents of the object's
  active version, and at that moment every active object of the database, the requested one among them, is
  readable and carries the receipt that the witness service has recorded last for it. So the answer never
  comes from a restored, older database, not even from one that is older in another object.\<close>

theorem strict_get_fresh:
  assumes "sx_agent X = service_agent (sx_crypto X) H J K token" and "dm_witness d = Some p"
    and "service_inv (sx_crypto X) H J K p (dm_world d)"
    and "daemon_dispatch X (RqGet object_text) d = (d', ResponseOk (ScPlaintext plaintext_b64))"
  shows "\<exists>oid pt rk. daemon_parse_object_id object_text = Inr oid \<and> plaintext_b64 = sx_base64_encode X pt
    \<and> vt_root_key (dm_vault d) = Some rk
    \<and> contents (sx_crypto X) rk (vault_id_of (dm_vault d)) (tables (dm_vault d)) oid = Some pt
    \<and> (\<exists>ob \<in> set (objects (tables (dm_vault d))). ob_object_id ob = oid)
    \<and> (\<forall>ob \<in> set (objects (tables (dm_vault d))).
        in_sync (sx_crypto X) (service_heads (sx_crypto X) (dm_world d)) (ws_public_key (sx_crypto X) (dm_world d))
          (vault_id_of (dm_vault d)) (tables (dm_vault d)) (ob_object_id ob)
        \<and> contents (sx_crypto X) rk (vault_id_of (dm_vault d)) (tables (dm_vault d)) (ob_object_id ob) \<noteq> None)"
proof -
  let ?C = "sx_crypto X" and ?v = "dm_vault d"
  from assms(2,4) obtain oid pt v1 v2 w n where oid: "daemon_parse_object_id object_text = Inr oid"
    and sweep: "verify_active_objects_with_witness ?C (https_object_head ?C (sx_agent X) p) (?v, dm_world d) = ((v1, w), Inr n)"
    and get: "get ?C oid v1 = (v2, Inr pt)" and b64: "plaintext_b64 = sx_base64_encode X pt"
    by (auto simp: daemon_dispatch_def daemon_get_def Let_def overloaded_response_def error_response_def then_do_eq_Inr
        lift_result_def on_vault_eq daemon_parse_object_id_def split: if_splits sum.splits elim!: with_witness_Ok)
  note f = ws.sweep_in_sync [OF assms(3) sweep [unfolded assms(1)]]
  have "get_inner ?C oid v1 = (v2, Inr pt)" using get by (simp add: get_def)
  from get_inner_Inr [OF this] f obtain rk where rk: "vt_root_key ?v = Some rk"
      "contents ?C rk (vault_id_of ?v) (tables ?v) oid = Some pt"
    by (auto simp: same_identity_def vault_id_of_def)
  then obtain ob where "ob \<in> set (objects (tables ?v))" "ob_object_id ob = oid"
    by (metis contents_active option.distinct(1))
  moreover have "\<forall>ob \<in> set (objects (tables ?v)).
      in_sync ?C (service_heads ?C (dm_world d)) (ws_public_key ?C (dm_world d)) (vault_id_of ?v) (tables ?v) (ob_object_id ob)
      \<and> contents ?C rk (vault_id_of ?v) (tables ?v) (ob_object_id ob) \<noteq> None"
    using f rk(1) by simp
  ultimately show ?thesis using rk oid b64 by blast
qed

text \<open>C16. Under a witness, \<open>unlock\<close> succeeds only on a fresh vault: when the daemon answers it with success, no publication is
  pending, every active object is readable and its stored receipt is the one the service has recorded last, and
  no stored version has changed.\<close>

theorem strict_unlock_fresh:
  assumes "sx_agent X = service_agent (sx_crypto X) H J K token" and "dm_witness d = Some p"
    and "service_inv (sx_crypto X) H J K p (dm_world d)" and "db_ok (tables (dm_vault d))"
    and "daemon_dispatch X (RqUnlock passphrase) d = (d', ResponseOk s)"
  shows "pending_rows (tables (dm_vault d')) = [] \<and> frozen (tables (dm_vault d)) (tables (dm_vault d'))
    \<and> (\<forall>ob \<in> set (objects (tables (dm_vault d'))).
        in_sync (sx_crypto X) (service_heads (sx_crypto X) (dm_world d')) (ws_public_key (sx_crypto X) (dm_world d'))
          (vault_id_of (dm_vault d')) (tables (dm_vault d')) (ob_object_id ob)
        \<and> (\<exists>rk. vt_root_key (dm_vault d') = Some rk
            \<and> contents (sx_crypto X) rk (vault_id_of (dm_vault d')) (tables (dm_vault d')) (ob_object_id ob) \<noteq> None))"
proof -
  let ?C = "sx_crypto X" and ?v = "dm_vault d"
  from assms(2,5) obtain v1 v2 v3 w2 w3 n m u where un: "unlock ?C passphrase ?v = (v1, Inr u)"
    and rec: "recover_pending_witness_publications ?C (https_issue_receipt ?C (sx_agent X) p) (v1, dm_world d) = ((v2, w2), Inr n)"
    and sweep: "verify_active_objects_with_witness ?C (https_object_head ?C (sx_agent X) p) (v2, w2) = ((v3, w3), Inr m)"
    and d': "d' = d\<lparr>dm_vault := v3, dm_world := w3\<rparr>"
    by (auto simp: daemon_dispatch_def daemon_unlock_def Let_def overloaded_response_def error_response_def then_do_eq_Inr
        lift_result_def on_vault_eq split: if_splits elim!: with_witness_Ok)
  have t: "tables v1 = tables ?v" using un by (auto simp: unlock_def split: sum.splits)
  note r = ws.recovered [OF assms(3) _ rec [unfolded assms(1)], unfolded t, OF assms(4)]
  then have inv: "service_inv ?C H J K p w2" by blast
  note f = ws.sweep_in_sync [OF inv sweep [unfolded assms(1)]]
  have k: "ws_public_key ?C w3 = ws_public_key ?C w2" "service_heads ?C w3 = service_heads ?C w2"
    using f by blast+
  from f have "vault_id_of v3 = vault_id_of v2" "vt_root_key v3 = vt_root_key v2" "tables v3 = tables v2"
    by (simp_all add: same_identity_def vault_id_of_def)
  with r f d' k show ?thesis by simp
qed

section \<open>Streamed uploads and the witness\<close>

lemma published_unwitnessed:
  assumes "publishable s cs t" "db_ok t" "numbered cs"
  shows "lookup_receipt C (sv_object_id s) (published s cs None t) = Inr None
    \<and> (\<exists>ob \<in> set (objects (published s cs None t)). ob_object_id ob = sv_object_id s)"
proof -
  note r = read_published [OF assms]
  from r(1,3) have "lookup_receipt C (sv_object_id s) (published s cs None t) = Inr None"
    by (simp add: lookup_receipt_def)
  moreover from r(1) obtain ver where "select_active (sv_object_id s) (published s cs None t) = Inr ver"
    by (auto simp: lookup_active_def and_then_eq_Inr)
  then have "find (\<lambda>row. ob_object_id row = sv_object_id s) (objects (published s cs None t)) \<noteq> None"
    by (auto simp: select_active_def ok_or_eq_Inr)
  ultimately show ?thesis by (auto simp: find_None_iff)
qed

lemma upload_unwitnessed:
  assumes "aead_correct C" "db_ok (tables v)" "honest_reader rs" "put_from_reader C oid rs v = (v', Inr ver)"
  shows "lookup_receipt C oid (tables v') = Inr None \<and> (\<exists>ob \<in> set (objects (tables v')). ob_object_id ob = oid)"
proof -
  from assms(4) have "put_from_reader_inner C oid rs DEFAULT_CHUNK_SIZE v = (v', Inr ver)"
    by (simp add: put_from_reader_def put_from_reader_with_chunk_size_def)
  with assms(1) show ?thesis
  proof (cases rule: put_from_reader_cases)
    case (committed rk s cs u)
    have "numbered cs" using committed(2) assms(3) by (simp add: streams_def encrypts_def)
    from published_unwitnessed [OF committed(4) assms(2) this, of C] committed show ?thesis by simp
  qed simp
qed

lemma unwitnessed_sweep:
  assumes "service_inv C H J K p s" "ob \<in> set (objects (tables v))" "lookup_receipt C (ob_object_id ob) (tables v) = Inr None"
  shows "verify_active_objects_with_witness C (https_object_head C (service_agent C H J K token) p) (v, s) \<noteq> (s', Inr n)"
proof
  assume a: "verify_active_objects_with_witness C (https_object_head C (service_agent C H J K token) p) (v, s) = (s', Inr n)"
  obtain v1 s1 where "s' = (v1, s1)" by force
  from ws.sweep_in_sync [OF assms(1) a [unfolded this]] assms(2,3) show False by (auto simp: in_sync_def)
qed

lemma recover_nothing:
  assumes "recover_pending_witness_publications C issue (v, p) = ((v', p'), Inr n)" "pending_rows (tables v) = []"
  shows "tables v' = tables v" "p' = p"
proof -
  from assms(1) obtain v1 pending where pend: "pending_witness_publications v = (v1, Inr pending)"
    and rec: "recover_all C issue pending (v1, p) = ((v', p'), Inr ())"
    by (auto simp: recover_pending_witness_publications_def recover_pending_witness_publications_inner_def then_do_eq_Inr
        split: sum.splits)
  with pending_publications_Inr [OF pend] assms(2) show "tables v' = tables v" "p' = p" by auto
qed

text \<open>C17. A streamed upload leaves the witness behind: under a configured witness, an acknowledged upload activates a version
  without a receipt, which the witness never saw. From then on, and as long as the tables stay as they are,
  the daemon answers neither \<open>get\<close> nor \<open>verify\<close> with success, for any object and whatever the service
  answers, nor \<open>unlock\<close> when nothing is pending.\<close>

theorem streamed_upload_unwitnessed:
  assumes "codec_law (sx_print_response X) parse" "aead_correct (sx_crypto X)" "db_ok (tables (dm_vault d))"
    and "sx_agent X = service_agent (sx_crypto X) H J K token"
    and "put_stream X object_text d ch = (d', ch', Inr ())"
    and "incoming rd = sent ch ch'" "read_frame parse rd = (rd1, Inr (ResponseOk ScStreamReady))"
    and "read_frame parse rd1 = (rd2, Inr (ResponseOk (ScPublished ver)))"
    and "dm_witness e = Some p" "service_inv (sx_crypto X) H J K p (dm_world e)" "tables (dm_vault e) = tables (dm_vault d')"
    and "rq = RqVerify \<or> rq = RqGet any_object \<or> rq = RqUnlock passphrase \<and> pending_rows (tables (dm_vault d')) = []"
    and "daemon_dispatch X rq e = (e', rsp)"
  shows "\<exists>f. rsp = ResponseError f"
proof -
  let ?C = "sx_crypto X"
  obtain oid ch1 v n where c: "put_from_reader ?C oid (channel_deliveries (sx_parse_response X) ch1) (dm_vault d) = (v, Inr n)"
    "d' = d\<lparr>dm_vault := v\<rparr>"
    by (rule acknowledged_commit [OF assms(1,5-8)]) blast
  obtain ob where ob: "ob \<in> set (objects (tables (dm_vault e)))" "lookup_receipt ?C (ob_object_id ob) (tables (dm_vault e)) = Inr None"
    using upload_unwitnessed [OF assms(2,3) channel_deliveries_honest c(1)] c(2) assms(11) by auto
  have sweep: "verify_active_objects_with_witness ?C (https_object_head ?C (sx_agent X) p) (u, dm_world e) \<noteq> (s', Inr m)"
    if "tables u = tables (dm_vault e)" for u s' m
    using unwitnessed_sweep [OF assms(10), of ob u] ob that assms(4) by simp
  show ?thesis
  proof (cases rsp)
    case (ResponseOk s)
    consider "rq = RqVerify" | "rq = RqGet any_object" | "rq = RqUnlock passphrase" "pending_rows (tables (dm_vault e)) = []"
      using assms(11,12) by auto
    then show ?thesis
    proof cases
      case 1
      with ResponseOk assms(9,13) sweep show ?thesis
        by (auto simp: daemon_dispatch_def daemon_verify_def overloaded_response_def error_response_def with_witness_result_def
            try_acquire_long_operation_def split: if_splits option.splits prod.splits sum.splits)
    next
      case 2
      with ResponseOk assms(9,13) sweep show ?thesis
        by (auto simp: daemon_dispatch_def daemon_get_def Let_def overloaded_response_def error_response_def then_do_eq_Inr
            daemon_parse_object_id_def split: if_splits sum.splits elim!: with_witness_Ok)
    next
      case 3
      then obtain v1 v2 w2 s' n m u where un: "unlock ?C passphrase (dm_vault e) = (v1, Inr u)"
        and rec: "recover_pending_witness_publications ?C (https_issue_receipt ?C (sx_agent X) p) (v1, dm_world e) = ((v2, w2), Inr n)"
        and sw: "verify_active_objects_with_witness ?C (https_object_head ?C (sx_agent X) p) (v2, w2) = (s', Inr m)"
        using ResponseOk assms(9,13)
        by (auto simp: daemon_dispatch_def daemon_unlock_def Let_def overloaded_response_def error_response_def then_do_eq_Inr
            lift_result_def on_vault_eq split: if_splits elim!: with_witness_Ok)
      have "tables v1 = tables (dm_vault e)" using un by (auto simp: unlock_def split: sum.splits)
      with recover_nothing [OF rec] 3(2) sweep sw show ?thesis by simp
    qed
  qed simp
qed

section \<open>Concrete runs under a witness\<close>

theorem streamed_upload_unwitnessed_witness:
  "\<exists>v ch e' f. put_stream (sample_services sample_witness) sample_object
       (sample_daemon sample_vault (Some sample_provider) sample_service) upload_channel
       = (sample_daemon v (Some sample_provider) sample_service, ch, Inr ())
     \<and> daemon_dispatch (sample_services sample_witness) RqVerify (sample_daemon v (Some sample_provider) sample_service)
       = (e', ResponseError f)"
proof -
  obtain v ver ch rd1 rd2 where run: "put_stream (sample_services sample_witness) sample_object
      (sample_daemon sample_vault (Some sample_provider) sample_service) upload_channel
      = (sample_daemon v (Some sample_provider) sample_service, ch, Inr ())"
    "read_frame sample_parse_response (channel_of (sent upload_channel ch)) = (rd1, Inr (ResponseOk ScStreamReady))"
    "read_frame sample_parse_response rd1 = (rd2, Inr (ResponseOk (ScPublished (to_hex ver))))"
    by (rule sample_acknowledged)
  obtain e' rsp where d: "daemon_dispatch (sample_services sample_witness) RqVerify
      (sample_daemon v (Some sample_provider) sample_service) = (e', rsp)" by force
  have ag: "sx_agent (sample_services sample_witness)
      = service_agent (sx_crypto (sample_services sample_witness)) sample_hex sample_json sample_json_client ''t''" by simp
  have "\<exists>f. rsp = ResponseError f"
    by (rule streamed_upload_unwitnessed [OF daemon_sample_laws(1,2,4) ag run(1) _ run(2,3) _ _ _ _ d])
       (use sample_inv in simp_all)
  with run(1) d show ?thesis by blast
qed

text \<open>A codec that carries one head and its query.\<close>

definition head_json :: "head_wire_request \<Rightarrow> witness_head \<Rightarrow> json_codec" where
  "head_json q h = \<lparr>
     parse_issue_request = (\<lambda>_. None), parse_head_request = (\<lambda>bs. if bs = [1] then Some q else None),
     write_issue_response = (\<lambda>_. None), write_head_response = (\<lambda>r. if r = head_response sample_hex h then Some [1] else None)\<rparr>"

definition head_client :: "head_wire_request \<Rightarrow> witness_head \<Rightarrow> json_client" where
  "head_client q h = \<lparr>
     write_issue_request = (\<lambda>_. []), write_head_request = (\<lambda>w. if w = q then [1] else []),
     read_issue_response = (\<lambda>_. None), read_head_response = (\<lambda>bs. if bs = [1] then Some (head_response sample_hex h) else None)\<rparr>"

lemma head_codec:
  "json_law (head_json q h) (head_client q h)"
  "parse_head_request (head_json q h) (write_head_request (head_client q h) q) = Some q"
  "length (write_head_request (head_client q h) q) \<le> MAX_WIRE_BODY"
  "write_head_response (head_json q h) (head_response sample_hex h) = Some [1]" "length [1 :: u8] \<le> MAX_HTTP_BODY"
  "read_head_response (head_client q h) [1] = Some (head_response sample_hex h)"
  by (auto simp: json_law_def head_json_def head_client_def MAX_WIRE_BODY_def MAX_HTTP_BODY_def split: if_splits)

text \<open>A vault and a service after one publication under the witness.\<close>

lemma sample_witnessed:
  obtains v s r where "healthy v" "db_ok (tables v)" "pending_rows (tables v) = []"
    "map ob_object_id (objects (tables v)) = [replicate 16 2]"
    "vault_id_of v = replicate 16 1" "vt_root_key v = Some (replicate 32 7)"
    "contents toy_crypto (replicate 32 7) (replicate 16 1) (tables v) (replicate 16 2) = Some [1, 2, 3]"
    "lookup_receipt toy_crypto (replicate 16 2) (tables v) = Inr (Some r)" "receipt_ok r"
    "service_heads toy_crypto s (replicate 16 1) (replicate 16 2) = Some r" "rc_public_key r = ws_public_key toy_crypto s"
    "faults s = (\<lambda>_. False)" "service_ok toy_crypto s" "trusted sample_provider (ws_public_key toy_crypto s)"
proof -
  obtain v1 s cs where st: "publishable s cs empty_database" "healthy v1" "tables v1 = staged s cs 0 empty_database"
    and put: "\<And>(issue :: witness_service issuer) p. put_with_witness_inner toy_crypto issue (replicate 16 2) [1, 2, 3] (sample_vault, p)
          = then_do (acknowledge toy_crypto issue (replicate 16 1) s 0) (\<lambda>_. lift_result (Inr (sv_version_id s))) (v1, p)"
    using sample_staged by blast
  let ?rq = "publication_request toy_crypto (replicate 16 1) s"
  obtain r v p where ack: "acknowledge toy_crypto (exchange ?rq 0 r) (replicate 16 1) s 0 (v1, fresh_service) = ((v, p), Inr ())"
    and v: "healthy v" "tables v = finalized s r (tables v1)" and p: "faults p = (\<lambda>_. False)" and r: "receipt_ok r"
    using sample_acknowledge [OF st(2,3,1), of "replicate 16 1"] by (auto simp: id_ok_def)
  have i: "put_with_witness_inner toy_crypto (exchange ?rq 0 r) (replicate 16 2) [1, 2, 3] (sample_vault, fresh_service)
      = ((v, p), Inr (sv_version_id s))"
    using ack by (simp add: put then_do_def lift_result_def)
  then have "put_with_witness toy_crypto (exchange ?rq 0 r) (replicate 16 2) [1, 2, 3] (sample_vault, fresh_service)
      = ((v, p), Inr (sv_version_id s))"
    by (simp add: put_with_witness_def)
  note w = ws.put_witnessed [OF fresh_inv toy_crypto_laws(1,5) sample_vault_simps(1) this]
  have at: "vault_id_of sample_vault = replicate 16 1" "vt_root_key sample_vault = Some (replicate 32 7)"
    "tables sample_vault = empty_database" by (simp_all add: sample_vault_def vault_id_of_def)
  from toy_crypto_laws(1) i show thesis
  proof (cases rule: put_with_witness_cases)
    case (committed rk s' cs' e rc u)
    note iss = ws.issue_receipt [OF fresh_inv committed(7)] and inv = ws.issue_inv [OF fresh_inv committed(7)]
    have heads: "service_heads toy_crypto p (replicate 16 1) (replicate 16 2) = Some rc"
      using iss committed(3) at(1) by (simp add: request_new_def)
    have wit: "lookup_receipt toy_crypto (replicate 16 2) (tables v) = Inr (Some rc)"
      using w heads at(1) by (auto simp: witnessed_def)
    have t: "pending_rows (tables v) = []" "map ob_object_id (objects (tables v)) = [replicate 16 2]"
      using committed(3,5) at(3)
      by (simp_all add: finalized_def staged_def stored_def empty_database_def activate_def upsert_def)
    show thesis
    proof (rule that [OF v(1) _ t _ _ _ wit _ heads _ p])
      show "vault_id_of v = replicate 16 1" "vt_root_key v = Some (replicate 32 7)"
        using committed(6) at(1,2) by (simp_all add: same_identity_def vault_id_of_def)
    qed (use w inv iss committed(9) at in \<open>auto simp: service_inv_def receipt_fits_def\<close>)
  qed simp_all
qed

lemma get_to_sink_healthy:
  assumes "healthy v" "vt_root_key v = Some rk" "contents C rk (vault_id_of v) (tables v) oid = Some pt"
  shows "get_to_writer_inner C write_sink oid v () = (v, (), Inr ())"
proof -
  from assms(3) obtain s dek m cs parts where "opened_version C rk (vault_id_of v) (tables v) oid s dek m cs"
    "open_parts C dek (vault_id_of v) oid (sv_version_id s) m cs = Some parts"
    "length (concat parts) = unat (mf_plaintext_len m)"
    unfolding contents_Some by blast
  from get_to_writer_healthy [OF assms(1,2) this snd_write_sink] show ?thesis by simp
qed

text \<open>A codec under which the service answers the sweep over that vault.\<close>

lemma sample_sweep:
  assumes "env_vault_id env = replicate 16 1"
  obtains v s J K v2 s2 where "vt_envelope v = env" "healthy v" "db_ok (tables v)" "pending_rows (tables v) = []" "vault_id_of v = replicate 16 1"
    "vt_root_key v = Some (replicate 32 7)" "service_inv toy_crypto sample_hex J K sample_provider s"
    "verify_active_objects_with_witness toy_crypto
       (https_object_head toy_crypto (service_agent toy_crypto sample_hex J K ''t'') sample_provider) (v, s) = ((v2, s2), Inr 1)"
    "get toy_crypto (replicate 16 2) v2 = (v2, Inr [1, 2, 3])"
proof -
  obtain u s r where u: "healthy u" "db_ok (tables u)" "pending_rows (tables u) = []"
    "map ob_object_id (objects (tables u)) = [replicate 16 2]"
    "vault_id_of u = replicate 16 1" "vt_root_key u = Some (replicate 32 7)"
    "contents toy_crypto (replicate 32 7) (replicate 16 1) (tables u) (replicate 16 2) = Some [1, 2, 3]"
    "lookup_receipt toy_crypto (replicate 16 2) (tables u) = Inr (Some r)" "receipt_ok r"
    and s: "service_heads toy_crypto s (replicate 16 1) (replicate 16 2) = Some r" "rc_public_key r = ws_public_key toy_crypto s"
    "faults s = (\<lambda>_. False)" "service_ok toy_crypto s" "trusted sample_provider (ws_public_key toy_crypto s)"
    by (rule sample_witnessed)
  define v where "v = u\<lparr>vt_envelope := env\<rparr>"
  have v: "healthy v" "db_ok (tables v)" "pending_rows (tables v) = []"
    "map ob_object_id (objects (tables v)) = [replicate 16 2]"
    "vault_id_of v = replicate 16 1" "vt_root_key v = Some (replicate 32 7)"
    "contents toy_crypto (replicate 32 7) (replicate 16 1) (tables v) (replicate 16 2) = Some [1, 2, 3]"
    "lookup_receipt toy_crypto (replicate 16 2) (tables v) = Inr (Some r)" "receipt_ok r"
    using u assms by (simp_all add: v_def vault_id_of_def healthy_def)
  obtain g ch where ch: "random_witness_challenge (rng_state v) = (g, ch)" by force
  let ?h = "head_issue toy_crypto (replicate 16 1) (replicate 16 2) (service_heads toy_crypto s (replicate 16 1) (replicate 16 2))
      ch (ws_signing_key s)"
  let ?q = "\<lparr>hq_vault_id = to_hex (replicate 16 1), hq_object_id = to_hex (replicate 16 2), hq_challenge = hex_encode ch\<rparr>"
  let ?J = "head_json ?q ?h" and ?K = "head_client ?q ?h" and ?v = "v\<lparr>rng_state := g\<rparr>"
  have inv: "service_inv toy_crypto sample_hex ?J ?K sample_provider s"
    using s(4,5) head_codec(1) sample_laws(1) by (simp add: service_inv_def)
  have "length ch = 32" using ch by (auto simp: random_witness_challenge_def fill_bytes_def)
  with https_head_answers [OF inv toy_signature_width s(3) _ _ _ _ _ refl refl head_codec(2-6), of "''t''"] s(1) v(9)
  obtain s2 where h: "https_object_head toy_crypto (service_agent toy_crypto sample_hex ?J ?K ''t'') sample_provider
      (replicate 16 1) (replicate 16 2) ch s = (s2, Inr ?h)"
    by (auto simp: id_ok_def sample_provider_def)
  have m: "head_matches ?h r"
    using s(1,2) by (simp add: head_matches_def head_issue_def Let_def ws_public_key_def)
  have hv: "healthy ?v" using v(1) by simp
  have sink: "get_to_writer_inner toy_crypto write_sink (replicate 16 2) ?v () = (?v, (), Inr ())"
    using get_to_sink_healthy [OF hv, of "replicate 32 7"] v(5-7) by (simp add: vault_id_of_def)
  have "active_receipt toy_crypto (replicate 16 2) v = (v, Inr (Some r))"
    using v(1,8) by (auto simp: active_receipt_def lookup_receipt_def receipt_of_def healthy_active_version healthy_query
        split: sum.splits if_splits)
  then have "verify_object_with_witness toy_crypto (https_object_head toy_crypto (service_agent toy_crypto sample_hex ?J ?K ''t'')
      sample_provider) (replicate 16 2) (v, s) = ((?v, s2), Inr ())"
    using ch h m sink v(5)
    by (simp add: verify_object_with_witness_def then_do_def on_vault_def lift_result_def with_rng_def on_provider_def vault_id_of_def)
  moreover have "active_object_ids v = (v, Inr [replicate 16 2])"
    using v(1,4) by (auto simp: active_object_ids_def then_do_def sql_select_def healthy_query from_slice_def)
  ultimately have "verify_active_objects_with_witness toy_crypto (https_object_head toy_crypto (service_agent toy_crypto sample_hex ?J ?K ''t'')
      sample_provider) (v, s) = ((?v, s2), Inr 1)"
    using v(6) by (simp add: verify_active_objects_with_witness_def verify_active_objects_with_witness_inner_def require_root_key_def
        then_do_def on_vault_def lift_result_def count_u64_def try_from_nat_def)
  moreover have "get toy_crypto (replicate 16 2) ?v = (?v, Inr [1, 2, 3])"
    using get_inner_healthy [OF hv, of "replicate 32 7"] v(5-7) by (simp add: get_def vault_id_of_def)
  ultimately show thesis using that [of v, OF _ v(1,2,3,5,6) inv] by (simp add: v_def)
qed

theorem strict_get_fresh_witness:
  "\<exists>J K v s d' b64. daemon_dispatch (sample_services (service_agent toy_crypto sample_hex J K ''t'')) (RqGet sample_object)
       (sample_daemon v (Some sample_provider) s) = (d', ResponseOk (ScPlaintext b64))
     \<and> b64 = bytes_text [1, 2, 3]
     \<and> in_sync toy_crypto (service_heads toy_crypto s) (ws_public_key toy_crypto s) (replicate 16 1) (tables v) (replicate 16 2)"
proof -
  obtain v s J K v2 s2 where v: "vault_id_of v = replicate 16 1" "service_inv toy_crypto sample_hex J K sample_provider s"
    "verify_active_objects_with_witness toy_crypto
       (https_object_head toy_crypto (service_agent toy_crypto sample_hex J K ''t'') sample_provider) (v, s) = ((v2, s2), Inr 1)"
    "get toy_crypto (replicate 16 2) v2 = (v2, Inr [1, 2, 3])"
    by (rule sample_sweep [of "vt_envelope sample_vault"]) (simp add: sample_vault_def)
  let ?X = "sample_services (service_agent toy_crypto sample_hex J K ''t'')"
  let ?d = "sample_daemon v (Some sample_provider) s"
  have d: "daemon_dispatch ?X (RqGet sample_object) ?d
      = (?d\<lparr>dm_vault := v2, dm_world := s2\<rparr>, ResponseOk (ScPlaintext (sx_base64_encode ?X [1, 2, 3])))"
    using v(3,4) by (simp add: daemon_dispatch_def daemon_get_def Let_def with_witness_def then_do_def on_vault_def lift_result_def
        result_response_def)
  have ag: "sx_agent ?X = service_agent (sx_crypto ?X) sample_hex J K ''t''" by simp
  have enc: "sx_base64_encode ?X = bytes_text" by (simp add: sample_services_def)
  have "in_sync toy_crypto (service_heads toy_crypto s) (ws_public_key toy_crypto s) (replicate 16 1) (tables v) (replicate 16 2)"
    using strict_get_fresh [OF ag _ _ d] v(1,2) by auto
  with d show ?thesis unfolding enc by blast
qed

lemma recover_nothing_healthy:
  assumes "healthy v" "pending_rows (tables v) = []" "vt_root_key v = Some rk"
  shows "recover_pending_witness_publications C issue (v, p) = ((v, p), Inr 0)"
  using assms
  by (simp add: recover_pending_witness_publications_def recover_pending_witness_publications_inner_def require_root_key_def
      pending_witness_publications_def sql_select_def then_do_def on_vault_def lift_result_def healthy_query count_u64_def try_from_nat_def)

theorem strict_unlock_fresh_witness:
  "\<exists>J K v s d'. daemon_dispatch (sample_services (service_agent toy_crypto sample_hex J K ''t'')) (RqUnlock ''pw'')
       (sample_daemon v (Some sample_provider) s) = (d', ResponseOk ScEmpty)
     \<and> objects (tables (dm_vault d')) \<noteq> [] \<and> pending_rows (tables (dm_vault d')) = []"
proof -
  obtain g env where env: "seal_root_key toy_crypto ''pw'' (replicate 16 1) (replicate 32 7) interactive sample_rng = (g, Inr env)"
    "open_root_key toy_crypto ''pw'' env = Inr (replicate 32 7)"
    using sample_root_envelope by blast
  have vid: "env_vault_id env = replicate 16 1" using open_seal_root_key [OF toy_crypto_laws(1) _ env(1)] by simp
  obtain v s J K v2 s2 where v: "vt_envelope v = env" "healthy v" "db_ok (tables v)" "pending_rows (tables v) = []"
    "vt_root_key v = Some (replicate 32 7)" "service_inv toy_crypto sample_hex J K sample_provider s"
    "verify_active_objects_with_witness toy_crypto
       (https_object_head toy_crypto (service_agent toy_crypto sample_hex J K ''t'') sample_provider) (v, s) = ((v2, s2), Inr 1)"
    by (rule sample_sweep [OF vid])
  let ?X = "sample_services (service_agent toy_crypto sample_hex J K ''t'')"
  let ?d = "sample_daemon v (Some sample_provider) s" and ?d' = "sample_daemon v2 (Some sample_provider) s2"
  have un: "unlock toy_crypto ''pw'' v = (v, Inr ())"
    using env(2) v(1,5) by (cases v) (simp add: unlock_def validate_passphrase_def)
  have d: "daemon_dispatch ?X (RqUnlock ''pw'') ?d = (?d', ResponseOk ScEmpty)"
    using v(7) un
    by (simp add: recover_nothing_healthy [OF v(2,4,5)] daemon_dispatch_def daemon_unlock_def Let_def with_witness_def then_do_def on_vault_def lift_result_def
        result_response_def) (simp add: sample_daemon_def)
  have ag: "sx_agent ?X = service_agent (sx_crypto ?X) sample_hex J K ''t''" by simp
  have "pending_rows (tables v2) = []" using strict_unlock_fresh [OF ag _ _ _ d] v(3,6) by simp
  moreover have "tables v2 = tables v \<and> length (objects (tables v)) = 1"
    using ws.sweep_in_sync [OF v(6,7)] by auto
  ultimately show ?thesis using d by (intro exI [of _ J] exI [of _ K] exI [of _ v] exI [of _ s] exI [of _ ?d']) auto
qed

end
