(* ===== verification/Vlt_Daemon_Socket.thy ===== *)
theory Vlt_Daemon_Socket
  imports Vlt_Daemon "HOL-Library.Sublist"
begin

text \<open>
  The daemon's socket file, the end of \<open>crates/vlt1-daemon/src/lib.rs\<close>: what \<open>bind_socket\<close> does to the file system,
  over a file system whose calls may fail at any point, and what its check of the parent directories means.
\<close>

lemma socket_call_cases:
  assumes "socket_call f s = (s', r)"
  obtains (failed) e where "r = Inl e" "files s' = files s"
  | (called) fs x where "f (files s) = (fs, x)" "files s' = fs" "r = (case x of Inl e \<Rightarrow> Inl (SocketIo e) | Inr u \<Rightarrow> Inr u)"
  using assms by (auto simp: socket_call_def tick_def split: if_splits prod.splits)

text \<open>\<open>other_kept path fs0 fs\<close>: every name of \<open>fs0\<close> still leads to its file, unless it is \<open>path\<close> and was a socket.\<close>

definition other_kept :: "string \<Rightarrow> file_system \<Rightarrow> file_system \<Rightarrow> bool" where
  "other_kept path fs0 fs \<longleftrightarrow> (\<forall>p i. lookup fs0 p = Inr i \<and> (p = path \<longrightarrow> file_type (inodes fs0 i) \<noteq> Socket) \<longrightarrow>
     lookup fs p = Inr i \<and> inodes fs i = inodes fs0 i \<and> content fs i = content fs0 i)"

lemma other_kept_refl: "other_kept path fs fs"
  by (simp add: other_kept_def)

lemma other_kept_remove:
  assumes "symlink_metadata fs path = Inr m" "file_type m = Socket"
  shows "other_kept path fs (fs_unlink path fs)"
  using assms by (auto simp: other_kept_def fs_unlink_def symlink_metadata_def split: if_splits sum.splits)

text \<open>Binding takes an inode that no file had, and the mode is set on that inode.\<close>

lemma fs_bind_cases:
  assumes "fs_bind masked path fs = (fs', r)"
  obtains e where "r = Inl e" "fs' = fs"
  | j where "r = Inr ()" "j \<in> set (free_inodes fs)" "lookup fs path = Inl NotFoundError"
      "lookup fs' = (lookup fs)(path := Inr j)" "inodes fs' = (inodes fs)(j := \<lparr>file_type = Socket, mode = masked\<rparr>)"
      "content fs' = (content fs)(j := [])"
proof (cases "path \<noteq> [] \<and> lookup fs path = Inl NotFoundError \<and> free_inodes fs \<noteq> []")
  case True
  then obtain j js where "free_inodes fs = j # js" by (meson list.exhaust)
  with True assms show thesis by (intro that(2) [of j]) (auto simp: fs_bind_def fs_create_def)
next
  case False
  then have "fs_create path masked fs = (fs, Inl OtherIoError)" by (auto simp: fs_create_def)
  with assms show thesis by (intro that(1) [of OtherIoError]) (auto simp: fs_bind_def)
qed

lemma bind_fresh:
  assumes "fs_bind masked path fs = (fs', r)" "other_kept path fs0 fs" "\<And>p j. j \<in> set (free_inodes fs) \<Longrightarrow> lookup fs0 p \<noteq> Inr j"
  shows "other_kept path fs0 fs' \<and> (r = Inr () \<longrightarrow>
    (\<exists>j. lookup fs' path = Inr j \<and> file_type (inodes fs' j) = Socket \<and> (\<forall>p. lookup fs0 p \<noteq> Inr j)))"
  using assms(1)
proof (cases rule: fs_bind_cases)
  case (2 j)
  note fresh = assms(3) [OF 2(2)]
  show ?thesis
  proof (intro conjI impI exI [of _ j] allI)
    show "other_kept path fs0 fs'"
      unfolding other_kept_def
    proof (intro allI impI)
      fix p i assume p: "lookup fs0 p = Inr i \<and> (p = path \<longrightarrow> file_type (inodes fs0 i) \<noteq> Socket)"
      then have "lookup fs p = Inr i \<and> inodes fs i = inodes fs0 i \<and> content fs i = content fs0 i"
        using assms(2) by (simp add: other_kept_def)
      moreover from this have "p \<noteq> path" using 2(3) by auto
      moreover have "i \<noteq> j" using p fresh by auto
      ultimately show "lookup fs' p = Inr i \<and> inodes fs' i = inodes fs0 i \<and> content fs' i = content fs0 i" using 2 by simp
    qed
  qed (use 2 fresh in simp_all)
qed (use assms(2) in simp)

lemma mode_fresh:
  assumes "set_permissions path m fs = (fs', r)" "lookup fs path = Inr j" "file_type (inodes fs j) = Socket" "\<forall>p. lookup fs0 p \<noteq> Inr j"
    "other_kept path fs0 fs"
  shows "other_kept path fs0 fs'"
    and "r = Inr () \<Longrightarrow> lookup fs' path = Inr j \<and> file_type (inodes fs' j) = Socket \<and> mode (inodes fs' j) = m"
  using assms by (auto simp: set_permissions_def other_kept_def split: if_splits) blast+

lemma bind_socket_cases:
  assumes "bind_socket masked path s = (s', r)"
  obtains (refused) e where "r = Inl e" "files s' = files s"
  | (prepared) s1 where "validate_socket_parent (files s) path = Inr ()"
      "files s1 = files s \<and> symlink_metadata (files s) path = Inl NotFoundError
       \<or> files s1 = fs_unlink path (files s) \<and> (\<exists>m. symlink_metadata (files s) path = Inr m \<and> file_type m = Socket)"
      "then_do (socket_call (fs_bind masked path)) (\<lambda>_. socket_call (set_permissions path MODE_600)) s1 = (s', r)"
proof (cases "validate_socket_parent (files s) path")
  case (Inl e)
  with assms show thesis by (intro refused [of e]) (auto simp: bind_socket_def then_do_def)
next
  case (Inr u)
  let ?rest = "then_do (socket_call (fs_bind masked path)) (\<lambda>_. socket_call (set_permissions path MODE_600))"
  show thesis
  proof (cases "symlink_metadata (files s) path")
    case (Inl e)
    with assms Inr show thesis
      by (cases e) (auto simp: bind_socket_def then_do_def intro: refused prepared)
  next
    case m: (Inr m)
    obtain s1 x where c: "socket_call (remove_file path) s = (s1, x)" by force
    show thesis
    proof (cases "file_type m = Socket")
      case True
      from c show thesis
      proof (cases rule: socket_call_cases)
        case (called fs y)
        with m have "fs = fs_unlink path (files s) \<and> y = Inr () \<or> (\<exists>e. y = Inl e) \<and> fs = files s"
          by (auto simp: remove_file_def split: sum.splits)
        with called c True m Inr assms show thesis
          by (auto simp: bind_socket_def then_do_def intro: refused prepared)
      qed (use assms Inr m True c in \<open>auto simp: bind_socket_def then_do_def intro: refused\<close>)
    qed (use assms Inr m in \<open>auto simp: bind_socket_def then_do_def intro: refused\<close>)
  qed
qed

lemma bind_socket_effect:
  assumes "inodes_ok (files s)" "bind_socket masked path s = (s', r)"
  shows "other_kept path (files s) (files s') \<and> (r = Inr () \<longrightarrow> (\<exists>j. lookup (files s') path = Inr j
    \<and> file_type (inodes (files s') j) = Socket \<and> mode (inodes (files s') j) = MODE_600))"
  using assms(2)
proof (cases rule: bind_socket_cases)
  case (prepared s1)
  let ?fs = "files s"
  have k1: "other_kept path ?fs (files s1)" using prepared(2) other_kept_refl other_kept_remove by auto
  have free: "j \<in> set (free_inodes (files s1)) \<Longrightarrow> lookup ?fs p \<noteq> Inr j" for j p
    using prepared(2) assms(1) by (auto simp: inodes_ok_def fs_unlink_def)
  obtain s2 x where b: "socket_call (fs_bind masked path) s1 = (s2, x)" by force
  have b2: "other_kept path ?fs (files s2) \<and> (x = Inr () \<longrightarrow>
    (\<exists>j. lookup (files s2) path = Inr j \<and> file_type (inodes (files s2) j) = Socket \<and> (\<forall>p. lookup ?fs p \<noteq> Inr j)))"
    using b
  proof (cases rule: socket_call_cases)
    case (called fs y)
    with bind_fresh [OF called(1) k1 free] show ?thesis by (auto split: sum.splits)
  qed (use k1 in simp)
  show ?thesis
  proof (cases x)
    case (Inl e)
    with prepared(3) b b2 show ?thesis by (auto simp: then_do_def)
  next
    case (Inr u)
    with b2 obtain j where j: "lookup (files s2) path = Inr j" "file_type (inodes (files s2) j) = Socket" "\<forall>p. lookup ?fs p \<noteq> Inr j" by auto
    from prepared(3) b Inr have "socket_call (set_permissions path MODE_600) s2 = (s', r)" by (simp add: then_do_def)
    then show ?thesis
    proof (cases rule: socket_call_cases)
      case (called fs y)
      note m = mode_fresh [OF called(1) j conjunct1 [OF b2]]
      from m(1) m(2) called(2,3) show ?thesis by (auto split: sum.splits)
    qed (use b2 in simp)
  qed
qed (simp add: other_kept_refl)

text \<open>The parent check, said without the loop: the path starts at the root and names something below it, and every shorter path
  along its components is a directory, itself and not through a symbolic link.\<close>

definition below_directories :: "file_system \<Rightarrow> string \<Rightarrow> bool" where
  "below_directories fs path \<longleftrightarrow> (\<exists>c cs. components path = RootDir # c # cs) \<and>
     (\<forall>a. a \<noteq> [] \<and> strict_prefix a (components path) \<longrightarrow>
        (\<exists>m. symlink_metadata fs (path_string a) = Inr m \<and> file_type m = Directory))"

lemma set_ancestors_root:
  "RootDir \<notin> set cs \<Longrightarrow> set (ancestors (RootDir # cs)) = {a. a \<noteq> [] \<and> prefix a (RootDir # cs)}"
proof (induction cs rule: rev_induct)
  case Nil
  show ?case by (subst ancestors.simps) (auto simp: parent_def prefix_Cons)
next
  case (snoc c cs)
  then have "parent (RootDir # cs @ [c]) = Some (RootDir # cs)" by (auto simp: parent_def)
  then have "ancestors (RootDir # cs @ [c]) = (RootDir # cs @ [c]) # ancestors (RootDir # cs)"
    by (subst ancestors.simps) simp
  moreover have "prefix a (RootDir # cs @ [c]) \<longleftrightarrow> a = RootDir # cs @ [c] \<or> prefix a (RootDir # cs)" for a
    using prefix_snoc [of a "RootDir # cs" c] by simp
  ultimately show ?case using snoc by auto
qed

lemma check_socket_directories_iff:
  "check_socket_directories fs as = Inr () \<longleftrightarrow> list_all (direct_directory fs) as"
  by (induction as) (auto simp: direct_directory_def split: sum.splits)

lemma direct_directory_iff:
  "direct_directory fs a \<longleftrightarrow> (\<exists>m. symlink_metadata fs (path_string a) = Inr m \<and> file_type m = Directory)"
  by (auto simp: direct_directory_def split: sum.splits)

lemma RootDir_not_piece: "RootDir \<notin> set (List.map_filter piece_component ps)"
  by (induction ps) (auto simp: List.map_filter_def piece_component_def)

lemma RootDir_only_first: "components path = c # cs \<Longrightarrow> RootDir \<notin> set cs"
  using RootDir_not_piece [of "split_slash path"]
  by (cases "split_slash path") (auto simp: components_def split: if_splits)

lemma validate_socket_parent_iff: "validate_socket_parent fs path = Inr () \<longleftrightarrow> below_directories fs path"
proof (cases "components path = [] \<or> hd (components path) \<noteq> RootDir")
  case True
  then have "RootDir \<notin> set (components path)"
    using RootDir_only_first by (cases "components path") auto
  then have "RootDir \<notin> set p" if "parent (components path) = Some p" for p
    using that by (auto simp: parent_def split: if_splits dest: in_set_butlastD)
  then have "validate_socket_parent fs path \<noteq> Inr ()"
    using empty_in_ancestors not_direct_empty
    by (auto simp: validate_socket_parent_def and_then_eq_Inr ok_or_eq_Inr check_socket_directories_iff list_all_iff)
       (metis empty_iff empty_set path_component.distinct(1) set_ConsD)+
  with True show ?thesis by (auto simp: below_directories_def)
next
  case False
  then obtain cs where cs: "components path = RootDir # cs" by (cases "components path") auto
  note root = RootDir_only_first [OF cs]
  show ?thesis
  proof (cases cs rule: rev_cases)
    case Nil
    with cs show ?thesis by (simp add: validate_socket_parent_def parent_def below_directories_def)
  next
    case (snoc ds d)
    then have p: "parent (components path) = Some (RootDir # ds)" using cs root by (auto simp: parent_def)
    have "strict_prefix a (components path) \<longleftrightarrow> prefix a (RootDir # ds)" for a
      using cs snoc prefix_snoc [of a "RootDir # ds" d] by (auto simp: strict_prefix_def)
    moreover have "RootDir \<notin> set ds" using root snoc by simp
    moreover have "\<exists>c cs. components path = RootDir # c # cs" using cs snoc by (cases ds) auto
    ultimately show ?thesis
      unfolding validate_socket_parent_def p below_directories_def
      by (simp add: check_socket_directories_iff list_all_iff set_ancestors_root direct_directory_iff)
  qed
qed

text \<open>C24. The daemon takes its socket path and nothing else: whatever \<open>bind_socket\<close> returns and whichever calls fail, no
  file changes and no name is removed, except that a socket at the path itself, whether or not a process still
  listens on it, may be removed or replaced. When it succeeds, the path is absolute, every shorter path along
  its components is a directory and no link, and the path leads to a socket with mode 600. When some
  component is not such a directory, it fails and leaves all files as they are.\<close>

theorem bind_socket_safe:
  assumes "inodes_ok (files s)" "bind_socket masked path s = (s', r)"
  shows "(\<forall>p i. lookup (files s) p = Inr i \<and> (p = path \<longrightarrow> file_type (inodes (files s) i) \<noteq> Socket) \<longrightarrow>
      lookup (files s') p = Inr i \<and> inodes (files s') i = inodes (files s) i \<and> content (files s') i = content (files s) i)
    \<and> (r = Inr () \<longrightarrow> (\<exists>c cs. components path = RootDir # c # cs)
      \<and> (\<forall>a. a \<noteq> [] \<and> strict_prefix a (components path) \<longrightarrow>
          (\<exists>m. symlink_metadata (files s) (path_string a) = Inr m \<and> file_type m = Directory))
      \<and> (\<exists>j. lookup (files s') path = Inr j \<and> file_type (inodes (files s') j) = Socket \<and> mode (inodes (files s') j) = MODE_600))
    \<and> (\<forall>a. a \<noteq> [] \<and> strict_prefix a (components path)
          \<and> (\<forall>m. symlink_metadata (files s) (path_string a) = Inr m \<longrightarrow> file_type m \<noteq> Directory) \<longrightarrow>
        r \<noteq> Inr () \<and> files s' = files s)"
proof -
  have below: "r = Inr () \<or> files s' \<noteq> files s \<longrightarrow> below_directories (files s) path"
    using assms(2) by (cases rule: bind_socket_cases) (auto simp: validate_socket_parent_iff)
  then have "r \<noteq> Inr () \<and> files s' = files s"
    if "a \<noteq> [] \<and> strict_prefix a (components path)
      \<and> (\<forall>m. symlink_metadata (files s) (path_string a) = Inr m \<longrightarrow> file_type m \<noteq> Directory)" for a
    using that by (auto simp: below_directories_def)
  moreover have "r = Inr () \<longrightarrow> (\<exists>c cs. components path = RootDir # c # cs)
      \<and> (\<forall>a. a \<noteq> [] \<and> strict_prefix a (components path) \<longrightarrow>
          (\<exists>m. symlink_metadata (files s) (path_string a) = Inr m \<and> file_type m = Directory))"
    using below unfolding below_directories_def by blast
  ultimately show ?thesis using bind_socket_effect [OF assms] unfolding other_kept_def by blast
qed

definition socket_env :: env where
  "socket_env = \<lparr>rng_state = sample_rng, faults = \<lambda>_. False, files = sample_files\<rparr>"

theorem bind_socket_safe_witness:
  "\<exists>s'. bind_socket 0x1ed ''/s'' socket_env = (s', Inr ()) \<and> lookup (files s') ''/v'' = Inr 1
     \<and> (\<exists>j. lookup (files s') ''/s'' = Inr j \<and> mode (inodes (files s') j) = MODE_600)"
proof -
  have ok: "inodes_ok (files socket_env)" by (auto simp: inodes_ok_def socket_env_def sample_files_def)
  have "validate_socket_parent sample_files ''/s'' = Inr ()"
    by (simp add: validate_socket_parent_def components_def piece_component_def List.map_filter_def parent_def ancestors.simps
        symlink_metadata_def path_string_def sample_files_def)
  then obtain s' where b: "bind_socket 0x1ed ''/s'' socket_env = (s', Inr ())"
    by (simp add: bind_socket_def then_do_def socket_env_def socket_call_def tick_def symlink_metadata_def fs_bind_def fs_create_def
        set_permissions_def sample_files_def)
  have "lookup (files socket_env) ''/v'' = Inr 1" by (simp add: socket_env_def sample_files_def)
  with bind_socket_safe [OF ok b] b show ?thesis by auto
qed

end
