(* ===== verification/Vlt_Admission.thy ===== *)
theory Vlt_Admission
  imports Vlt_Prelude
begin

text \<open>
  Admission of connections, \<open>crates/vlt1-daemon/src/lib.rs\<close>: the accept loop of \<open>serve\<close>, the loop of
  \<open>try_acquire_connection\<close> on the atomic counter, the permits that threads give back when they end, and the
  flag of the one long operation. The steps of all threads interleave; every access to an atomic is a step
  of its own. \<open>serve\<close> may run on several clones of the daemon, so there may be several acceptors. The
  counter is a machine word.
\<close>

section \<open>State\<close>

text \<open>Where an acceptor is: in \<open>accept\<close>, at the load of the counter with a connection in hand, between the load
  and the exchange, or returned. A connection's thread serves it, and holds the permit of the long
  operation or not.\<close>

datatype acceptor = Accepting | Acquiring | Observed u64 | Returned

datatype phase = Serving | LongOperation

record admission =
  active_connections :: u64
  long_operation_active :: bool
  shutdown :: bool
  acceptors :: "nat \<Rightarrow> acceptor"
  threads :: "nat \<rightharpoonup> phase"

definition admission_new :: admission where
  "admission_new = \<lparr>active_connections = 0, long_operation_active = False, shutdown = False,
     acceptors = (\<lambda>_. Accepting), threads = Map.empty\<rparr>"

section \<open>Steps\<close>

text \<open>\<open>try_acquire_connection\<close>: the load with its comparison, and the exchange. A weak exchange may also fail
  when the counter has the observed value.\<close>

definition observe_active :: "u64 \<Rightarrow> admission \<Rightarrow> u64 option" where
  "observe_active max_connections a =
     (let observed = active_connections a in if observed \<ge> max_connections then None else Some observed)"

definition exchange_active :: "u64 \<Rightarrow> admission \<Rightarrow> admission option" where
  "exchange_active observed a =
     (if active_connections a = observed then Some (a\<lparr>active_connections := observed + 1\<rparr>) else None)"

definition drop_connection_permit :: "admission \<Rightarrow> admission" where
  "drop_connection_permit a = a\<lparr>active_connections := active_connections a - 1\<rparr>"

definition exchange_long_operation :: "admission \<Rightarrow> admission option" where
  "exchange_long_operation a =
     (if long_operation_active a then None else Some (a\<lparr>long_operation_active := True\<rparr>))"

definition drop_long_operation_permit :: "admission \<Rightarrow> admission" where
  "drop_long_operation_permit a = a\<lparr>long_operation_active := False\<rparr>"

abbreviation at_acceptor :: "nat \<Rightarrow> acceptor \<Rightarrow> admission \<Rightarrow> admission" where
  "at_acceptor i pc a \<equiv> a\<lparr>acceptors := (acceptors a)(i := pc)\<rparr>"

abbreviation set_thread :: "nat \<Rightarrow> phase option \<Rightarrow> admission \<Rightarrow> admission" where
  "set_thread t p a \<equiv> a\<lparr>threads := (threads a)(t := p)\<rparr>"

text \<open>A thread that finds the flag set answers and goes on, which changes nothing here.\<close>

inductive serve_step :: "u64 \<Rightarrow> bool \<Rightarrow> admission \<Rightarrow> admission \<Rightarrow> bool" for max_connections allow_shutdown where
  accepted: "acceptors a i = Accepting \<Longrightarrow> \<not> shutdown a \<Longrightarrow>
     serve_step max_connections allow_shutdown a (at_acceptor i Acquiring a)"
| accept_failed: "acceptors a i = Accepting \<Longrightarrow> \<not> shutdown a \<Longrightarrow>
     serve_step max_connections allow_shutdown a (at_acceptor i Returned a)"
| stopped: "acceptors a i = Accepting \<Longrightarrow> shutdown a \<Longrightarrow>
     serve_step max_connections allow_shutdown a (at_acceptor i Returned a)"
| observed: "acceptors a i = Acquiring \<Longrightarrow> observe_active max_connections a = Some n \<Longrightarrow>
     serve_step max_connections allow_shutdown a (at_acceptor i (Observed n) a)"
| rejected: "acceptors a i = Acquiring \<Longrightarrow> observe_active max_connections a = None \<Longrightarrow>
     serve_step max_connections allow_shutdown a (at_acceptor i Accepting a)"
| retried: "acceptors a i = Observed n \<Longrightarrow>
     serve_step max_connections allow_shutdown a (at_acceptor i Acquiring a)"
| spawned: "acceptors a i = Observed n \<Longrightarrow> exchange_active n a = Some b \<Longrightarrow> threads a t = None \<Longrightarrow>
     serve_step max_connections allow_shutdown a (at_acceptor i Accepting (set_thread t (Some Serving) b))"
| long_started: "threads a t = Some Serving \<Longrightarrow> exchange_long_operation a = Some b \<Longrightarrow>
     serve_step max_connections allow_shutdown a (set_thread t (Some LongOperation) b)"
| long_ended: "threads a t = Some LongOperation \<Longrightarrow>
     serve_step max_connections allow_shutdown a (set_thread t (Some Serving) (drop_long_operation_permit a))"
| shut_down: "threads a t = Some Serving \<Longrightarrow> allow_shutdown \<Longrightarrow>
     serve_step max_connections allow_shutdown a (a\<lparr>shutdown := True\<rparr>)"
| ended: "threads a t = Some Serving \<Longrightarrow>
     serve_step max_connections allow_shutdown a (set_thread t None (drop_connection_permit a))"

inductive_cases serve_stepE: "serve_step max_connections allow_shutdown a b"

section \<open>The invariant\<close>

text \<open>The counter is the number of live threads and stays within the limit, the flag is set exactly while a
  thread holds the long operation, and no two threads hold it.\<close>

definition long_holders :: "(nat \<rightharpoonup> phase) \<Rightarrow> nat set" where
  "long_holders ts = {t. ts t = Some LongOperation}"

definition admission_ok :: "u64 \<Rightarrow> admission \<Rightarrow> bool" where
  "admission_ok max_connections a \<longleftrightarrow>
     finite (dom (threads a)) \<and> unat (active_connections a) = card (dom (threads a))
     \<and> active_connections a \<le> max_connections
     \<and> (\<forall>i n. acceptors a i = Observed n \<longrightarrow> n < max_connections)
     \<and> (if long_operation_active a then \<exists>t. long_holders (threads a) = {t} else long_holders (threads a) = {})"

lemma long_holders_update [simp]:
  "long_holders (ts(t := p)) = (if p = Some LongOperation then insert t (long_holders ts) else long_holders ts - {t})"
  by (auto simp: long_holders_def)

lemma serving_holds_nothing: "ts t \<noteq> Some LongOperation \<Longrightarrow> long_holders ts - {t} = long_holders ts"
  by (auto simp: long_holders_def)

lemma admission_ok_new: "admission_ok max_connections admission_new"
  by (simp add: admission_ok_def admission_new_def long_holders_def)

lemma admission_ok_at_acceptor:
  "admission_ok m a \<Longrightarrow> (\<And>n. pc = Observed n \<Longrightarrow> n < m) \<Longrightarrow> admission_ok m (at_acceptor i pc a)"
  by (auto simp: admission_ok_def)

lemma admission_ok_spawned:
  assumes "admission_ok m a" "active_connections a < m" "threads a t = None"
  shows "admission_ok m (set_thread t (Some Serving) (a\<lparr>active_connections := active_connections a + 1\<rparr>))"
proof -
  have "unat (active_connections a) < unat m" using assms(2) by (simp add: word_less_nat_alt)
  moreover have "unat m < 2 ^ 64" using unsigned_less [of m, where 'a = nat] by simp
  ultimately have "unat (active_connections a + 1) = Suc (unat (active_connections a))"
    by (simp add: unat_word_ariths(1))
  moreover from this assms(2) have "active_connections a + 1 \<le> m" by (simp add: word_less_nat_alt word_le_nat_alt)
  ultimately show ?thesis using assms(1,3) serving_holds_nothing [of "threads a" t]
    by (auto simp: admission_ok_def domIff)
qed

lemma admission_ok_ended:
  assumes "admission_ok m a" "threads a t = Some Serving"
  shows "admission_ok m (set_thread t None (drop_connection_permit a))"
proof -
  have f: "finite (dom (threads a))" "t \<in> dom (threads a)" using assms by (auto simp: admission_ok_def)
  then have "0 < unat (active_connections a)" using assms(1) card_gt_0_iff by (fastforce simp: admission_ok_def)
  then have "active_connections a \<noteq> 0" by (metis neq0_conv unat_0)
  then have n: "unat (active_connections a - 1) = unat (active_connections a) - 1" by (rule unat_minus_one)
  moreover from this have "active_connections a - 1 \<le> m" using assms(1) by (auto simp: admission_ok_def word_le_nat_alt)
  ultimately show ?thesis using assms f serving_holds_nothing [of "threads a" t] by (auto simp: admission_ok_def drop_connection_permit_def)
qed

lemma admission_ok_step:
  assumes "admission_ok m a" "serve_step m allow a b"
  shows "admission_ok m b"
  using assms(2)
proof cases
  case (observed i n)
  with admission_ok_at_acceptor [OF assms(1), of "Observed n" i] show ?thesis
    by (auto simp: observe_active_def Let_def split: if_splits)
next
  case (spawned i n c t)
  then have "n < m" using assms(1) by (auto simp: admission_ok_def)
  with spawned have "admission_ok m (set_thread t (Some Serving) c)"
    using admission_ok_spawned [OF assms(1)] by (auto simp: exchange_active_def split: if_splits)
  with spawned admission_ok_at_acceptor [of m "set_thread t (Some Serving) c" Accepting i] show ?thesis by simp
next
  case (long_started t c)
  with assms(1) show ?thesis
    by (auto simp: admission_ok_def exchange_long_operation_def insert_absorb domIff split: if_splits)
next
  case (long_ended t)
  then have "t \<in> long_holders (threads a)" by (simp add: long_holders_def)
  with long_ended assms(1) show ?thesis
    by (auto simp: admission_ok_def drop_long_operation_permit_def insert_absorb domIff split: if_splits)
next
  case (ended t)
  with assms(1) admission_ok_ended show ?thesis by simp
qed (use assms(1) in \<open>auto simp: admission_ok_def\<close>)

lemma admission_ok_reachable: "(serve_step m allow)\<^sup>*\<^sup>* admission_new a \<Longrightarrow> admission_ok m a"
  by (induction rule: rtranclp_induct) (auto intro: admission_ok_new admission_ok_step)

text \<open>C18. Admission is bounded under every interleaving: in every reachable state the threads being served are as many as
  the counter says and no more than \<open>max_connections\<close>, the counter has not wrapped, at most one of them holds the
  long operation and the flag says whether one does, and an acceptor that turns a connection away does so
  while exactly \<open>max_connections\<close> threads are being served.\<close>

theorem admission_bounded:
  assumes "(serve_step max_connections allow_shutdown)\<^sup>*\<^sup>* admission_new a"
  shows "finite (dom (threads a)) \<and> card (dom (threads a)) = unat (active_connections a)
    \<and> card (dom (threads a)) \<le> unat max_connections
    \<and> card (long_holders (threads a)) = (if long_operation_active a then 1 else 0)
    \<and> (acceptors a i = Acquiring \<longrightarrow> observe_active max_connections a = None
        \<longrightarrow> card (dom (threads a)) = unat max_connections)"
  using admission_ok_reachable [OF assms]
  by (auto simp: admission_ok_def observe_active_def Let_def word_le_nat_alt split: if_splits)

text \<open>A run with a limit of one: a connection is admitted and starts a long operation, and the next one is turned
  away.\<close>

definition one_served :: admission where
  "one_served = \<lparr>active_connections = 1, long_operation_active = True, shutdown = False,
     acceptors = (\<lambda>_. Accepting)(0 := Acquiring), threads = [7 \<mapsto> LongOperation]\<rparr>"

lemma one_served_reachable: "(serve_step 1 False)\<^sup>*\<^sup>* admission_new one_served"
proof -
  let ?a0 = admission_new
  let ?a1 = "at_acceptor 0 Acquiring ?a0"
  let ?a2 = "at_acceptor 0 (Observed 0) ?a1"
  let ?a3 = "at_acceptor 0 Accepting (set_thread 7 (Some Serving) (?a2\<lparr>active_connections := 0 + 1\<rparr>))"
  let ?a4 = "set_thread 7 (Some LongOperation) (?a3\<lparr>long_operation_active := True\<rparr>)"
  let ?a5 = "at_acceptor 0 Acquiring ?a4"
  note [simp] = admission_new_def
  have "serve_step 1 False ?a0 ?a1" by (rule accepted) simp_all
  moreover have "serve_step 1 False ?a1 ?a2" by (rule observed) (simp_all add: observe_active_def)
  moreover have "serve_step 1 False ?a2 ?a3" by (rule spawned [where n = 0]) (simp_all add: exchange_active_def)
  moreover have "serve_step 1 False ?a3 ?a4" by (rule long_started) (simp_all add: exchange_long_operation_def)
  moreover have "serve_step 1 False ?a4 ?a5" by (rule accepted) simp_all
  moreover have "?a5 = one_served" by (simp add: one_served_def fun_eq_iff)
  ultimately show ?thesis by (metis (no_types, lifting) converse_rtranclp_into_rtranclp rtranclp.rtrancl_refl)
qed

theorem admission_bounded_witness:
  "(serve_step 1 False)\<^sup>*\<^sup>* admission_new one_served \<and> card (dom (threads one_served)) = 1
     \<and> card (long_holders (threads one_served)) = 1"
  using admission_bounded [OF one_served_reachable, of 0] one_served_reachable
  by (simp add: observe_active_def) (simp add: one_served_def)

text \<open>With fewer than \<open>max_connections\<close> threads served, an acceptor with a connection in hand has two steps of its own
  after which the connection is served.\<close>

lemma admission_progress:
  assumes "(serve_step max_connections allow_shutdown)\<^sup>*\<^sup>* admission_new a"
    and "acceptors a i = Acquiring" "card (dom (threads a)) < unat max_connections" "threads a t = None"
  shows "\<exists>b c. serve_step max_connections allow_shutdown a b \<and> serve_step max_connections allow_shutdown b c
    \<and> acceptors c i = Accepting \<and> threads c = (threads a)(t \<mapsto> Serving)"
proof -
  let ?n = "active_connections a"
  let ?b = "at_acceptor i (Observed ?n) a"
  let ?c = "at_acceptor i Accepting (set_thread t (Some Serving) (?b\<lparr>active_connections := ?n + 1\<rparr>))"
  have "?n < max_connections"
    using admission_ok_reachable [OF assms(1)] assms(3) by (simp add: admission_ok_def word_less_nat_alt)
  then have "serve_step max_connections allow_shutdown a ?b"
    using assms(2) by (intro observed) (auto simp: observe_active_def Let_def)
  moreover have "serve_step max_connections allow_shutdown ?b ?c"
    using assms(4) by (intro spawned [where n = ?n]) (simp_all add: exchange_active_def)
  ultimately show ?thesis by (intro exI [of _ ?b] exI [of _ ?c]) simp
qed

end
