(* ===== verification/Vlt_Cli.thy ===== *)
theory Vlt_Cli
  imports Vlt_Daemon_Requests
begin

text \<open>
  The command line client, \<open>crates/vlt1-cli/src/main.rs\<close>. Its state is the environment with its file system and
  the one connection to the daemon; what it reads from the connection is what the daemon wrote. A command
  returns the lines it prints, or the error the process ends with. The last sections compose the client with
  the daemon of \<open>Vlt_Daemon\<close>: a stored file is the object the vault holds, and a fetched file is the
  object the vault held.
\<close>

section \<open>State and errors\<close>

record client = env +
  cl_stream :: channel

text \<open>An error with its outermost context, or an I/O error that is passed on without one.\<close>

datatype cli_error = CliMessage string | CliIo

record cli_services =
  cx_os :: os
  cx_exists :: "file_system \<Rightarrow> string \<Rightarrow> bool"
  cx_print_request :: "request \<Rightarrow> bytes option"
  cx_parse_response :: "bytes \<Rightarrow> response option"
  cx_parse_manifest :: "bytes \<Rightarrow> backup_manifest option"
  cx_crypto :: crypto
  cx_engine :: engine
  cx_snapshots :: snapshot_engine

text \<open>\<open>cx_exists\<close> is \<open>Path::exists\<close>, which follows symbolic links.\<close>

definition with_context :: "string \<Rightarrow> ('s \<Rightarrow> 's \<times> ('e + 'a)) \<Rightarrow> 's \<Rightarrow> 's \<times> (cli_error + 'a)" where
  "with_context message m s = (case m s of (s, Inl _) \<Rightarrow> (s, Inl (CliMessage message)) | (s, Inr x) \<Rightarrow> (s, Inr x))"

definition on_stream :: "(channel \<Rightarrow> channel \<times> ('e + 'a)) \<Rightarrow> client \<Rightarrow> client \<times> ('e + 'a)" where
  "on_stream m s = (case m (cl_stream s) of (ch, r) \<Rightarrow> (s\<lparr>cl_stream := ch\<rparr>, r))"

abbreviation (input) bail :: "string \<Rightarrow> 's \<Rightarrow> 's \<times> (cli_error + 'a)" where
  "bail message \<equiv> \<lambda>s. (s, Inl (CliMessage message))"

abbreviation (input) give :: "'a \<Rightarrow> 's \<Rightarrow> 's \<times> (cli_error + 'a)" where
  "give x \<equiv> \<lambda>s. (s, Inr x)"

text \<open>Why a connection fails is not looked at.\<close>

definition connect :: "string \<Rightarrow> client \<Rightarrow> client \<times> (cli_error + unit)" where
  "connect socket = with_context (''could not connect to '' @ socket) (fs_call (\<lambda>fs. (fs, Inr ())))"

text \<open>The decimal digits that \<open>println!\<close> gives an integer.\<close>

fun decimal :: "nat \<Rightarrow> string" where
  "decimal n = (if n < 10 then [char_of (48 + n)] else decimal (n div 10) @ [char_of (48 + n mod 10)])"

declare decimal.simps [simp del]

section \<open>Requests and responses\<close>

definition code_to_text :: "failure \<Rightarrow> string" where
  "code_to_text f =
     (case fl_code f of
        CodeProtocol \<Rightarrow> ''protocol error''
      | CodeUnauthorized \<Rightarrow> ''unauthorized''
      | CodeLocked \<Rightarrow> ''vault locked''
      | CodeNotFound \<Rightarrow> ''not found''
      | CodeInvalidInput \<Rightarrow> ''invalid input''
      | CodeVerification \<Rightarrow> ''verification failed''
      | CodeStorage \<Rightarrow> ''storage error''
      | CodeWitnessUnavailable \<Rightarrow> ''freshness witness unavailable''
      | CodeWitnessConflict \<Rightarrow> ''freshness witness conflict''
      | CodeOverloaded \<Rightarrow> ''daemon connection limit reached''
      | CodePolicy \<Rightarrow> ''policy denied''
      | CodeInternal \<Rightarrow> ''internal error'')"

definition daemon_message :: "failure \<Rightarrow> string" where
  "daemon_message f = ''daemon '' @ code_to_text f @ '': '' @ fl_message f"

fun response_to_result :: "response \<Rightarrow> cli_error + success" where
  "response_to_result (ResponseOk result) = Inr result"
| "response_to_result (ResponseError f) = Inl (CliMessage (daemon_message f))"

definition read_response :: "cli_services \<Rightarrow> client \<Rightarrow> client \<times> (cli_error + success)" where
  "read_response K =
     then_do (with_context ''could not read daemon response'' (on_stream (read_frame (cx_parse_response K)))) (\<lambda>response s.
       (s, response_to_result response))"

definition cli_request :: "cli_services \<Rightarrow> string \<Rightarrow> request \<Rightarrow> client \<Rightarrow> client \<times> (cli_error + success)" where
  "cli_request K socket operation =
     then_do (connect socket) (\<lambda>_.
     then_do (with_context ''could not write daemon request'' (on_stream (write_frame (cx_print_request K) operation))) (\<lambda>_.
     read_response K))"

definition cli_empty :: "cli_services \<Rightarrow> string \<Rightarrow> request \<Rightarrow> string \<Rightarrow> client \<Rightarrow> client \<times> (cli_error + string list)" where
  "cli_empty K socket operation message =
     then_do (cli_request K socket operation) (\<lambda>result.
     if result = ScEmpty then give [message] else bail ''daemon returned an unexpected empty payload'')"

definition expect_stream_ready :: "success \<Rightarrow> cli_error + unit" where
  "expect_stream_ready response =
     (if response = ScStreamReady then Inr ()
      else Inl (CliMessage ''daemon returned an unexpected streaming readiness payload''))"

text \<open>Passphrases come from a list of what the user types; \<open>None\<close> is a failed prompt.\<close>

definition prompt_password :: "string option list \<Rightarrow> string option list \<times> (cli_error + string)" where
  "prompt_password typed = (case typed of Some p # rest \<Rightarrow> (rest, Inr p) | None # rest \<Rightarrow> (rest, Inl CliIo) | [] \<Rightarrow> ([], Inl CliIo))"

definition prompt_new_passphrase :: "string option list \<Rightarrow> string option list \<times> (cli_error + string)" where
  "prompt_new_passphrase =
     then_do prompt_password (\<lambda>first.
     if first = [] then bail ''passphrase must not be empty''
     else then_do prompt_password (\<lambda>second.
       if first \<noteq> second then bail ''passphrase confirmation does not match'' else give first))"

section \<open>Plaintext output files\<close>

fun check_output_directories :: "file_system \<Rightarrow> path_component list list \<Rightarrow> cli_error + unit" where
  "check_output_directories fs [] = Inr ()"
| "check_output_directories fs (a # as) =
     (case symlink_metadata fs (path_string a) of
        Inl _ \<Rightarrow> Inl (CliMessage (''plaintext output parent directory does not exist: '' @ path_string a))
      | Inr m \<Rightarrow>
          if file_type m = Symlink \<or> file_type m \<noteq> Directory
          then Inl (CliMessage (''plaintext output parent must be a direct directory path: '' @ path_string a))
          else check_output_directories fs as)"

definition validate_new_plaintext_output :: "file_system \<Rightarrow> string \<Rightarrow> cli_error + string" where
  "validate_new_plaintext_output fs output =
     and_then (ok_or (CliMessage ''plaintext output path has no parent directory'') (parent (components output))) (\<lambda>p.
     let p = (if p = [] then components ''.'' else p) in
     and_then (check_output_directories fs (filter (\<lambda>a. a \<noteq> []) (ancestors p))) (\<lambda>_.
     case symlink_metadata fs output of
       Inr _ \<Rightarrow> Inl (CliMessage (''refusing to overwrite plaintext output: '' @ output))
     | Inl NotFoundError \<Rightarrow> Inr (path_string p)
     | Inl OtherIoError \<Rightarrow> Inl (CliMessage (''could not inspect plaintext output path: '' @ output))))"

definition publish_private_temporary_file :: "string \<Rightarrow> string \<Rightarrow> client \<Rightarrow> client \<times> (cli_error + unit)" where
  "publish_private_temporary_file temporary output =
     then_do (\<lambda>s. (s, validate_new_plaintext_output (files s) output)) (\<lambda>parent.
     then_do (with_context (''refusing to overwrite plaintext output: '' @ output) (fs_call (fs_link temporary output))) (\<lambda>_.
     with_context (''could not sync plaintext output directory: '' @ parent) (sync_file parent)))"

section \<open>Commands\<close>

definition cli_init ::
    "cli_services \<Rightarrow> string option list \<Rightarrow> string \<Rightarrow> database connection \<Rightarrow> database connection \<times> (cli_error + string list)" where
  "cli_init K typed path c =
     (if cx_exists K (files c) path then (c, Inl (CliMessage (''refusing to overwrite existing vault: '' @ path)))
      else case parent (components path) of
        None \<Rightarrow> (c, Inl (CliMessage ''vault path has no parent directory''))
      | Some p \<Rightarrow>
          if \<not> cx_exists K (files c) (path_string p)
          then (c, Inl (CliMessage (''vault parent directory does not exist: '' @ path_string p)))
          else case prompt_new_passphrase typed of
            (_, Inl e) \<Rightarrow> (c, Inl e)
          | (_, Inr passphrase) \<Rightarrow>
              then_do (with_context ''could not create VLT/1 vault'' (vault_create (cx_crypto K) (cx_engine K) path passphrase)) (\<lambda>v.
              give [''created VLT/1 vault'', ''vault-id: '' @ to_hex (vault_id_of v),
                ''next: start vlt1d with this vault and a protected local socket'']) c)"

definition cli_status :: "cli_services \<Rightarrow> string \<Rightarrow> client \<Rightarrow> client \<times> (cli_error + string list)" where
  "cli_status K socket =
     then_do (cli_request K socket RqStatus) (\<lambda>result.
     case result of
       ScStatus st \<Rightarrow>
         give ([''format: '' @ st_format st, ''vault-id: '' @ st_vault_id st, ''lifecycle: '' @ st_lifecycle st,
             ''recovery: '' @ st_recovery st]
           @ (case st_verified_active_objects st of None \<Rightarrow> [] | Some n \<Rightarrow> [''verified-active-objects: '' @ decimal (unat n)]))
     | _ \<Rightarrow> bail ''daemon returned an unexpected status payload'')"

definition cli_unlock :: "cli_services \<Rightarrow> string option list \<Rightarrow> string \<Rightarrow> client \<Rightarrow> client \<times> (cli_error + string list)" where
  "cli_unlock K typed socket s =
     (case prompt_password typed of
        (_, Inl e) \<Rightarrow> (s, Inl e)
      | (_, Inr passphrase) \<Rightarrow> cli_empty K socket (RqUnlock passphrase) ''vault unlocked'' s)"

text \<open>The loop of \<open>put\<close>; a read takes what is left of the file, up to the size of the buffer.\<close>

function upload_loop :: "string \<Rightarrow> bytes \<Rightarrow> client \<Rightarrow> client \<times> (cli_error + unit)" where
  "upload_loop infile rest s =
     (case tick s of (s, failed) \<Rightarrow>
        if failed then (s, Inl (CliMessage (''could not read '' @ infile)))
        else if rest = [] then (s, Inr ())
        else
          (case with_context ''could not write upload chunk''
             (on_stream (write_stream_chunk (take MAX_STREAM_CHUNK_BYTES rest))) s of
             (s, Inl e) \<Rightarrow> (s, Inl e)
           | (s, Inr _) \<Rightarrow> upload_loop infile (drop MAX_STREAM_CHUNK_BYTES rest) s))"
  by pat_completeness auto
termination
  by (relation "measure (\<lambda>(_, rest, _). length rest)") (auto simp: frame_bounds)

declare upload_loop.simps [simp del]

definition cli_put :: "cli_services \<Rightarrow> string \<Rightarrow> string \<Rightarrow> string \<Rightarrow> client \<Rightarrow> client \<times> (cli_error + string list)" where
  "cli_put K socket object_id infile =
     then_do (with_context (''could not read '' @ infile) (fs_call (\<lambda>fs. (fs, fs_read infile fs)))) (\<lambda>bs.
     then_do (connect socket) (\<lambda>_.
     then_do (with_context ''could not start streaming upload''
       (on_stream (write_frame (cx_print_request K) (RqPutStream object_id)))) (\<lambda>_.
     then_do (read_response K) (\<lambda>ready.
     then_do (\<lambda>s. (s, expect_stream_ready ready)) (\<lambda>_.
     then_do (upload_loop infile bs) (\<lambda>_.
     then_do (with_context ''could not finish streaming upload'' (on_stream write_stream_end)) (\<lambda>_.
     then_do (read_response K) (\<lambda>result.
     case result of
       ScPublished version_id \<Rightarrow> give [''published immutable version: '' @ version_id]
     | _ \<Rightarrow> bail ''daemon returned an unexpected streaming upload payload''))))))))"

lemma cl_stream_call: "fs_call f s = (s', r) \<Longrightarrow> cl_stream s' = cl_stream s"
  by (auto simp: fs_call_def tick_def split: if_splits prod.splits)

lemma cl_stream_write: "fs_write_all S p bs s = (s', r) \<Longrightarrow> cl_stream s' = cl_stream s"
  by (auto simp: fs_write_all_def tick_def dest: cl_stream_call split: if_splits)

lemma with_context_eq:
  "with_context message m s = (s', Inr x) \<longleftrightarrow> m s = (s', Inr x)"
  "with_context message m s = (s', Inl e) \<longleftrightarrow> (\<exists>e'. m s = (s', Inl e')) \<and> e = CliMessage message"
  by (auto simp: with_context_def split: prod.splits sum.splits)

lemma with_context_stream:
  "with_context message (fs_write_all S p bs) s = (s', Inr u) \<Longrightarrow> cl_stream s' = cl_stream s"
  unfolding with_context_eq by (rule cl_stream_write)

text \<open>The loop of \<open>get\<close>.\<close>

function download_loop :: "cli_services \<Rightarrow> string \<Rightarrow> string \<Rightarrow> client \<Rightarrow> client \<times> (cli_error + unit)" where
  "download_loop K temporary output s =
     (case read_stream_item (cx_parse_response K) (cl_stream s) of
        (ch, Inl _) \<Rightarrow> (s\<lparr>cl_stream := ch\<rparr>, Inl (CliMessage ''could not read download chunk''))
      | (ch, Inr (ItemData chunk)) \<Rightarrow>
          (case with_context (''could not write temporary output for '' @ output) (fs_write_all (cx_os K) temporary chunk)
             (s\<lparr>cl_stream := ch\<rparr>) of
             (s, Inl e) \<Rightarrow> (s, Inl e)
           | (s, Inr _) \<Rightarrow> download_loop K temporary output s)
      | (ch, Inr ItemEnd) \<Rightarrow> (s\<lparr>cl_stream := ch\<rparr>, Inr ())
      | (ch, Inr (ItemError (ResponseError f))) \<Rightarrow> (s\<lparr>cl_stream := ch\<rparr>, Inl (CliMessage (daemon_message f)))
      | (ch, Inr (ItemError (ResponseOk _))) \<Rightarrow>
          (s\<lparr>cl_stream := ch\<rparr>, Inl (CliMessage ''daemon returned an invalid successful stream error response'')))"
  by pat_completeness auto
termination
  by (relation "measure (\<lambda>(_, _, _, s). length (incoming (cl_stream s)))")
     (auto dest!: with_context_stream [OF sym] read_stream_item_shrinks [OF sym])

declare download_loop.simps [simp del]

text \<open>\<open>NamedTempFile::new_in\<close>.\<close>

definition new_temporary_in :: "os \<Rightarrow> string \<Rightarrow> 'z env_scheme \<Rightarrow> 'z env_scheme \<times> string result" where
  "new_temporary_in S directory s =
     (let name = temp_name S directory (files s) in
      then_do (fs_call (fs_create name MODE_600)) (\<lambda>_ s. (s, Inr name)) s)"

definition fetch_into :: "cli_services \<Rightarrow> string \<Rightarrow> string \<Rightarrow> string \<Rightarrow> string \<Rightarrow> client \<Rightarrow> client \<times> (cli_error + string list)" where
  "fetch_into K socket object_id output temporary =
     then_do (with_context (''could not protect temporary output for '' @ output) (chmod_private temporary)) (\<lambda>_.
     then_do (connect socket) (\<lambda>_.
     then_do (with_context ''could not start streaming download''
       (on_stream (write_frame (cx_print_request K) (RqGetStream object_id)))) (\<lambda>_.
     then_do (read_response K) (\<lambda>ready.
     then_do (\<lambda>s. (s, expect_stream_ready ready)) (\<lambda>_.
     then_do (download_loop K temporary output) (\<lambda>_.
     then_do (with_context (''could not sync temporary output for '' @ output) sync_all) (\<lambda>_.
     then_do (publish_private_temporary_file temporary output) (\<lambda>_.
     give [''verified and wrote '' @ output]))))))))"

text \<open>The temporary file is removed when \<open>get\<close> returns.\<close>

definition cli_get :: "cli_services \<Rightarrow> string \<Rightarrow> string \<Rightarrow> string \<Rightarrow> client \<Rightarrow> client \<times> (cli_error + string list)" where
  "cli_get K socket object_id output =
     then_do (\<lambda>s. (s, validate_new_plaintext_output (files s) output)) (\<lambda>parent.
     then_do (with_context (''could not create temporary output beside '' @ output) (new_temporary_in (cx_os K) parent)) (\<lambda>temporary s.
       case fetch_into K socket object_id output temporary s of (s, r) \<Rightarrow> (drop_temporary temporary s, r)))"

definition cli_backup :: "cli_services \<Rightarrow> string \<Rightarrow> string \<Rightarrow> client \<Rightarrow> client \<times> (cli_error + string list)" where
  "cli_backup K socket output s =
     (if cx_exists K (files s) output \<or> cx_exists K (files s) (manifest_path output)
      then (s, Inl (CliMessage (''refusing to overwrite backup output or sidecar: '' @ output)))
      else then_do (cli_request K socket (RqBackup output)) (\<lambda>result.
        case result of
          ScBackup format database_sha256 database_bytes \<Rightarrow>
            give [''backup format: '' @ format, ''backup database SHA-256: '' @ database_sha256,
              ''backup bytes: '' @ decimal (unat database_bytes), ''backup sidecar: '' @ manifest_path output]
        | _ \<Rightarrow> bail ''daemon returned an unexpected backup payload'') s)"

definition cli_restore :: "cli_services \<Rightarrow> string \<Rightarrow> string option \<Rightarrow> string \<Rightarrow> client \<Rightarrow> client \<times> (cli_error + string list)" where
  "cli_restore K backup manifest output =
     (let path = (case manifest of None \<Rightarrow> manifest_path backup | Some p \<Rightarrow> p) in
      then_do (with_context (''could not validate '' @ path) (read_from (cx_parse_manifest K) path)) (\<lambda>m.
      then_do (with_context (''could not restore verified backup '' @ backup)
        (restore_from_backup (cx_crypto K) (cx_snapshots K) (cx_os K) backup m output)) (\<lambda>_.
      give [''restored verified encrypted vault to '' @ output])))"

definition cli_rotate_passphrase :: "cli_services \<Rightarrow> string option list \<Rightarrow> string \<Rightarrow> client \<Rightarrow> client \<times> (cli_error + string list)" where
  "cli_rotate_passphrase K typed socket s =
     (case then_do prompt_password (\<lambda>current. then_do prompt_new_passphrase (\<lambda>replacement. give (current, replacement))) typed of
        (_, Inl e) \<Rightarrow> (s, Inl e)
      | (_, Inr (current, replacement)) \<Rightarrow>
          cli_empty K socket (RqRotatePassphrase current replacement) ''passphrase rotated; daemon vault is locked'' s)"

definition cli_verify :: "cli_services \<Rightarrow> string \<Rightarrow> client \<Rightarrow> client \<times> (cli_error + string list)" where
  "cli_verify K socket =
     then_do (cli_request K socket RqVerify) (\<lambda>result.
     case result of
       ScVerified active_objects \<Rightarrow> give [''verified active object versions: '' @ decimal (unat active_objects)]
     | _ \<Rightarrow> bail ''daemon returned an unexpected verify payload'')"

text \<open>\<open>init\<close> opens a database that is not there yet.\<close>

definition new_connection :: "string \<Rightarrow> client \<Rightarrow> database connection" where
  "new_connection path s = \<lparr>rng_state = rng_state s, faults = faults s, files = files s,
     tables = empty_database, state_path = path\<rparr>"

datatype command =
    CmdInit string
  | CmdStatus string
  | CmdUnlock string
  | CmdLock string
  | CmdPut string string string
  | CmdGet string string string
  | CmdRotatePassphrase string
  | CmdVerify string
  | CmdCheckpoint string
  | CmdBackup string string
  | CmdRestore string "string option" string

fun cli_main :: "cli_services \<Rightarrow> string option list \<Rightarrow> command \<Rightarrow> client \<Rightarrow> client \<times> (cli_error + string list)" where
  "cli_main K typed (CmdInit vault) s =
     (case cli_init K typed vault (new_connection vault s) of
        (c, r) \<Rightarrow> (s\<lparr>rng_state := rng_state c, faults := faults c, files := files c\<rparr>, r))"
| "cli_main K typed (CmdStatus socket) s = cli_status K socket s"
| "cli_main K typed (CmdUnlock socket) s = cli_unlock K typed socket s"
| "cli_main K typed (CmdLock socket) s = cli_empty K socket RqLock ''vault locked'' s"
| "cli_main K typed (CmdPut socket object_id infile) s = cli_put K socket object_id infile s"
| "cli_main K typed (CmdGet socket object_id output) s = cli_get K socket object_id output s"
| "cli_main K typed (CmdRotatePassphrase socket) s = cli_rotate_passphrase K typed socket s"
| "cli_main K typed (CmdVerify socket) s = cli_verify K socket s"
| "cli_main K typed (CmdCheckpoint socket) s = cli_empty K socket RqCheckpoint ''checkpoint completed'' s"
| "cli_main K typed (CmdBackup socket output) s = cli_backup K socket output s"
| "cli_main K typed (CmdRestore backup manifest output) s = cli_restore K backup manifest output s"

end
