(* ===== verification/Vlt_Cli_Correct.thy ===== *)
theory Vlt_Cli_Correct
  imports Vlt_Cli
begin

text \<open>
  The command line client and the daemon together. Each end is its model on its own side of a connection,
  and the connection is closed by two equations: what the one end sent is what the other has to read. The
  theory shows that \<open>vlt1 put\<close> stores the bytes of its input file, that \<open>vlt1 get\<close> writes the contents that
  the daemon's vault authenticates into a new owner-private file, and that \<open>get\<close> leaves every other file alone.
\<close>

section \<open>Frames and streams across a connection\<close>

lemma read_frame_Inr_cong:
  assumes "read_frame parse ch = (ch', Inr x)" "incoming rd = incoming ch"
  shows "read_frame parse rd = (rd\<lparr>incoming := incoming ch'\<rparr>, Inr x)"
  using assms by (auto simp: read_frame_def result_simps read_exact_Inr Let_def split: if_splits)

lemma stream_unique:
  assumes "stream_bytes cs @ u32_to_be_bytes STREAM_END @ rest = stream_bytes ds @ u32_to_be_bytes STREAM_END @ rest'"
    and "list_all stream_chunk_ok cs" "list_all stream_chunk_ok ds"
  shows "cs = ds"
proof -
  let ?ch = "channel_of (stream_bytes cs @ u32_to_be_bytes STREAM_END @ rest)"
  have "map Data cs = map Data ds"
    using stream_delivered [of ?ch cs rest "\<lambda>_. None"] stream_delivered [of ?ch ds rest' "\<lambda>_. None"] assms by simp
  then show ?thesis by (rule list.inj_map_strong [rotated]) simp
qed

lemma sent_incoming [simp]: "sent (ch\<lparr>incoming := bs\<rparr>) ch' = sent ch ch'"
  by (simp add: sent_def)

section \<open>The client's steps\<close>

lemma on_stream_Inr [result_simps]:
  "on_stream m s = (s', Inr x) \<longleftrightarrow> (\<exists>ch. m (cl_stream s) = (ch, Inr x) \<and> s' = s\<lparr>cl_stream := ch\<rparr>)"
  by (auto simp: on_stream_def split: prod.splits)

lemma response_to_result_Inr [result_simps]: "response_to_result rsp = Inr x \<longleftrightarrow> rsp = ResponseOk x"
  by (cases rsp) auto

lemma read_response_Inr:
  assumes "read_response K s = (s', Inr x)"
  obtains ch where "read_frame (cx_parse_response K) (cl_stream s) = (ch, Inr (ResponseOk x))" "s' = s\<lparr>cl_stream := ch\<rparr>"
    "outgoing ch = outgoing (cl_stream s)"
  using assms by (auto simp: read_response_def result_simps with_context_eq dest: read_frame_outgoing)

lemma connect_Inr:
  assumes "connect socket s = (s', Inr u)"
  shows "cl_stream s' = cl_stream s" "files s' = files s"
  using assms by (auto simp: connect_def with_context_eq result_simps tick_def)

lemma expect_stream_ready_Inr [result_simps]: "expect_stream_ready r = Inr u \<longleftrightarrow> r = ScStreamReady"
  by (simp add: expect_stream_ready_def)

lemma upload_loop_Inr:
  assumes "upload_loop infile rest s = (s', Inr u)"
  shows "\<exists>cs. list_all stream_chunk_ok cs \<and> concat cs = rest \<and> sends (stream_bytes cs) (cl_stream s) (cl_stream s')
    \<and> files s' = files s"
  using assms
proof (induction infile rest s arbitrary: s' rule: upload_loop.induct)
  case (1 infile rest s)
  let ?c = "take MAX_STREAM_CHUNK_BYTES rest"
  obtain s0 failed where t: "tick s = (s0, failed)" "cl_stream s0 = cl_stream s" "files s0 = files s" by (simp add: tick_def)
  note step = 1(2) [unfolded upload_loop.simps [of infile rest s] t(1), simplified]
  show ?case
  proof (cases "rest = []")
    case True
    with step have "s' = s0" by (auto split: if_splits)
    with True t(2,3) show ?thesis by (intro exI [of _ "[]"]) simp
  next
    case False
    with step obtain s1 x where ok: "\<not> failed"
      and w: "with_context ''could not write upload chunk'' (on_stream (write_stream_chunk ?c)) s0 = (s1, Inr x)"
      and rec: "upload_loop infile (drop MAX_STREAM_CHUNK_BYTES rest) s1 = (s', Inr u)"
      by (auto split: if_splits prod.splits sum.splits)
    from w obtain ch where ch: "write_stream_chunk ?c (cl_stream s) = (ch, Inr x)" "s1 = s0\<lparr>cl_stream := ch\<rparr>"
      by (auto simp: with_context_eq result_simps t(2))
    from 1(1) [OF t(1) [symmetric] ok False w [symmetric] refl rec] obtain cs where
      cs: "list_all stream_chunk_ok cs" "concat cs = drop MAX_STREAM_CHUNK_BYTES rest"
        "sends (stream_bytes cs) ch (cl_stream s')" "files s' = files s"
      using ch(2) t(3) by auto
    with write_stream_chunk_Inr [OF ch(1)] show ?thesis
      by (intro exI [of _ "?c # cs"]) (auto intro: sends_trans)
  qed
qed

text \<open>What a \<open>put\<close> that succeeds has read, sent and received.\<close>

lemma cli_put_Inr:
  assumes "cli_put K socket object_id infile s = (s', Inr lines)"
  obtains bs body cs ch1 ch2 ch3 ch4 version_id where
    "fs_read infile (files s) = Inr bs" "files s' = files s"
    "cx_print_request K (RqPutStream object_id) = Some body" "body \<noteq> []" "length body \<le> MAX_FRAME_BYTES"
    "list_all stream_chunk_ok cs" "concat cs = bs"
    "read_frame (cx_parse_response K) ch1 = (ch2, Inr (ResponseOk ScStreamReady))" "incoming ch1 = incoming (cl_stream s)"
    "read_frame (cx_parse_response K) ch3 = (ch4, Inr (ResponseOk (ScPublished version_id)))" "incoming ch3 = incoming ch2"
    "sent (cl_stream s) (cl_stream s') = prefixed body @ stream_bytes cs @ u32_to_be_bytes STREAM_END"
proof -
  note parts = assms [unfolded cli_put_def then_do_eq_Inr]
  from parts obtain s1 s2 s3 s4 s5 s6 s7 bs ready u1 u2 u3 u4 result where
    r: "with_context (''could not read '' @ infile) (fs_call (\<lambda>fs. (fs, fs_read infile fs))) s = (s1, Inr bs)"
    and c: "connect socket s1 = (s2, Inr u1)"
    and w: "with_context ''could not start streaming upload''
       (on_stream (write_frame (cx_print_request K) (RqPutStream object_id))) s2 = (s3, Inr u2)"
    and a: "read_response K s3 = (s4, Inr ready)" "expect_stream_ready ready = Inr u3"
    and l: "upload_loop infile bs s4 = (s5, Inr u4)"
    and e: "with_context ''could not finish streaming upload'' (on_stream write_stream_end) s5 = (s6, Inr ())"
    and p: "read_response K s6 = (s7, Inr result)"
    and fin: "(case result of ScPublished version_id \<Rightarrow> give [''published immutable version: '' @ version_id]
       | _ \<Rightarrow> bail ''daemon returned an unexpected streaming upload payload'') s7 = (s', Inr lines)"
    by auto
  obtain version_id where v: "result = ScPublished version_id" "s' = s7" using fin by (cases result) auto
  have ready: "ready = ScStreamReady" using a(2) by (simp add: result_simps)
  have r1: "fs_read infile (files s) = Inr bs" "files s1 = files s" "cl_stream s1 = cl_stream s"
    using r by (auto simp: with_context_eq result_simps tick_def)
  from w obtain c3 where c3: "write_frame (cx_print_request K) (RqPutStream object_id) (cl_stream s2) = (c3, Inr u2)"
    "s3 = s2\<lparr>cl_stream := c3\<rparr>" by (auto simp: with_context_eq result_simps)
  from c3(1) obtain body where b: "cx_print_request K (RqPutStream object_id) = Some body" "body \<noteq> []" "length body \<le> MAX_FRAME_BYTES"
    "sends (prefixed body) (cl_stream s2) c3" by (rule write_frame_Inr)
  from a(1) obtain c4 where c4: "read_frame (cx_parse_response K) c3 = (c4, Inr (ResponseOk ready))" "s4 = s3\<lparr>cl_stream := c4\<rparr>"
    "outgoing c4 = outgoing c3" by (rule read_response_Inr) (simp add: c3)
  from upload_loop_Inr [OF l] obtain cs where cs: "list_all stream_chunk_ok cs" "concat cs = bs"
    "sends (stream_bytes cs) c4 (cl_stream s5)" "files s5 = files s4" using c4(2) by auto
  from e obtain c6 where c6: "write_stream_end (cl_stream s5) = (c6, Inr ())" "s6 = s5\<lparr>cl_stream := c6\<rparr>"
    by (auto simp: with_context_eq result_simps)
  note c6s = write_stream_end_Inr [OF c6(1)]
  from p obtain c7 where c7: "read_frame (cx_parse_response K) c6 = (c7, Inr (ResponseOk result))" "s7 = s6\<lparr>cl_stream := c7\<rparr>"
    "outgoing c7 = outgoing c6" by (rule read_response_Inr) (simp add: c6)
  note conn = connect_Inr [OF c]
  have "sent (cl_stream s) (cl_stream s') = prefixed body @ stream_bytes cs @ u32_to_be_bytes STREAM_END"
    using v(2) c7 c6s cs(3) c4(3) b(4) conn(1) r1(3) by (simp add: sends_def sent_def)
  moreover have "files s' = files s" using v(2) c7(2) c6(2) cs(4) c4(2) c3(2) conn(2) r1(2) by simp
  moreover have "incoming c3 = incoming (cl_stream s)" using b(4) conn(1) r1(3) by (simp add: sends_def)
  moreover have "incoming c6 = incoming c4" using c6s cs(3) by (simp add: sends_def)
  ultimately show thesis using that r1(1) b(1-3) cs(1,2) c4(1) c7(1) v(1) ready by blast
qed

section \<open>The daemon at the other end\<close>

text \<open>A client that reads a success was authorized, and the daemon took the request that it sent.\<close>

lemma served_request:
  assumes "codec_law (cx_print_request K) (sx_parse_request X)" "codec_law (sx_print_response X) (cx_parse_response K)"
    and "cx_print_request K rq = Some body" "body \<noteq> []" "length body \<le> MAX_FRAME_BYTES" "incoming ch = prefixed body @ rest"
    and "serve_stream X True peer d ch = (d', ch', Inr ())"
    and "read_frame (cx_parse_response K) rd = (rd1, Inr (ResponseOk x))" "incoming rd = sent ch ch'"
  shows "authorize peer d"
    and "rq = RqPutStream object_id \<Longrightarrow> put_stream X object_id d (ch\<lparr>incoming := rest\<rparr>) = (d', ch', Inr ())"
    and "rq = RqGetStream object_id \<Longrightarrow> get_stream X object_id d (ch\<lparr>incoming := rest\<rparr>) = (d', ch', Inr ())"
proof -
  show au: "authorize peer d"
  proof (rule ccontr)
    assume "\<not> authorize peer d"
    with assms(7) have "write_response X (error_response CodeUnauthorized ''local peer is not authorized'') ch = (ch', Inr ())"
      by (simp add: serve_stream_def)
    from client_reads_response [OF assms(2) this, of rd "[]"] assms(8,9) show False by (simp add: error_response_def)
  qed
  have "read_frame (sx_parse_request X) ch = (ch\<lparr>incoming := rest\<rparr>, Inr rq)"
    using read_frame_prefixed [OF assms(6,4,5), of "sx_parse_request X"] codec_lawD [OF assms(1,3)] by simp
  with assms(7) au
  show "rq = RqPutStream object_id \<Longrightarrow> put_stream X object_id d (ch\<lparr>incoming := rest\<rparr>) = (d', ch', Inr ())"
    and "rq = RqGetStream object_id \<Longrightarrow> get_stream X object_id d (ch\<lparr>incoming := rest\<rparr>) = (d', ch', Inr ())"
    by (simp_all add: serve_stream_def)
qed

lemma cli_put_effect:
  assumes "codec_law (cx_print_request K) (sx_parse_request X)" "codec_law (sx_print_response X) (cx_parse_response K)"
    and "aead_correct (sx_crypto X)" "hash_width (sx_crypto X)" "db_ok (tables (dm_vault d))"
    and "cli_put K socket object_id infile s = (s', Inr lines)" "serve_stream X True peer d ch = (d', ch', Inr ())"
    and "incoming ch = sent (cl_stream s) (cl_stream s')" "incoming (cl_stream s) = sent ch ch'"
  shows "\<exists>bs oid rk. fs_read infile (files s) = Inr bs \<and> files s' = files s \<and> authorize peer d
    \<and> daemon_parse_object_id object_id = Inr oid \<and> vt_root_key (dm_vault d) = Some rk
    \<and> contents (sx_crypto X) rk (vault_id_of (dm_vault d)) (tables (dm_vault d'))
      = (contents (sx_crypto X) rk (vault_id_of (dm_vault d)) (tables (dm_vault d)))(oid \<mapsto> bs)
    \<and> vt_root_key (dm_vault d') = Some rk \<and> vault_id_of (dm_vault d') = vault_id_of (dm_vault d)"
proof (rule cli_put_Inr [OF assms(6)])
  fix bs body cs ch1 ch2 ch3 ch4 version_id
  assume c: "fs_read infile (files s) = Inr bs" "files s' = files s"
    "cx_print_request K (RqPutStream object_id) = Some body" "body \<noteq> []" "length body \<le> MAX_FRAME_BYTES"
    "list_all stream_chunk_ok cs" "concat cs = bs"
    "read_frame (cx_parse_response K) ch1 = (ch2, Inr (ResponseOk ScStreamReady))" "incoming ch1 = incoming (cl_stream s)"
    "read_frame (cx_parse_response K) ch3 = (ch4, Inr (ResponseOk (ScPublished version_id)))" "incoming ch3 = incoming ch2"
    "sent (cl_stream s) (cl_stream s') = prefixed body @ stream_bytes cs @ u32_to_be_bytes STREAM_END"
  let ?rest = "stream_bytes cs @ u32_to_be_bytes STREAM_END"
  let ?ch = "ch\<lparr>incoming := ?rest\<rparr>"
  have inc: "incoming ch = prefixed body @ ?rest" "incoming ch1 = sent ch ch'" using assms(8,9) c(9,12) by simp_all
  note served = served_request [OF assms(1,2) c(3-5) inc(1) assms(7) c(8) inc(2)]
  have "read_frame (cx_parse_response K) ch2 = (ch2\<lparr>incoming := incoming ch4\<rparr>, Inr (ResponseOk (ScPublished version_id)))"
    using read_frame_Inr_cong [OF c(10)] c(11) by simp
  note up = acknowledged_upload [OF assms(2-5) served(2) [OF refl] _ c(8) this]
  have inc2: "incoming ch1 = sent ?ch ch'" using inc(2) by simp
  obtain oid rk ds rest v where u: "daemon_parse_object_id object_id = Inr oid" "vt_root_key (dm_vault d) = Some rk"
    "incoming ?ch = stream_bytes ds @ u32_to_be_bytes STREAM_END @ rest" "list_all stream_chunk_ok ds"
    "contents (sx_crypto X) rk (vault_id_of (dm_vault d)) (tables v)
      = (contents (sx_crypto X) rk (vault_id_of (dm_vault d)) (tables (dm_vault d)))(oid \<mapsto> concat ds)" "d' = d\<lparr>dm_vault := v\<rparr>"
    "vt_root_key v = Some rk" "vault_id_of v = vault_id_of (dm_vault d)"
    by (rule up [OF inc2])
  from u(3) have "stream_bytes ds @ u32_to_be_bytes STREAM_END @ rest = stream_bytes cs @ u32_to_be_bytes STREAM_END @ []" by simp
  then have "ds = cs" using u(4) c(6) by (rule stream_unique)
  with c(1,2,7) u served(1) show ?thesis by (intro exI [of _ bs] exI [of _ oid] exI [of _ rk]) simp
qed

text \<open>C6. From file to vault: when \<open>vlt1 put\<close> reports success against a daemon that received exactly what the command
  sent and whose answers it read, then the daemon accepted the user, and in the daemon's vault
  the contents of the object are the bytes of the input file, with every other object as it was. The command
  changes no file.\<close>

theorem cli_put_stores:
  assumes "codec_law (cx_print_request K) (sx_parse_request X)" "codec_law (sx_print_response X) (cx_parse_response K)"
    and "aead_correct (sx_crypto X)" "hash_width (sx_crypto X)" "db_ok (tables (dm_vault d))"
    and "cli_put K socket object_id infile s = (s', Inr lines)" "serve_stream X True peer d ch = (d', ch', Inr ())"
    and "incoming ch = sent (cl_stream s) (cl_stream s')" "incoming (cl_stream s) = sent ch ch'"
  shows "\<exists>bs oid rk. fs_read infile (files s) = Inr bs \<and> files s' = files s \<and> authorize peer d
    \<and> daemon_parse_object_id object_id = Inr oid \<and> vt_root_key (dm_vault d) = Some rk
    \<and> contents (sx_crypto X) rk (vault_id_of (dm_vault d)) (tables (dm_vault d'))
      = (contents (sx_crypto X) rk (vault_id_of (dm_vault d)) (tables (dm_vault d)))(oid \<mapsto> bs)"
  using cli_put_effect [OF assms] by blast

lemma read_stream_item_outgoing: "read_stream_item parse ch = (ch', r) \<Longrightarrow> outgoing ch' = outgoing ch"
  by (auto simp: read_stream_item_def then_do_def read_exact_def Let_def dest: read_frame_outgoing
      split: prod.splits sum.splits if_splits)

section \<open>Downloads into a file\<close>

lemma fs_write_all_Inr:
  assumes "fs_write_all S p bs s = (s', Inr u)" "at (files s) p i old"
  shows "files s' = (files s)\<lparr>content := (content (files s))(i := old @ bs)\<rparr>"
  using assms by (auto simp: fs_write_all_def result_simps fs_store_def at_def fs_inode_def split: if_splits)

lemma at_content [simp]: "at fs p i old \<Longrightarrow> at (fs\<lparr>content := (content fs)(i := bs)\<rparr>) p i bs"
  by (simp add: at_def)

lemma at_same:
  assumes "at fs p i old"
  shows "fs\<lparr>content := (content fs)(i := old)\<rparr> = fs"
proof -
  have "(content fs)(i := old) = content fs" using assms by (intro fun_upd_idem) (simp add: at_def)
  then show ?thesis by simp
qed

lemma download_loop_Inr:
  assumes "download_loop K temporary dest s = (s', Inr u)" "at (files s) temporary i old"
  shows "Failed \<notin> set (channel_deliveries (cx_parse_response K) (cl_stream s))
    \<and> files s' = (files s)\<lparr>content := (content (files s))(i := old @ delivered (channel_deliveries (cx_parse_response K) (cl_stream s)))\<rparr>
    \<and> outgoing (cl_stream s') = outgoing (cl_stream s)"
  using assms
proof (induction K temporary dest s arbitrary: old s' rule: download_loop.induct)
  case (1 K temporary dest s)
  let ?parse = "cx_parse_response K"
  obtain ch item where item: "read_stream_item ?parse (cl_stream s) = (ch, item)" by force
  note out = read_stream_item_outgoing [OF item]
  note step = 1(2) [unfolded download_loop.simps [of K temporary dest s] item, simplified]
  note cd = channel_deliveries_cases [of ?parse "cl_stream s", unfolded item, simplified]
  from step consider (chunk) chunk s1 x where "item = Inr (ItemData chunk)"
      "with_context (''could not write temporary output for '' @ dest) (fs_write_all (cx_os K) temporary chunk)
         (s\<lparr>cl_stream := ch\<rparr>) = (s1, Inr x)" "download_loop K temporary dest s1 = (s', Inr u)"
    | (last) "item = Inr ItemEnd" "s' = s\<lparr>cl_stream := ch\<rparr>"
    by (auto split: sum.splits stream_item.splits response.splits prod.splits)
  then show ?case
  proof cases
    case (chunk chunk s1 x)
    from chunk(2) have w: "fs_write_all (cx_os K) temporary chunk (s\<lparr>cl_stream := ch\<rparr>) = (s1, Inr x)" by (simp add: with_context_eq)
    have f: "files s1 = (files s)\<lparr>content := (content (files s))(i := old @ chunk)\<rparr>" "cl_stream s1 = ch"
      using fs_write_all_Inr [OF w, of i old] 1(3) cl_stream_write [OF w] by simp_all
    have a: "at (files s1) temporary i (old @ chunk)" using f(1) 1(3) by simp
    from 1(1) [OF item [symmetric] chunk(1) refl chunk(2) [symmetric] refl chunk(3) a] f cd chunk(1) out show ?thesis
      by (simp del: fun_upd_apply)
  qed (use cd out at_same [OF 1(3)] in \<open>simp del: fun_upd_apply\<close>)
qed

lemma publish_private_Inr:
  assumes "publish_private_temporary_file temporary output s = (s', Inr u)" "at (files s) temporary i bs"
  shows "files s' = (files s)\<lparr>lookup := (lookup (files s))(output := Inr i)\<rparr> \<and> output \<noteq> []
    \<and> lookup (files s) output = Inl NotFoundError \<and> cl_stream s' = cl_stream s"
  using assms
  by (auto simp: publish_private_temporary_file_def result_simps with_context_eq fs_link_def at_def fs_inode_def tick_def
      sync_file_def fs_open_def sync_all_def split: if_splits)

lemma new_temporary_Inr:
  assumes "new_temporary_in S directory s = (s', Inr name)"
  obtains i where "at (files s') name i []" "lookup (files s) name = Inl NotFoundError" "cl_stream s' = cl_stream s"
  using assms
  by (auto simp: new_temporary_in_def result_simps at_def fs_create_def Let_def tick_def split: if_splits list.splits)

lemma fetch_into_Inr:
  assumes "fetch_into K socket object_id output temporary s = (s', Inr lines)" "at (files s) temporary i []"
  obtains body ch1 ch2 where
    "cx_print_request K (RqGetStream object_id) = Some body" "body \<noteq> []" "length body \<le> MAX_FRAME_BYTES"
    "read_frame (cx_parse_response K) ch1 = (ch2, Inr (ResponseOk ScStreamReady))" "incoming ch1 = incoming (cl_stream s)"
    "sent (cl_stream s) (cl_stream s') = prefixed body" "Failed \<notin> set (channel_deliveries (cx_parse_response K) ch2)"
    "at (files s') output i (delivered (channel_deliveries (cx_parse_response K) ch2))"
    "mode (inodes (files s') i) = MODE_600" "output \<noteq> temporary"
proof -
  from assms(1) [unfolded fetch_into_def then_do_eq_Inr] obtain s1 s2 s3 s4 s5 s6 u1 u2 u3 u4 u5 u6 u7 ready where
    m: "with_context (''could not protect temporary output for '' @ output) (chmod_private temporary) s = (s1, Inr u1)"
    and c: "connect socket s1 = (s2, Inr u2)"
    and w: "with_context ''could not start streaming download''
       (on_stream (write_frame (cx_print_request K) (RqGetStream object_id))) s2 = (s3, Inr u3)"
    and a: "read_response K s3 = (s4, Inr ready)" "expect_stream_ready ready = Inr u4"
    and l: "download_loop K temporary output s4 = (s5, Inr u5)"
    and y: "with_context (''could not sync temporary output for '' @ output) sync_all s5 = (s6, Inr u6)"
    and p: "publish_private_temporary_file temporary output s6 = (s', Inr u7)"
    by auto
  have ready: "ready = ScStreamReady" using a(2) by (simp add: result_simps)
  from m have m': "chmod_private temporary s = (s1, Inr u1)" by (simp add: with_context_eq)
  note f1 = chmod_private_Inr [OF m' assms(2)]
  have l1: "cl_stream s1 = cl_stream s" using m' cl_stream_call by (simp add: chmod_private_def)
  note conn = connect_Inr [OF c]
  from w obtain c3 where c3: "write_frame (cx_print_request K) (RqGetStream object_id) (cl_stream s2) = (c3, Inr u3)"
    "s3 = s2\<lparr>cl_stream := c3\<rparr>" by (auto simp: with_context_eq result_simps)
  from c3(1) obtain body where b: "cx_print_request K (RqGetStream object_id) = Some body" "body \<noteq> []" "length body \<le> MAX_FRAME_BYTES"
    "sends (prefixed body) (cl_stream s2) c3" by (rule write_frame_Inr)
  from a(1) obtain c4 where c4: "read_frame (cx_parse_response K) c3 = (c4, Inr (ResponseOk ready))" "s4 = s3\<lparr>cl_stream := c4\<rparr>"
    "outgoing c4 = outgoing c3" by (rule read_response_Inr) (simp add: c3)
  let ?ds = "channel_deliveries (cx_parse_response K) c4"
  have f4: "files s4 = files s1" using c4(2) c3(2) conn(2) by simp
  have at4: "at (files s4) temporary i []" using f1 assms(2) f4 by (simp add: at_def)
  note dl = download_loop_Inr [OF l at4]
  have str4: "cl_stream s4 = c4" using c4(2) by simp
  have y6: "files s6 = files s5" "cl_stream s6 = cl_stream s5"
    using y by (auto simp: with_context_eq sync_all_def result_simps tick_def)
  have at6: "at (files s6) temporary i (delivered ?ds)" using dl at4 str4 y6(1) by simp
  note pub = publish_private_Inr [OF p at6]
  have "at (files s') output i (delivered ?ds)" using pub at6 by (simp add: at_def)
  moreover have "mode (inodes (files s') i) = MODE_600" using pub y6(1) dl f4 f1 by simp
  moreover have "output \<noteq> temporary" using pub at6 by (auto simp: at_def)
  moreover have "sent (cl_stream s) (cl_stream s') = prefixed body"
    using pub y6(2) dl str4 c4(3) b(4) conn(1) l1 by (simp add: sends_def sent_def)
  moreover have "incoming c3 = incoming (cl_stream s)" using b(4) conn(1) l1 by (simp add: sends_def)
  ultimately show thesis using that b(1-3) c4(1) ready dl str4 by auto
qed

lemma cli_get_Inr:
  assumes "cli_get K socket object_id output s = (s', Inr lines)"
  obtains body ch1 ch2 where
    "cx_print_request K (RqGetStream object_id) = Some body" "body \<noteq> []" "length body \<le> MAX_FRAME_BYTES"
    "read_frame (cx_parse_response K) ch1 = (ch2, Inr (ResponseOk ScStreamReady))" "incoming ch1 = incoming (cl_stream s)"
    "sent (cl_stream s) (cl_stream s') = prefixed body" "Failed \<notin> set (channel_deliveries (cx_parse_response K) ch2)"
    "fs_read output (files s') = Inr (delivered (channel_deliveries (cx_parse_response K) ch2))"
    "private_regular (files s') output"
proof -
  from assms [unfolded cli_get_def then_do_eq_Inr] obtain s1 directory temporary where
    t: "new_temporary_in (cx_os K) directory s = (s1, Inr temporary)"
    and k: "(case fetch_into K socket object_id output temporary s1 of (s, r) \<Rightarrow> (drop_temporary temporary s, r)) = (s', Inr lines)"
    by (auto simp: with_context_eq)
  from k obtain s2 where f: "fetch_into K socket object_id output temporary s1 = (s2, Inr lines)" "s' = drop_temporary temporary s2"
    by (auto split: prod.splits)
  obtain i where i: "at (files s1) temporary i []" "cl_stream s1 = cl_stream s" by (rule new_temporary_Inr [OF t])
  show thesis
  proof (rule fetch_into_Inr [OF f(1) i(1)])
    fix body ch1 ch2
    let ?bs = "delivered (channel_deliveries (cx_parse_response K) ch2)"
    assume r: "cx_print_request K (RqGetStream object_id) = Some body" "body \<noteq> []" "length body \<le> MAX_FRAME_BYTES"
      "read_frame (cx_parse_response K) ch1 = (ch2, Inr (ResponseOk ScStreamReady))" "incoming ch1 = incoming (cl_stream s1)"
      "sent (cl_stream s1) (cl_stream s2) = prefixed body" "Failed \<notin> set (channel_deliveries (cx_parse_response K) ch2)"
      "at (files s2) output i ?bs" "mode (inodes (files s2) i) = MODE_600" "output \<noteq> temporary"
    have d: "files s' = files s2 \<or> files s' = fs_unlink temporary (files s2)" "cl_stream s' = cl_stream s2"
      using f(2) by (auto simp: drop_temporary_def tick_def)
    have a: "at (files s') output i ?bs" "mode (inodes (files s') i) = MODE_600"
      using d(1) r(8,9) at_unlink [OF r(8,10)] by (auto simp: fs_unlink_def)
    then have "private_regular (files s') output" by (simp add: private_at private_mode)
    with a(1) r d(2) i(2) show thesis by (intro that [of body ch1 ch2]) (auto simp: fs_read_at)
  qed
qed

lemma cli_get_effect:
  assumes "codec_law (cx_print_request K) (sx_parse_request X)" "codec_law (sx_print_response X) (cx_parse_response K)"
    and "cli_get K socket object_id output s = (s', Inr lines)" "serve_stream X True peer d ch = (d', ch', Inr ())" "quiet ch"
    and "incoming ch = sent (cl_stream s) (cl_stream s')" "incoming (cl_stream s) = sent ch ch'"
  shows "\<exists>bs oid rk. authorize peer d \<and> daemon_parse_object_id object_id = Inr oid \<and> vt_root_key (dm_vault d) = Some rk
    \<and> contents (sx_crypto X) rk (vault_id_of (dm_vault d)) (tables (dm_vault d)) oid = Some bs
    \<and> fs_read output (files s') = Inr bs \<and> private_regular (files s') output"
proof (rule cli_get_Inr [OF assms(3)])
  fix body ch1 ch2
  let ?ds = "channel_deliveries (cx_parse_response K) ch2"
  assume c: "cx_print_request K (RqGetStream object_id) = Some body" "body \<noteq> []" "length body \<le> MAX_FRAME_BYTES"
    "read_frame (cx_parse_response K) ch1 = (ch2, Inr (ResponseOk ScStreamReady))" "incoming ch1 = incoming (cl_stream s)"
    "sent (cl_stream s) (cl_stream s') = prefixed body" "Failed \<notin> set ?ds"
    "fs_read output (files s') = Inr (delivered ?ds)" "private_regular (files s') output"
  have inc: "incoming ch = prefixed body @ []" "incoming ch1 = sent ch ch'" using assms(6,7) c(5,6) by simp_all
  note served = served_request [OF assms(1,2) c(1-3) inc(1) assms(4) c(4) inc(2)]
  have q: "quiet (ch\<lparr>incoming := []\<rparr>)" "incoming ch1 = sent (ch\<lparr>incoming := []\<rparr>) ch'"
    using assms(5) inc(2) by (simp_all add: quiet_def)
  from complete_download_is_contents [OF assms(2) q(1) served(3) [OF refl] q(2) c(4,7)] served(1) c(8,9)
  show ?thesis by blast
qed

text \<open>C7. From vault to file: when \<open>vlt1 get\<close> reports success against a daemon that received exactly what the command
  sent, on a connection whose writes do not fail, the output is an owner-private regular file that holds,
  byte for byte, the contents of the object that the daemon's vault authenticates.\<close>

theorem cli_get_fetches:
  assumes "codec_law (cx_print_request K) (sx_parse_request X)" "codec_law (sx_print_response X) (cx_parse_response K)"
    and "cli_get K socket object_id output s = (s', Inr lines)" "serve_stream X True peer d ch = (d', ch', Inr ())" "quiet ch"
    and "incoming ch = sent (cl_stream s) (cl_stream s')" "incoming (cl_stream s) = sent ch ch'"
  shows "\<exists>bs oid rk. authorize peer d \<and> daemon_parse_object_id object_id = Inr oid \<and> vt_root_key (dm_vault d) = Some rk
    \<and> contents (sx_crypto X) rk (vault_id_of (dm_vault d)) (tables (dm_vault d)) oid = Some bs
    \<and> fs_read output (files s') = Inr bs \<and> private_regular (files s') output"
  by (rule cli_get_effect [OF assms])

section \<open>What the commands leave alone\<close>

text \<open>As for backups, with a connection that may change.\<close>

abbreviation keeping :: "file_system \<Rightarrow> string set \<Rightarrow> (client \<Rightarrow> client \<times> 'a) \<Rightarrow> bool" where
  "keeping fs0 P m \<equiv> evolves (\<lambda>s s'. spares fs0 P (files s) \<longrightarrow> spares fs0 P (files s')) m"

lemma keeping_then_do [intro]: "keeping fs0 P m \<Longrightarrow> (\<And>x. keeping fs0 P (f x)) \<Longrightarrow> keeping fs0 P (then_do m f)"
  by (rule evolves_then_do) auto

lemma keeping_sparing: "sparing fs0 P m \<Longrightarrow> keeping fs0 P m"
  by (simp add: evolves_def)

lemma keeping_context [intro]: "keeping fs0 P m \<Longrightarrow> keeping fs0 P (with_context message m)"
  by (auto simp: evolves_def with_context_def split: prod.splits sum.splits)

lemma keeping_stream [intro]: "keeping fs0 P (on_stream m)"
  by (auto simp: evolves_def on_stream_def split: prod.splits)

lemma keeping_return [intro]: "keeping fs0 P (\<lambda>s. (s, f s))"
  by (simp add: evolves_def)

lemma keeping_response [intro]: "keeping fs0 P (read_response K)"
  unfolding read_response_def by (intro keeping_then_do keeping_context keeping_stream keeping_return)

lemma keeping_connect [intro]: "keeping fs0 P (connect socket)"
  unfolding connect_def by (intro keeping_context keeping_sparing sparing_fs_call) simp

lemma keeping_download: "temporary \<in> P \<Longrightarrow> keeping fs0 P (download_loop K temporary dest)"
proof (rule evolvesI)
  fix s s' r
  assume "temporary \<in> P" "download_loop K temporary dest s = (s', r)"
  then show "spares fs0 P (files s) \<longrightarrow> spares fs0 P (files s')"
  proof (induction K temporary dest s rule: download_loop.induct)
    case (1 K temporary dest s)
    obtain ch item where item: "read_stream_item (cx_parse_response K) (cl_stream s) = (ch, item)" by force
    note step = 1(3) [unfolded download_loop.simps [of K temporary dest s] item, simplified]
    show ?case
    proof (cases "\<exists>chunk. item = Inr (ItemData chunk)")
      case True
      then obtain chunk where chunk: "item = Inr (ItemData chunk)" by blast
      let ?m = "with_context (''could not write temporary output for '' @ dest) (fs_write_all (cx_os K) temporary chunk)"
      obtain s1 x where w: "?m (s\<lparr>cl_stream := ch\<rparr>) = (s1, x)" by force
      have "keeping fs0 P ?m" using 1(2) by (intro keeping_context keeping_sparing sparing_write)
      from evolvesD [OF this w] have k: "spares fs0 P (files s) \<longrightarrow> spares fs0 P (files s1)" by simp
      show ?thesis
      proof (cases x)
        case (Inr u)
        from 1(1) [OF item [symmetric] chunk refl w [symmetric] Inr 1(2)] step chunk w Inr k show ?thesis by simp
      qed (use step chunk w k in simp)
    qed (use step in \<open>auto split: sum.splits stream_item.splits response.splits\<close>)
  qed
qed

lemma keeping_publish: "temporary \<in> P \<Longrightarrow> keeping fs0 P (publish_private_temporary_file temporary dest)"
  unfolding publish_private_temporary_file_def
  by (intro keeping_then_do keeping_return keeping_context keeping_sparing [OF sparing_fs_call] keeping_sparing [OF sparing_sync(2)]
      spares_link)

lemma keeping_fetch: "temporary \<in> P \<Longrightarrow> keeping fs0 P (fetch_into K socket object_id dest temporary)"
  unfolding fetch_into_def
  by (intro keeping_then_do keeping_context keeping_connect keeping_stream keeping_response keeping_return keeping_download
      keeping_publish keeping_sparing [OF sparing_chmod] keeping_sparing [OF sparing_sync(1)])

lemma new_temporary_spares:
  assumes "inodes_ok (files s)" "new_temporary_in S directory s = (s', r)"
  shows "spares (files s) {} (files s') \<and> (\<forall>name. r = Inr name \<longrightarrow> spares (files s) {name} (files s'))"
proof -
  let ?name = "temp_name S directory (files s)"
  obtain s1 x where c: "fs_call (fs_create ?name MODE_600) s = (s1, x)" by force
  have "spares (files s) {} (files s)" using assms(1) by simp
  from fs_create_call [OF this c] assms(2) c show ?thesis
    by (cases x) (auto simp: new_temporary_in_def Let_def then_do_def)
qed

text \<open>C25. \<open>vlt1 get\<close> never touches a file that was there: whatever it returns, whichever calls fail and whatever the daemon
  answers, every name still leads to the same file with the same bytes and permission bits.\<close>

theorem cli_get_keeps_files:
  assumes "inodes_ok (files s)" "cli_get K socket object_id output s = (s', r)"
  shows "kept (files s) (files s')"
proof -
  obtain x where v: "validate_new_plaintext_output (files s) output = x" by blast
  show ?thesis
  proof (cases x)
    case (Inl e)
    with assms(2) v have "s' = s" by (simp add: cli_get_def then_do_def)
    then show ?thesis by (simp add: kept_def)
  next
    case (Inr directory)
    let ?m = "new_temporary_in (cx_os K) directory"
    obtain s1 y where t: "?m s = (s1, y)" by force
    note sp = new_temporary_spares [OF assms(1) t]
    show ?thesis
    proof (cases y)
      case (Inl e)
      with assms(2) v Inr t have "s' = s1" by (simp add: cli_get_def then_do_def with_context_def)
      with sp show ?thesis by (simp add: spares_def)
    next
      case (Inr temporary)
      obtain s2 z where f: "fetch_into K socket object_id output temporary s1 = (s2, z)" by force
      have s2: "spares (files s) {temporary} (files s2)"
        using evolvesD [OF keeping_fetch f] sp Inr by blast
      have "s' = drop_temporary temporary s2"
        using assms(2) v \<open>x = Inr directory\<close> t Inr f by (simp add: cli_get_def then_do_def with_context_def)
      with s2 spares_unlink [OF s2, of temporary] show ?thesis
        by (auto simp: drop_temporary_def tick_def spares_def split: if_splits)
    qed
  qed
qed

section \<open>Concrete runs\<close>

definition wire :: "bytes \<Rightarrow> bytes \<Rightarrow> channel" where
  "wire bs sent_so_far = \<lparr>incoming = bs, hangs_up = True, outgoing = sent_so_far, write_faults = \<lambda>_. None\<rparr>"

lemma wire_simps [simp]:
  "incoming (wire bs out) = bs" "outgoing (wire bs out) = out" "wire bs out\<lparr>incoming := bs'\<rparr> = wire bs' out"
  by (simp_all add: wire_def)

lemma channel_of_wire: "channel_of bs = wire bs []"
  by (simp add: wire_def channel_of_def)

lemma wire_write [simp]: "channel_write bs (wire inc out) = (wire inc (out @ bs), Inr ())"
  by (simp add: channel_write_def wire_def)

lemma wire_frame:
  assumes "to_vec v = Some body" "body \<noteq> []" "length body \<le> MAX_FRAME_BYTES"
  shows "write_frame to_vec v (wire inc out) = (wire inc (out @ prefixed body), Inr ())"
proof -
  have "try_from_nat (length body) = Some (word_of_nat (length body) :: u32)"
    using assms(3) frame_bounds(1) by (simp add: try_from_nat_def)
  with assms show ?thesis by (simp add: write_frame_def prefixed_def)
qed

lemma wire_chunk:
  assumes "stream_chunk_ok chunk"
  shows "write_stream_chunk chunk (wire inc out) = (wire inc (out @ prefixed chunk), Inr ())"
proof -
  have "try_from_nat (length chunk) = Some (word_of_nat (length chunk) :: u32)"
    using assms frame_bounds(2) by (simp add: try_from_nat_def)
  with assms show ?thesis by (simp add: write_stream_chunk_def prefixed_def)
qed

lemma wire_read:
  assumes "parse body = Some v" "body \<noteq> []" "length body \<le> MAX_FRAME_BYTES"
  shows "read_frame parse (wire (prefixed body @ rest) out) = (wire rest out, Inr v)"
  using read_frame_prefixed [of "wire (prefixed body @ rest) out" body rest parse] assms by simp

definition sample_print_request :: "request \<Rightarrow> bytes option" where
  "sample_print_request rq =
     (if rq = RqPutStream sample_object then Some [2] else if rq = RqGetStream sample_object then Some [3] else None)"

definition sample_cli :: cli_services where
  "sample_cli = \<lparr>cx_os = sample_os, cx_exists = \<lambda>fs path. lookup fs path \<noteq> Inl NotFoundError,
     cx_print_request = sample_print_request, cx_parse_response = sample_parse_response, cx_parse_manifest = \<lambda>_. None,
     cx_crypto = toy_crypto, cx_engine = sample_engine, cx_snapshots = sample_snapshots\<rparr>"

lemma sample_cli_simps [simp]:
  "cx_print_request sample_cli = sample_print_request" "cx_parse_response sample_cli = sample_parse_response"
  "cx_os sample_cli = sample_os"
  by (simp_all add: sample_cli_def)

lemma sample_request_codec: "codec_law sample_print_request sample_parse_request"
  by (auto simp: codec_law_def sample_print_request_def sample_parse_request_def split: if_splits)

definition client_files :: file_system where
  "client_files = sample_files\<lparr>content := \<lambda>_. [1, 2, 3]\<rparr>"

definition sample_client :: "file_system \<Rightarrow> channel \<Rightarrow> client" where
  "sample_client fs ch = \<lparr>rng_state = sample_rng, faults = \<lambda>_. False, files = fs, cl_stream = ch\<rparr>"

lemma sample_client_simps [simp]:
  "files (sample_client fs ch) = fs" "cl_stream (sample_client fs ch) = ch"
  "sample_client fs ch\<lparr>cl_stream := ch'\<rparr> = sample_client fs ch'" "sample_client fs ch\<lparr>files := fs'\<rparr> = sample_client fs' ch"
  "tick (sample_client fs ch) = (sample_client fs ch, False)"
  by (simp_all add: sample_client_def tick_def)

lemma sample_call: "fs_call f (sample_client fs ch)
    = (sample_client (fst (f fs)) ch, case snd (f fs) of Inl _ \<Rightarrow> Inl Storage | Inr x \<Rightarrow> Inr x)"
  by (simp add: fs_call_def split: prod.splits)

lemma sample_ready: "read_frame sample_parse_response (wire (prefixed [1] @ rest) out) = (wire rest out, Inr (ResponseOk ScStreamReady))"
  by (rule wire_read) (simp_all add: sample_parse_response_def MAX_FRAME_BYTES_def)

lemma sample_upload_loop:
  "upload_loop infile [1, 2, 3] (sample_client fs (wire inc out)) = (sample_client fs (wire inc (out @ prefixed [1, 2, 3])), Inr ())"
proof -
  have "write_stream_chunk [1, 2, 3] (wire inc out) = (wire inc (out @ prefixed [1, 2, 3]), Inr ())"
    by (rule wire_chunk) (simp add: MAX_STREAM_CHUNK_BYTES_def)
  then show ?thesis
    by (subst upload_loop.simps, simp add: MAX_STREAM_CHUNK_BYTES_def with_context_def on_stream_def, subst upload_loop.simps, simp)
qed

abbreviation (input) upload_bytes :: bytes where
  "upload_bytes \<equiv> prefixed [1, 2, 3] @ u32_to_be_bytes STREAM_END"

lemma length_text_bytes [simp]: "length (text_bytes s) = length s"
  by (simp add: text_bytes_def)

lemma sample_cli_put:
  assumes "length version_id \<le> 32"
  shows "cli_put sample_cli ''/s'' sample_object ''/v''
      (sample_client client_files (wire (prefixed [1] @ prefixed (2 # text_bytes version_id)) []))
    = (sample_client client_files (wire [] (prefixed [2] @ upload_bytes)), Inr [''published immutable version: '' @ version_id])"
proof -
  have w: "write_frame sample_print_request (RqPutStream sample_object) (wire inc out) = (wire inc (out @ prefixed [2]), Inr ())" for inc out
    by (rule wire_frame) (simp_all add: sample_print_request_def MAX_FRAME_BYTES_def)
  have r: "read_frame sample_parse_response (wire (prefixed (2 # text_bytes version_id)) out) = (wire [] out, Inr (ResponseOk (ScPublished version_id)))" for out
    using wire_read [of sample_parse_response "2 # text_bytes version_id" "ResponseOk (ScPublished version_id)" "[]" out] assms
    by (simp add: sample_parse_response_def MAX_FRAME_BYTES_def)
  have f: "fs_read ''/v'' client_files = Inr [1, 2, 3]"
    by (simp add: fs_read_def fs_inode_def client_files_def sample_files_def)
  show ?thesis
    by (simp add: cli_put_def then_do_def sample_call f with_context_def connect_def on_stream_def w read_response_def sample_ready
        expect_stream_ready_def sample_upload_loop write_stream_end_def r)
qed

lemma sample_authorized: "authorize (Some 1000) (sample_daemon v p w)"
  by (simp add: authorize_def sample_daemon_def for_current_user_def)

lemma sample_put_served:
  obtains v ver ch where
    "serve_stream (sample_services A) True (Some 1000) (sample_daemon sample_vault p w) (channel_of (prefixed [2] @ upload_bytes))
      = (sample_daemon v p w, ch, Inr ())" "length (to_hex ver) \<le> 32"
    "sent (channel_of (prefixed [2] @ upload_bytes)) ch = prefixed [1] @ prefixed (2 # text_bytes (to_hex ver))" "sample_stored v"
proof -
  obtain v ver ch where run: "put_stream (sample_services A) sample_object (sample_daemon sample_vault p w) upload_channel
      = (sample_daemon v p w, ch, Inr ())" "healthy v" "put_from_reader toy_crypto (replicate 16 2) [Data [1, 2, 3]] sample_vault = (v, Inr ver)"
    and wr: "\<exists>ch1. write_response (sample_services A) (ResponseOk ScStreamReady) upload_channel = (ch1, Inr ())
       \<and> write_response (sample_services A) (ResponseOk (ScPublished (to_hex ver))) ch1 = (ch, Inr ())"
    by (rule sample_upload)
  have "length ver = 16" by (rule put_from_reader_version [OF toy_crypto_laws(1) run(3)])
  then have len: "length (to_hex ver) \<le> 32" by (simp add: length_to_hex)
  have "read_frame sample_parse_request (channel_of (prefixed [2] @ upload_bytes)) = (upload_channel, Inr (RqPutStream sample_object))"
    using wire_read [of sample_parse_request "[2]" "RqPutStream sample_object" upload_bytes "[]"]
    by (simp add: sample_parse_request_def MAX_FRAME_BYTES_def channel_of_wire upload_channel_def)
  then have s: "serve_stream (sample_services A) True (Some 1000) (sample_daemon sample_vault p w) (channel_of (prefixed [2] @ upload_bytes))
      = (sample_daemon v p w, ch, Inr ())"
    using run(1) by (simp add: serve_stream_def sample_authorized)
  from wr have "sent upload_channel ch = prefixed [1] @ prefixed (2 # text_bytes (to_hex ver))"
    by (auto elim!: write_response_Inr simp: sends_def sent_def)
  then have "sent (channel_of (prefixed [2] @ upload_bytes)) ch = prefixed [1] @ prefixed (2 # text_bytes (to_hex ver))"
    by (simp add: sent_def upload_channel_def)
  from s len this sample_upload_stored [OF run(1)] show thesis by (rule that)
qed

theorem cli_put_stores_witness:
  "\<exists>s s' lines v ch. cli_put sample_cli ''/s'' sample_object ''/v'' s = (s', Inr lines) \<and> fs_read ''/v'' (files s) = Inr [1, 2, 3]
     \<and> serve_stream (sample_services sample_agent) True (Some 1000) (sample_daemon sample_vault None ())
         (channel_of (sent (cl_stream s) (cl_stream s'))) = (sample_daemon v None (), ch, Inr ())
     \<and> contents toy_crypto (replicate 32 7) (replicate 16 1) (tables v) (replicate 16 2) = Some [1, 2, 3]"
proof -
  let ?X = "sample_services sample_agent" and ?in = "channel_of (prefixed [2] @ upload_bytes)"
  obtain v ver ch where run: "serve_stream ?X True (Some 1000) (sample_daemon sample_vault None ()) ?in = (sample_daemon v None (), ch, Inr ())"
    "length (to_hex ver) \<le> 32" "sent ?in ch = prefixed [1] @ prefixed (2 # text_bytes (to_hex ver))"
    by (rule sample_put_served)
  let ?s = "sample_client client_files (wire (prefixed [1] @ prefixed (2 # text_bytes (to_hex ver))) [])"
  let ?s' = "sample_client client_files (wire [] (prefixed [2] @ upload_bytes))"
  note put = sample_cli_put [OF run(2)]
  have sent: "sent (cl_stream ?s) (cl_stream ?s') = prefixed [2] @ upload_bytes" by (simp add: sent_def)
  have infile: "fs_read ''/v'' client_files = Inr [1, 2, 3]"
    by (simp add: fs_read_def fs_inode_def client_files_def sample_files_def)
  have "\<exists>bs oid rk. fs_read ''/v'' (files ?s) = Inr bs \<and> files ?s' = files ?s \<and> authorize (Some 1000) (sample_daemon sample_vault None ())
    \<and> daemon_parse_object_id sample_object = Inr oid \<and> vt_root_key (dm_vault (sample_daemon sample_vault None ())) = Some rk
    \<and> contents (sx_crypto ?X) rk (vault_id_of (dm_vault (sample_daemon sample_vault None ()))) (tables (dm_vault (sample_daemon v None ())))
      = (contents (sx_crypto ?X) rk (vault_id_of (dm_vault (sample_daemon sample_vault None ())))
          (tables (dm_vault (sample_daemon sample_vault None ()))))(oid \<mapsto> bs)"
    by (rule cli_put_stores [OF _ _ daemon_sample_laws(2-4) put run(1)])
       (use run(3) in \<open>simp_all add: sample_request_codec sample_response_codec sent_def\<close>)
  then have "contents toy_crypto (replicate 32 7) (replicate 16 1) (tables v) (replicate 16 2) = Some [1, 2, 3]"
    by (auto simp: infile sample_vault_fields)
  with put run(1) sent infile show ?thesis
    by (intro exI [of _ ?s] exI [of _ ?s'] exI [of _ "[''published immutable version: '' @ to_hex ver]"] exI [of _ v] exI [of _ ch]) simp
qed

lemma sample_download_loop:
  assumes "list_all stream_chunk_ok ds" "at fs ''/t'' i old"
  shows "download_loop sample_cli ''/t'' dest (sample_client fs (wire (stream_bytes ds @ u32_to_be_bytes STREAM_END) out))
    = (sample_client (fs\<lparr>content := (content fs)(i := old @ concat ds)\<rparr>) (wire [] out), Inr ())"
  using assms
proof (induction ds arbitrary: fs old)
  case Nil
  have "read_stream_item sample_parse_response (wire (u32_to_be_bytes STREAM_END) out) = (wire [] out, Inr ItemEnd)"
    using read_stream_item_end [of "wire (u32_to_be_bytes STREAM_END) out" "[]"] by simp
  with at_same [OF Nil(2)] show ?case by (subst download_loop.simps) (simp del: fun_upd_apply)
next
  case (Cons c ds)
  let ?rest = "stream_bytes ds @ u32_to_be_bytes STREAM_END" and ?fs = "fs\<lparr>content := (content fs)(i := old @ c)\<rparr>"
  have item: "read_stream_item sample_parse_response (wire (prefixed c @ ?rest) out) = (wire ?rest out, Inr (ItemData c))"
    using read_stream_item_chunk [of "wire (prefixed c @ ?rest) out" c ?rest] Cons.prems(1) by simp
  have nf: "\<not> faults (sample_client fs ch) 0" for ch by (simp add: sample_client_def)
  have "fs_write_all sample_os ''/t'' c (sample_client fs (wire ?rest out)) = (sample_client ?fs (wire ?rest out), Inr ())"
    using Cons.prems(2) nf by (simp add: fs_write_all_def sample_call fs_store_def fs_inode_def at_def)
  with item Cons.IH [OF _ at_content [OF Cons.prems(2)], of "old @ c"] Cons.prems(1) show ?case
    by (subst download_loop.simps) (simp add: with_context_def del: fun_upd_apply)
qed

lemma sample_output: "lookup fs ''/'' = Inr 0 \<Longrightarrow> file_type (inodes fs 0) = Directory \<Longrightarrow> lookup fs ''/o'' = Inl NotFoundError
    \<Longrightarrow> validate_new_plaintext_output fs ''/o'' = Inr ''/''"
  by (simp add: validate_new_plaintext_output_def components_def piece_component_def List.map_filter_def parent_def
      ancestors.simps symlink_metadata_def path_string_def)

lemma sample_steps:
  "connect socket (sample_client fs ch) = (sample_client fs ch, Inr ())"
  "with_context message sync_all (sample_client fs ch) = (sample_client fs ch, Inr ())"
  "read_response sample_cli (sample_client fs (wire (prefixed [1] @ rest) out)) = (sample_client fs (wire rest out), Inr ScStreamReady)"
  "with_context message (on_stream (write_frame sample_print_request (RqGetStream sample_object))) (sample_client fs (wire inc out))
    = (sample_client fs (wire inc (out @ prefixed [3])), Inr ())"
proof -
  have w: "write_frame sample_print_request (RqGetStream sample_object) (wire inc out) = (wire inc (out @ prefixed [3]), Inr ())"
    by (rule wire_frame) (simp_all add: sample_print_request_def MAX_FRAME_BYTES_def)
  show "connect socket (sample_client fs ch) = (sample_client fs ch, Inr ())"
    "with_context message sync_all (sample_client fs ch) = (sample_client fs ch, Inr ())"
    "read_response sample_cli (sample_client fs (wire (prefixed [1] @ rest) out)) = (sample_client fs (wire rest out), Inr ScStreamReady)"
    "with_context message (on_stream (write_frame sample_print_request (RqGetStream sample_object))) (sample_client fs (wire inc out))
      = (sample_client fs (wire inc (out @ prefixed [3])), Inr ())"
    by (simp_all add: connect_def with_context_def sample_call sync_all_def read_response_def on_stream_def sample_ready then_do_def w)
qed

lemma sample_publish:
  assumes "at fs ''/t'' i bs" "lookup fs ''/'' = Inr 0" "file_type (inodes fs 0) = Directory" "lookup fs ''/o'' = Inl NotFoundError"
  shows "publish_private_temporary_file ''/t'' ''/o'' (sample_client fs ch)
    = (sample_client (fs\<lparr>lookup := (lookup fs)(''/o'' := Inr i)\<rparr>) ch, Inr ())"
proof -
  let ?fs = "fs\<lparr>lookup := (lookup fs)(''/o'' := Inr i)\<rparr>"
  have "fs_link ''/t'' ''/o'' fs = (?fs, Inr ())" using assms(1,4) by (simp add: fs_link_def fs_inode_def at_def)
  moreover have "fs_inode ''/'' ?fs = Inr 0" using assms(2) by (simp add: fs_inode_def)
  ultimately show ?thesis
    using sample_output [OF assms(2-4)]
    by (simp add: publish_private_temporary_file_def then_do_def with_context_def sample_call sync_file_def fs_open_def sync_all_def)
qed

lemma sample_cli_get:
  assumes "list_all stream_chunk_ok ds"
  shows "\<exists>fs. cli_get sample_cli ''/s'' sample_object ''/o''
      (sample_client client_files (wire (prefixed [1] @ stream_bytes ds @ u32_to_be_bytes STREAM_END) []))
    = (sample_client fs (wire [] (prefixed [3])), Inr [''verified and wrote /o''])"
proof -
  define a where "a = fst (fs_create ''/t'' MODE_600 client_files)"
  define b where "b = fst (set_permissions ''/t'' MODE_600 a)"
  define c where "c = b\<lparr>content := (content b)(2 := [] @ concat ds)\<rparr>"
  note defs = c_def b_def a_def set_permissions_def fs_create_def client_files_def sample_files_def
  have files: "lookup client_files ''/'' = Inr 0" "file_type (inodes client_files 0) = Directory" "lookup client_files ''/o'' = Inl NotFoundError"
    "at b ''/t'' 2 []" "at c ''/t'' 2 (concat ds)"
    "lookup c ''/'' = Inr 0" "file_type (inodes c 0) = Directory" "lookup c ''/o'' = Inl NotFoundError"
    by (simp_all add: defs at_def)
  have new: "new_temporary_in sample_os ''/'' (sample_client client_files ch) = (sample_client a ch, Inr ''/t'')" for ch
    by (simp add: new_temporary_in_def Let_def sample_os_def then_do_def sample_call)
       (simp add: defs)
  have mode: "chmod_private ''/t'' (sample_client a ch) = (sample_client b ch, Inr ())" for ch
    by (simp add: chmod_private_def sample_call) (simp add: defs)
  have "fetch_into sample_cli ''/s'' sample_object ''/o'' ''/t''
      (sample_client a (wire (prefixed [1] @ stream_bytes ds @ u32_to_be_bytes STREAM_END) []))
    = (sample_client (c\<lparr>lookup := (lookup c)(''/o'' := Inr 2)\<rparr>) (wire [] (prefixed [3])), Inr [''verified and wrote /o''])"
    using sample_download_loop [OF assms files(4), folded c_def] sample_publish [OF files(5-8)]
    by (simp add: fetch_into_def then_do_def with_context_def [of _ "chmod_private ''/t''"] mode sample_steps expect_stream_ready_def)
  then show ?thesis
    using sample_output [OF files(1-3)]
    by (simp add: cli_get_def then_do_def with_context_def new drop_temporary_def) blast
qed

lemma sample_get_served:
  assumes "sample_stored v"
  obtains ch ds where
    "serve_stream (sample_services sample_agent) True (Some 1000) (sample_daemon v None ()) (channel_of (prefixed [3]))
      = (sample_daemon v None (), ch, Inr ())" "list_all stream_chunk_ok ds"
    "sent (channel_of (prefixed [3])) ch = prefixed [1] @ stream_bytes ds @ u32_to_be_bytes STREAM_END"
proof -
  obtain ch ds where g: "get_stream (sample_services sample_agent) sample_object (sample_daemon v None ()) (channel_of []) = (sample_daemon v None (), ch, Inr ())"
    and ds: "list_all stream_chunk_ok ds" "sent (channel_of []) ch = prefixed [1] @ stream_bytes ds @ u32_to_be_bytes STREAM_END"
    by (rule sample_download [OF assms])
  have "read_frame sample_parse_request (channel_of (prefixed [3])) = (channel_of [], Inr (RqGetStream sample_object))"
    using wire_read [of sample_parse_request "[3]" "RqGetStream sample_object" "[]" "[]"]
    by (simp add: sample_parse_request_def MAX_FRAME_BYTES_def channel_of_wire)
  then have s: "serve_stream (sample_services sample_agent) True (Some 1000) (sample_daemon v None ()) (channel_of (prefixed [3]))
      = (sample_daemon v None (), ch, Inr ())"
    using g by (simp add: serve_stream_def sample_authorized)
  have "sent (channel_of (prefixed [3])) ch = prefixed [1] @ stream_bytes ds @ u32_to_be_bytes STREAM_END"
    using ds(2) by (simp add: sent_def)
  from that [OF s ds(1) this] show thesis .
qed

theorem cli_get_fetches_witness:
  "\<exists>s s' lines v ch. cli_get sample_cli ''/s'' sample_object ''/o'' s = (s', Inr lines)
     \<and> serve_stream (sample_services sample_agent) True (Some 1000) (sample_daemon v None ())
         (channel_of (sent (cl_stream s) (cl_stream s'))) = (sample_daemon v None (), ch, Inr ())
     \<and> contents toy_crypto (replicate 32 7) (replicate 16 1) (tables v) (replicate 16 2) = Some [1, 2, 3]
     \<and> fs_read ''/o'' (files s') = Inr [1, 2, 3] \<and> private_regular (files s') ''/o''"
proof -
  obtain v where v: "sample_stored v" by (rule sample_put_served)
  obtain ch ds where run:
    "serve_stream (sample_services sample_agent) True (Some 1000) (sample_daemon v None ()) (channel_of (prefixed [3]))
      = (sample_daemon v None (), ch, Inr ())" "list_all stream_chunk_ok ds"
    "sent (channel_of (prefixed [3])) ch = prefixed [1] @ stream_bytes ds @ u32_to_be_bytes STREAM_END"
    by (rule sample_get_served [OF v])
  let ?s = "sample_client client_files (wire (prefixed [1] @ stream_bytes ds @ u32_to_be_bytes STREAM_END) [])"
  obtain fs where get: "cli_get sample_cli ''/s'' sample_object ''/o'' ?s = (sample_client fs (wire [] (prefixed [3])), Inr [''verified and wrote /o''])"
    using sample_cli_get [OF run(2)] by blast
  let ?s' = "sample_client fs (wire [] (prefixed [3]))"
  have sent: "sent (cl_stream ?s) (cl_stream ?s') = prefixed [3]" by (simp add: sent_def)
  have "\<exists>bs oid rk. authorize (Some 1000) (sample_daemon v None ()) \<and> daemon_parse_object_id sample_object = Inr oid
    \<and> vt_root_key (dm_vault (sample_daemon v None ())) = Some rk
    \<and> contents (sx_crypto (sample_services sample_agent)) rk (vault_id_of (dm_vault (sample_daemon v None ()))) (tables (dm_vault (sample_daemon v None ()))) oid = Some bs
    \<and> fs_read ''/o'' (files ?s') = Inr bs \<and> private_regular (files ?s') ''/o''"
    by (rule cli_get_fetches [OF _ _ get run(1)])
       (use run(3) in \<open>simp_all add: sample_request_codec sample_response_codec sent_def\<close>)
  then have "fs_read ''/o'' fs = Inr [1, 2, 3]" "private_regular fs ''/o''" using v by (auto simp: sample_stored_def)
  with get run(1) v [unfolded sample_stored_def] sent show ?thesis
    by (intro exI [of _ ?s] exI [of _ ?s'] exI [of _ "[''verified and wrote /o'']"] exI [of _ v] exI [of _ ch]) simp
qed

theorem cli_get_keeps_files_witness:
  "inodes_ok client_files
   \<and> kept client_files (files (fst (cli_get sample_cli ''/s'' sample_object ''/o'' (sample_client client_files (wire [] [])))))"
proof -
  let ?s = "sample_client client_files (wire [] [])"
  have ok: "inodes_ok (files ?s)" by (auto simp: inodes_ok_def client_files_def sample_files_def)
  with cli_get_keeps_files [OF ok prod.collapse [symmetric], of sample_cli "''/s''" sample_object "''/o''"] show ?thesis by simp
qed

end
