(* ===== verification/Vlt_Witness_Main.thy ===== *)
theory Vlt_Witness_Main
  imports Vlt_Daemon
begin

text \<open>
  Provisioning of the witness: the start of \<open>vlt1-witnessd\<close> and its request loop
  (\<open>crates/vlt1-witness/src/main.rs\<close>), the key printer (\<open>crates/vlt1-witness/src/bin/vlt1-witness-key.rs\<close>) and,
  at the other end, the secrets that the daemon reads (\<open>crates/vlt1-daemon/src/main.rs\<close>). \<open>stat\<close> and \<open>read\<close> are what
  the operating system answers for a path, symbolic links followed. An error is the message the process
  ends with, without the cause that \<open>tiny_http\<close> adds. The theory shows that the printed key, copied to the daemon,
  pins exactly the key the service signs with, and what becomes of a token file that ends with a newline.
\<close>

section \<open>Start-up and request loop\<close>

datatype ip_addr = V4 u8 u8 u8 u8 | V6 "u16 list"

fun is_loopback :: "ip_addr \<Rightarrow> bool" where
  "is_loopback (V4 a _ _ _) \<longleftrightarrow> a = 127"
| "is_loopback (V6 segments) \<longleftrightarrow> segments = [0, 0, 0, 0, 0, 0, 0, 1]"

definition ws_read_secret ::
    "(string \<Rightarrow> metadata option) \<Rightarrow> (string \<Rightarrow> bytes option) \<Rightarrow> string \<Rightarrow> string + bytes" where
  "ws_read_secret stat read path =
     and_then (ok_or (''cannot stat '' @ path) (stat path)) (\<lambda>m.
     if file_type m \<noteq> RegularFile then Inl (path @ '' is not a regular file'')
     else if mode m AND MODE_077 \<noteq> 0 then Inl (path @ '' must not be readable by group or other'')
     else ok_or (''cannot read '' @ path) (read path))"

text \<open>The width is 32 at its only use.\<close>

definition read_fixed_secret ::
    "(string \<Rightarrow> metadata option) \<Rightarrow> (string \<Rightarrow> bytes option) \<Rightarrow> string \<Rightarrow> string + bytes" where
  "read_fixed_secret stat read path =
     and_then (ws_read_secret stat read path) (\<lambda>bs.
     if length bs = 32 then Inr bs else Inl (path @ '' must contain exactly 32 raw bytes''))"

text \<open>\<open>t\<close> is what the state database holds.\<close>

definition witnessd_start ::
    "engine \<Rightarrow> (string \<Rightarrow> metadata option) \<Rightarrow> (string \<Rightarrow> bytes option) \<Rightarrow> ip_addr \<Rightarrow> string \<Rightarrow> string \<Rightarrow> string
       \<Rightarrow> witness_tables \<Rightarrow> env \<Rightarrow> env \<times> (string + witness_service \<times> bytes)" where
  "witnessd_start E stat read listen signing_seed auth_token_file state t s =
     (if \<not> is_loopback listen
      then (s, Inl ''vlt1-witnessd accepts only a loopback listener; terminate TLS outside it'')
      else case and_then (read_fixed_secret stat read signing_seed) (\<lambda>seed.
          and_then (ws_read_secret stat read auth_token_file) (\<lambda>token. Inr (seed, token))) of
        Inl e \<Rightarrow> (s, Inl e)
      | Inr (seed, token) \<Rightarrow>
          (case ws_open E state seed t s of
             (s, Inl _) \<Rightarrow> (s, Inl ''could not open VLT/1 witness state'')
           | (s, Inr service) \<Rightarrow>
               (case tick s of (s, failed) \<Rightarrow>
                  if failed then (s, Inl ''could not bind VLT/1 witness listener'') else (s, Inr (service, token)))))"

text \<open>The loop over the requests that arrive; \<open>lossy\<close> is \<open>String::from_utf8_lossy\<close>. A response that cannot be sent
  is dropped.\<close>

fun serve_requests ::
    "crypto \<Rightarrow> hex_crate \<Rightarrow> json_codec \<Rightarrow> (bytes \<Rightarrow> string) \<Rightarrow> bytes \<Rightarrow> http_request list \<Rightarrow> witness_service
       \<Rightarrow> witness_service \<times> http_response list" where
  "serve_requests C H J lossy token [] service = (service, [])"
| "serve_requests C H J lossy token (req # reqs) service =
     (case handle_request C H J (lossy token) req service of
        (service, rsp) \<Rightarrow>
          (case serve_requests C H J lossy token reqs service of (service, rsps) \<Rightarrow> (service, rsp # rsps)))"

section \<open>The key printer\<close>

definition witness_key_main ::
    "crypto \<Rightarrow> hex_crate \<Rightarrow> (string \<Rightarrow> metadata option) \<Rightarrow> (string \<Rightarrow> bytes option) \<Rightarrow> string \<Rightarrow> string + string" where
  "witness_key_main C H stat read signing_seed =
     and_then (ok_or (''cannot stat '' @ signing_seed) (stat signing_seed)) (\<lambda>m.
     if file_type m \<noteq> RegularFile \<or> mode m AND MODE_077 \<noteq> 0
     then Inl ''witness signing seed must be a regular mode-0600 file''
     else
       and_then (ok_or (''cannot read '' @ signing_seed) (read signing_seed)) (\<lambda>seed.
       if length seed = 32 then Inr (hx_encode H (ed25519_public C seed))
       else Inl ''witness signing seed must be exactly 32 bytes''))"

section \<open>What a started service has\<close>

lemma witnessd_start_Inr:
  assumes "witnessd_start E stat read listen seed_file token_file state t s = (s', Inr (service, token))"
  shows "is_loopback listen" "read_fixed_secret stat read seed_file = Inr (ws_signing_key service)"
    "ws_read_secret stat read token_file = Inr token" "tables service = t"
  using assms
  by (auto simp: witnessd_start_def result_simps tick_def dest: ws_open_key split: if_splits sum.splits prod.splits)

lemma ws_read_secret_Inr [result_simps]:
  "ws_read_secret stat read path = Inr bs \<longleftrightarrow>
     (\<exists>m. stat path = Some m \<and> file_type m = RegularFile \<and> mode m AND MODE_077 = 0 \<and> read path = Some bs)"
  by (auto simp: ws_read_secret_def result_simps split: if_splits)

lemma read_secret_Inr:
  assumes "read_secret stat read_to_string path = Inr value" "read_to_string path = Some stored_text"
  shows "value = trim_text stored_text"
  using assms by (auto simp: read_secret_def result_simps Let_def split: if_splits)

section \<open>The pinned key\<close>

lemma dropWhile_none: "\<forall>c \<in> set xs. \<not> P c \<Longrightarrow> dropWhile P xs = xs"
  by (cases xs) auto

lemma trim_hex:
  assumes "list_all lower_hexdigit digits"
  shows "trim_text (digits @ [CHR 0x0A]) = digits" "trim_text digits = digits"
proof -
  define blank where "blank = (\<lambda>c. c \<in> {CHR 0x09, CHR 0x0A, CHR 0x0B, CHR 0x0C, CHR 0x0D, CHR '' ''})"
  have trim: "trim_text s = rev (dropWhile blank (rev (dropWhile blank s)))" for s
    by (simp add: trim_text_def blank_def Let_def)
  have "\<not> lower_hexdigit c" if "blank c" for c
    using that unfolding blank_def by (elim insertE) (simp_all add: lower_hexdigit_def)
  then have nb: "\<forall>c \<in> set digits. \<not> blank c" using assms by (auto simp: list_all_iff)
  have nl: "blank (CHR 0x0A)" by (simp add: blank_def)
  show "trim_text digits = digits" unfolding trim using nb by (simp add: dropWhile_none)
  show "trim_text (digits @ [CHR 0x0A]) = digits"
  proof (cases digits)
    case (Cons c cs)
    with nb have "dropWhile blank (digits @ [CHR 0x0A]) = digits @ [CHR 0x0A]" by simp
    with nb nl show ?thesis unfolding trim by (simp add: dropWhile_none)
  qed (simp add: trim nl)
qed

lemma parse_hex32_encode:
  assumes "length key = 32"
  shows "parse_hex32 (hex_encode key) = Inr key"
proof -
  have "is_ascii_hexdigit c \<and> \<not> is_ascii_uppercase c" if "lower_hexdigit c" for c
    using that by (auto simp: lower_hexdigit_def is_ascii_hexdigit_def is_ascii_uppercase_def)
  then show ?thesis
    using assms hex_encode_wf [of key] by (auto simp: parse_hex32_def parse_pairs_hex_encode list_all_iff)
qed

lemma configured_key:
  assumes "witness_config_of stat read_to_string endpoint token_file (Some key_file) previous = Inr (Some w)"
    and "read_to_string key_file = Some (hex_encode key @ [CHR 0x0A])" "length key = 32"
  shows "wc_public_key w = key"
proof -
  have t: "trim_text (hex_encode key @ [CHR 0x0A]) = hex_encode key" "trim_text (hex_encode key) = hex_encode key"
    using trim_hex hex_encode_wf by blast+
  from assms(1) show ?thesis
    by (auto simp: witness_config_of_def result_simps t parse_hex32_encode [OF assms(3)] dest!: read_secret_Inr [of _ read_to_string key_file, OF _ assms(2)]
        split: option.splits if_splits)
qed

text \<open>C22. The key an operator copies is the key that signs: when the witness runs with a seed file, the key printer run on
  that file prints a line, and the daemon is configured from a file with this line, then the
  daemon pins exactly the service's signing key. A witness that runs listens on a loopback address only, and read its
  seed and its token from regular files that neither group nor others can access.\<close>

theorem printed_key_pins_signer:
  assumes "hex_law H" "signature_width C"
    and "witnessd_start E stat read listen seed_file token_file state t s = (s', Inr (service, token))"
    and "witness_key_main C H stat read seed_file = Inr line" "read_to_string key_file = Some (line @ [CHR 0x0A])"
    and "witness_config_of stat' read_to_string endpoint daemon_token_file (Some key_file) previous = Inr (Some w)"
  shows "wc_public_key w = ws_public_key C service \<and> is_loopback listen
    \<and> (\<forall>path \<in> {seed_file, token_file}. \<exists>m. stat path = Some m \<and> file_type m = RegularFile \<and> mode m AND MODE_077 = 0)"
proof -
  note st = witnessd_start_Inr [OF assms(3)]
  from st(2) have seed: "read seed_file = Some (ws_signing_key service)" "length (ws_signing_key service) = 32"
    and m: "\<exists>m. stat seed_file = Some m \<and> file_type m = RegularFile \<and> mode m AND MODE_077 = 0"
    by (auto simp: read_fixed_secret_def result_simps split: if_splits)
  have line: "line = hex_encode (ws_public_key C service)"
    using assms(1,4) seed by (auto simp: witness_key_main_def result_simps hex_law_def ws_public_key_def split: if_splits)
  have "length (ws_public_key C service) = 32"
    using assms(2) seed(2) by (simp add: signature_width_def ws_public_key_def)
  from configured_key [OF assms(6) assms(5) [unfolded line] this] m st(1,3) show ?thesis by (auto simp: result_simps)
qed

text \<open>C23. A token file with white space at an end locks the daemon out: the daemon trims what it reads, the witness does
  not. When both ends were given the same token file and trimming changes its text, every request that the daemon's
  provider sends is answered with 401 and changes nothing.\<close>

theorem untrimmed_token_refused:
  assumes "witnessd_start E stat read listen seed_file token_file state t s = (s', Inr (service, token))"
    and "read_secret stat' read_to_string path = Inr bearer" "read_to_string path = Some (lossy token)"
    and "trim_text (lossy token) \<noteq> lossy token" "new_with_previous endpoint bearer primary previous = Inr p"
  shows "serve_requests C H J lossy token [post_to url (authorization p) body] service
    = (service, [json_response 401 (lit ''{\"error\":\"unauthorized\"}'')])"
proof -
  have "authorization p = ''Bearer '' @ trim_text (lossy token)"
    using assms(5) read_secret_Inr [OF assms(2,3)] by (auto simp: new_with_previous_def provider_build_def Let_def split: if_splits)
  with assms(4) show ?thesis by (simp add: handle_request_def authorized_def post_to_def)
qed

section \<open>Concrete runs\<close>

definition witness_env :: env where
  "witness_env = \<lparr>rng_state = sample_rng, faults = \<lambda>_. False, files = sample_files\<rparr>"

definition private_stat :: "string \<Rightarrow> metadata option" where
  "private_stat _ = Some \<lparr>file_type = RegularFile, mode = MODE_600\<rparr>"

text \<open>The token file holds the letter t and a newline.\<close>

definition secret_bytes :: "string \<Rightarrow> bytes option" where
  "secret_bytes path = Some (if path = ''/seed'' then replicate 32 5 else [116, 10])"

definition daemon_text :: "string \<Rightarrow> string option" where
  "daemon_text path = Some (if path = ''/key'' then hex_encode (replicate 32 5) @ [CHR 0x0A] else [CHR ''t'', CHR 0x0A])"

lemma sample_start:
  obtains s service where
    "witnessd_start sample_engine private_stat secret_bytes (V4 127 0 0 1) ''/seed'' ''/token'' ''/v'' \<lparr>vault_epochs = [], object_heads = []\<rparr> witness_env
      = (s, Inr (service, [116, 10]))"
proof -
  have "case witnessd_start sample_engine private_stat secret_bytes (V4 127 0 0 1) ''/seed'' ''/token'' ''/v''
      \<lparr>vault_epochs = [], object_heads = []\<rparr> witness_env of (_, r) \<Rightarrow>
      (case r of Inl _ \<Rightarrow> False | Inr (_, token) \<Rightarrow> token = [116, 10])"
    by code_simp
  then show thesis using that by (auto split: prod.splits sum.splits)
qed

theorem printed_key_pins_signer_witness:
  "\<exists>s service w. witnessd_start sample_engine private_stat secret_bytes (V4 127 0 0 1) ''/seed'' ''/token'' ''/v''
       \<lparr>vault_epochs = [], object_heads = []\<rparr> witness_env = (s, Inr (service, [116, 10]))
     \<and> witness_config_of private_stat daemon_text (Some ''https://w'') (Some ''/token'') (Some ''/key'') None = Inr (Some w)
     \<and> wc_public_key w = ws_public_key toy_crypto service"
proof -
  obtain s service where st: "witnessd_start sample_engine private_stat secret_bytes (V4 127 0 0 1) ''/seed'' ''/token'' ''/v''
       \<lparr>vault_epochs = [], object_heads = []\<rparr> witness_env = (s, Inr (service, [116, 10]))"
    by (rule sample_start)
  have line: "witness_key_main toy_crypto sample_hex private_stat secret_bytes ''/seed'' = Inr (hex_encode (replicate 32 5))"
    by (simp add: witness_key_main_def private_stat_def secret_bytes_def sample_hex_def toy_crypto_def)
  have txt_line: "daemon_text ''/key'' = Some (hex_encode (replicate 32 5) @ [CHR 0x0A])" by (simp add: daemon_text_def)
  have "case witness_config_of private_stat daemon_text (Some ''https://w'') (Some ''/token'') (Some ''/key'') None of
      Inr (Some _) \<Rightarrow> True | _ \<Rightarrow> False"
    by code_simp
  then obtain w where w: "witness_config_of private_stat daemon_text (Some ''https://w'') (Some ''/token'') (Some ''/key'') None = Inr (Some w)"
    by (auto split: sum.splits option.splits)
  have "hex_law sample_hex" by (simp add: hex_law_def sample_hex_def parse_pairs_hex_encode)
  moreover have "signature_width toy_crypto" by (simp add: signature_width_def toy_crypto_def)
  ultimately have "wc_public_key w = ws_public_key toy_crypto service"
    using printed_key_pins_signer [OF _ _ st line txt_line w] by simp
  with st w show ?thesis by blast
qed

theorem untrimmed_token_refused_witness:
  "\<exists>s service p. witnessd_start sample_engine private_stat secret_bytes (V4 127 0 0 1) ''/seed'' ''/token'' ''/v''
       \<lparr>vault_epochs = [], object_heads = []\<rparr> witness_env = (s, Inr (service, [116, 10]))
     \<and> new_with_previous ''https://w'' ''t'' (replicate 32 5) None = Inr p
     \<and> serve_requests toy_crypto sample_hex sample_json (map (\<lambda>b. char_of (unat b))) [116, 10]
         [post_to ''/v1/head'' (authorization p) []] service
       = (service, [json_response 401 (lit ''{\"error\":\"unauthorized\"}'')])"
proof -
  let ?lossy = "map (\<lambda>b. char_of (unat (b :: u8))) :: bytes \<Rightarrow> string"
  obtain s service where st: "witnessd_start sample_engine private_stat secret_bytes (V4 127 0 0 1) ''/seed'' ''/token'' ''/v''
       \<lparr>vault_epochs = [], object_heads = []\<rparr> witness_env = (s, Inr (service, [116, 10]))"
    by (rule sample_start)
  have "case new_with_previous ''https://w'' ''t'' (replicate 32 5) None of Inr _ \<Rightarrow> True | Inl _ \<Rightarrow> False" by code_simp
  then obtain p where p: "new_with_previous ''https://w'' ''t'' (replicate 32 5) None = Inr p" by (auto split: sum.splits)
  have lossy: "?lossy [116, 10] = [CHR ''t'', CHR 0x0A]" "trim_text [CHR ''t'', CHR 0x0A] = ''t''" by code_simp+
  have "read_secret private_stat daemon_text ''/token'' = Inr ''t''" by code_simp
  from untrimmed_token_refused [OF st this, of ?lossy "''https://w''" "replicate 32 5" None p toy_crypto sample_hex sample_json "''/v1/head''" "[]"] p
  have "serve_requests toy_crypto sample_hex sample_json ?lossy [116, 10] [post_to ''/v1/head'' (authorization p) []] service
       = (service, [json_response 401 (lit ''{\"error\":\"unauthorized\"}'')])"
    using lossy by (simp add: daemon_text_def)
  with st p show ?thesis by blast
qed

end
