(* ===== verification/Spec2Isabelle.thy ===== *)
theory Spec2Isabelle
  imports Vlt_Daemon_Witness Vlt_Daemon_Socket Vlt_Admission Vlt_Cli_Correct Vlt_Witness_Main
begin

text \<open>
  VLT/1 is an encrypted vault for one owner on one machine. The daemon \<open>vlt1d\<close> owns a SQLite vault and
  answers requests on a Unix socket, the command \<open>vlt1\<close> is its client, and \<open>vlt1-witnessd\<close> is a
  freshness witness on another host that signs the epoch of the newest version of each object. This library models the five
  crates and proves what they promise, from the bytes of a CBOR field to the file a user gets back.

  \<^bold>\<open>How the parts interact.\<close> A client writes one length-prefixed JSON request and reads one
  response; uploads and downloads follow as a binary stream. The daemon checks the peer's uid, takes the permit for
  long operations where there is one, locks the vault and runs one of its operations. The vault derives keys from its
  root key, encrypts a plaintext in chunks under a fresh key, binds the chunks into a manifest
  and stores all of it in one transaction; a read checks the whole chain in a first pass and decrypts in a
  second one. With a witness configured, a publication is staged, acknowledged by the witness and finalized, and
  every read compares all active objects with heads the witness signs on a fresh challenge.

  \<^bold>\<open>Conventions.\<close> A Rust \<open>Result\<close> is a sum type with the error on the left; \<open>and_then\<close> is the \<open>?\<close> operator on values, \<open>then_do\<close>
  the same with a state that is threaded through. The state of a process extends the record \<open>env\<close>: the random
  source, the file system and \<open>faults\<close>, a schedule that says which of the next calls into the engine or the operating
  system fail. Theorems quantify over all schedules unless they say that nothing fails (\<open>healthy\<close>, \<open>quiet\<close>).
  Machine integers that can overflow are words; lengths are natural numbers with the bound of \<open>usize\<close> written out where the
  code checks it. Code outside the repository is a parameter with its documented behaviour as a named
  hypothesis: the cryptographic primitives (\<open>aead_correct\<close>, \<open>hash_width\<close>, \<open>signature_width\<close>), JSON and hexadecimal codecs
  (\<open>codec_law\<close>, \<open>json_law\<close>, \<open>hex_law\<close>), SQLite's backup (\<open>snapshot_law\<close>), HTTP and base64.

  \<^bold>\<open>Theories and sources\<close> (below \<open>src/crates\<close>):

  \<^item> \<open>Vlt_Prelude\<close>: results, state threading, checked arithmetic, big-endian integers, chunking.
  \<^item> \<open>Vlt_Format\<close>: \<open>vlt1-core/src/error.rs\<close>, \<open>format.rs\<close>. \<open>Vlt_Cde\<close>: \<open>cde.rs\<close>, the canonical manifest codec; it decodes what it
    encodes and accepts nothing else.
  \<^item> \<open>Vlt_Crypto\<close>: \<open>crypto.rs\<close>, key hierarchy and associated data. \<open>Vlt_Files\<close>: \<open>path_safety.rs\<close>, \<open>private_file.rs\<close>.
  \<^item> \<open>Vlt_Witness\<close>: \<open>witness.rs\<close>, receipts, heads and the pinned HTTPS client, with the contract \<open>witness_provider\<close> that the
    in-process provider and the HTTPS client in front of the durable service both satisfy.
  \<^item> \<open>Vlt_Sql\<close>, \<open>Vlt_Storage\<close>: \<open>storage.rs\<close>, six tables with their constraints and every transaction.
  \<^item> \<open>Vlt_Witness_Service\<close>: \<open>vlt1-witness/src/lib.rs\<close> and the dispatch of its \<open>main.rs\<close>: epochs never go back, a superseded receipt is
    never reported again, rows signed under another key are refused. \<open>Vlt_Witness_Main\<close>: start and request loop of \<open>main.rs\<close>, \<open>bin/vlt1-witness-key.rs\<close>, and how the daemon's
    pinned key and token relate to them.
  \<^item> \<open>Vlt_Vault\<close>: \<open>vault.rs\<close>. \<open>Vlt_Vault_Read\<close> has the reference \<open>contents\<close>, a map from objects to the plaintexts that the whole
    chain of keys authenticates; \<open>Vlt_Vault_Publish\<close> and \<open>Vlt_Vault_Correct\<close> show that publication is an update of this map and a read
    a lookup, what failures leave, and the life of the root envelope; \<open>Vlt_Vault_Witness\<close> adds the witness; \<open>Vlt_Vault_Steps\<close> has the
    invariants of all sequences of operations.
  \<^item> \<open>Vlt_Backup\<close>: \<open>backup.rs\<close> over a file system with names, inodes and contents; which operations of the vault lock it when
    they fail.
  \<^item> \<open>Vlt_Protocol\<close>: \<open>vlt1-protocol/src/lib.rs\<close>, messages, frames and streams over a connection.
  \<^item> \<open>Vlt_Daemon\<close>: \<open>vlt1-daemon/src/lib.rs\<close> and the configuration of its \<open>main.rs\<close>. \<open>Vlt_Daemon_Streams\<close>: the stream reader and writer
    against the interfaces the vault expects. \<open>Vlt_Daemon_Requests\<close>: all connections, refused ones, the type of
    answers. \<open>Vlt_Daemon_Witness\<close>: requests under a witness. \<open>Vlt_Daemon_Socket\<close>: the socket file. \<open>Vlt_Admission\<close>: the accept loop and
    its atomics under all interleavings.
  \<^item> \<open>Vlt_Cli\<close>, \<open>Vlt_Cli_Correct\<close>: \<open>vlt1-cli/src/main.rs\<close>, every command, and \<open>put\<close> and \<open>get\<close> against the daemon.
  \<^item> This theory: the round trip from an input file to an output file.

  \<^bold>\<open>Termination and bounds.\<close> No definition has fuel. Loops over input are total functions: the stream reader, the
  download loop and \<open>channel_deliveries\<close> consume what is left on the connection, the chunk loops what is left of the reader, the
  path loops the components. A reader is the list of what its reads deliver, so a stream that never ends is not a
  value; the code bounds each read of a connection by a timeout, which is a failed read here. The loop that fills a chunk buffer repeats
  an interrupted read without bound: \<open>fill_buffer\<close> is this loop over an arbitrary reader, a partial function that agrees with the total
  one on every list of deliveries and has no value on a reader that is interrupted for ever. The compare-exchange loop of admission is a step relation,
  because it may be repeated without bound.

  \<^bold>\<open>What is idealised.\<close> One connection is handled from start to end, with everything the client sends given in
  advance: the vault mutex serialises operations, and how threads interleave outside it is in \<open>Vlt_Admission\<close> only. Text is
  a list of characters below 256, and Unicode white space beyond ASCII is not trimmed. Error messages omit causes.

  \<^bold>\<open>Not modelled.\<close> \<open>vlt1-cli/src/bin/vlt1-bench.rs\<close>, which measures times; the fuzz targets, which call decoders
  that are modelled; \<open>vlt1-core/src/lib.rs\<close>, which re-exports; unit tests. Zeroization has no counterpart among values. Argument
  parsing by clap, terminal prompts and the HTTP server appear as their results.
\<close>

section \<open>From file to file\<close>

text \<open>C1. What a user puts in is what a user gets out: when \<open>vlt1 put\<close> of a file and then \<open>vlt1 get\<close> of the same object
  both report success, each against the daemon at the other end of its connection, the output file is
  a new owner-private file with the bytes of the input file. Between the two the bytes went through
  the stream protocol, chunked encryption under a fresh key, the database, two verification passes, decryption and the
  stream protocol again.\<close>

theorem file_roundtrip:
  assumes "codec_law (cx_print_request K) (sx_parse_request X)" "codec_law (sx_print_response X) (cx_parse_response K)"
    and "aead_correct (sx_crypto X)" "hash_width (sx_crypto X)" "db_ok (tables (dm_vault d))"
    and "cli_put K socket object_id infile s = (s', Inr lines)" "serve_stream X True peer d ch = (d', ch', Inr ())"
    and "incoming ch = sent (cl_stream s) (cl_stream s')" "incoming (cl_stream s) = sent ch ch'"
    and "cli_get K socket object_id outfile g = (g', Inr lines')" "serve_stream X True peer d' dh = (d2, dh', Inr ())" "quiet dh"
    and "incoming dh = sent (cl_stream g) (cl_stream g')" "incoming (cl_stream g) = sent dh dh'"
  shows "\<exists>bs. fs_read infile (files s) = Inr bs \<and> fs_read outfile (files g') = Inr bs \<and> private_regular (files g') outfile"
proof -
  obtain bs oid rk where put: "fs_read infile (files s) = Inr bs" "daemon_parse_object_id object_id = Inr oid"
    "contents (sx_crypto X) rk (vault_id_of (dm_vault d)) (tables (dm_vault d'))
      = (contents (sx_crypto X) rk (vault_id_of (dm_vault d)) (tables (dm_vault d)))(oid \<mapsto> bs)"
    "vt_root_key (dm_vault d') = Some rk" "vault_id_of (dm_vault d') = vault_id_of (dm_vault d)"
    using cli_put_effect [OF assms(1-9)] by blast
  with cli_get_effect [OF assms(1,2,10-14)] show ?thesis by auto
qed

theorem file_roundtrip_witness:
  "\<exists>s s' g g' lines lines'. cli_put sample_cli ''/s'' sample_object ''/v'' s = (s', Inr lines) \<and> fs_read ''/v'' (files s) = Inr [1, 2, 3]
     \<and> cli_get sample_cli ''/s'' sample_object ''/o'' g = (g', Inr lines') \<and> fs_read ''/o'' (files g') = Inr [1, 2, 3]"
proof -
  let ?X = "sample_services sample_agent" and ?in = "channel_of (prefixed [2] @ upload_bytes)"
  obtain v ver ch where put: "serve_stream ?X True (Some 1000) (sample_daemon sample_vault None ()) ?in = (sample_daemon v None (), ch, Inr ())"
    "length (to_hex ver) \<le> 32" "sent ?in ch = prefixed [1] @ prefixed (2 # text_bytes (to_hex ver))" "sample_stored v"
    by (rule sample_put_served)
  obtain dh ds where get: "serve_stream ?X True (Some 1000) (sample_daemon v None ()) (channel_of (prefixed [3])) = (sample_daemon v None (), dh, Inr ())"
    "list_all stream_chunk_ok ds" "sent (channel_of (prefixed [3])) dh = prefixed [1] @ stream_bytes ds @ u32_to_be_bytes STREAM_END"
    by (rule sample_get_served [OF put(4)])
  obtain fs where out: "cli_get sample_cli ''/s'' sample_object ''/o''
      (sample_client client_files (wire (prefixed [1] @ stream_bytes ds @ u32_to_be_bytes STREAM_END) []))
    = (sample_client fs (wire [] (prefixed [3])), Inr [''verified and wrote /o''])"
    using sample_cli_get [OF get(2)] by blast
  have infile: "fs_read ''/v'' client_files = Inr [1, 2, 3]"
    by (simp add: fs_read_def fs_inode_def client_files_def sample_files_def)
  have "\<exists>bs. fs_read ''/v'' client_files = Inr bs \<and> fs_read ''/o'' fs = Inr bs \<and> private_regular fs ''/o''"
    using file_roundtrip [OF _ _ daemon_sample_laws(2-4) sample_cli_put [OF put(2)] put(1) _ _ out get(1)] put(3) get(3)
    by (simp add: sample_request_codec sample_response_codec sent_def)
  with sample_cli_put [OF put(2)] out infile show ?thesis by fastforce
qed

end
